(* ===== verification/Prelude.thy ===== *)
theory Prelude
  imports Main "HOL-Library.Word" "HOL-Library.Code_Target_Nat"
begin

text \<open>
  Shared vocabulary of the development: the machine integer types of the kernel's C code
  as words, the lemma collections the component theories fill, and the facts on lists and
  words that more than one component uses. Nothing here models code of the kernel.
\<close>

unbundle bit_operations_syntax

section \<open>Machine integers\<close>

type_synonym u8 = "8 word"
type_synonym u16 = "16 word"
type_synonym u32 = "32 word"
type_synonym u64 = "64 word"

named_theorems layout_simps \<open>values of the constants of the kernel's headers\<close>
named_theorems invar_intros \<open>operations keep the invariant of their component\<close>

section \<open>Words\<close>

lemma unat_word_mod: "unat (a mod b) = unat a mod unat (b :: 'a::len word)"
  by (rule unat_mod_distrib)

lemma unat_Suc_small:
  assumes "unat x < n" and "n < 2 ^ LENGTH('a)"
  shows "unat (x + 1 :: 'a::len word) = Suc (unat x)"
proof -
  have "unat x + 1 < 2 ^ LENGTH('a)"
    using assms by linarith
  then show ?thesis
    by (simp add: unat_word_ariths)
qed

lemma unat_pred_pos:
  assumes "0 < unat x"
  shows "unat (x - 1 :: 'a::len word) = unat x - 1"
proof -
  have "x \<noteq> 0" using assms by auto
  then show ?thesis by (rule unat_minus_one)
qed

lemma of_nat_word_neq_0:
  assumes "0 < n" and "n < 2 ^ LENGTH('a)"
  shows "(of_nat n :: 'a::len word) \<noteq> 0"
proof
  assume "(of_nat n :: 'a word) = 0"
  then have "2 ^ LENGTH('a) dvd n" by (simp add: word_of_nat_eq_0_iff)
  with assms show False by (auto dest: dvd_imp_le)
qed

section \<open>Linear searches\<close>

text \<open>
  A C loop \<^verbatim>\<open>for (i = lo; i < hi; i++) if (P(i)) ...\<close> that stops at the first hit is
  \<open>find P [lo..<hi]\<close>.
\<close>

lemma find_upt_Some_iff:
  "find P [lo..<hi] = Some i \<longleftrightarrow> lo \<le> i \<and> i < hi \<and> P i \<and> (\<forall>j. lo \<le> j \<and> j < i \<longrightarrow> \<not> P j)"
proof (cases "lo \<le> hi")
  case True
  show ?thesis
  proof
    assume "find P [lo..<hi] = Some i"
    then obtain k where k: "k < hi - lo" "P (lo + k)" "i = lo + k" "\<forall>j<k. \<not> P (lo + j)"
      by (auto simp: find_Some_iff)
    then have "\<forall>j. lo \<le> j \<and> j < i \<longrightarrow> \<not> P j"
      by (metis add_diff_inverse_nat add_less_cancel_left not_less)
    with k show "lo \<le> i \<and> i < hi \<and> P i \<and> (\<forall>j. lo \<le> j \<and> j < i \<longrightarrow> \<not> P j)" by auto
  next
    assume "lo \<le> i \<and> i < hi \<and> P i \<and> (\<forall>j. lo \<le> j \<and> j < i \<longrightarrow> \<not> P j)"
    then show "find P [lo..<hi] = Some i"
      by (auto simp: find_Some_iff intro!: exI [of _ "i - lo"])
  qed
next
  case False
  then show ?thesis by auto
qed

lemma find_upt_None_iff: "find P [lo..<hi] = None \<longleftrightarrow> (\<forall>i. lo \<le> i \<and> i < hi \<longrightarrow> \<not> P i)"
  by (auto simp: find_None_iff)

lemma find_upt_skip:
  assumes "\<And>k. lo \<le> k \<Longrightarrow> k < mid \<Longrightarrow> \<not> P k" and "lo \<le> mid"
  shows "find P [lo..<hi] = find P [mid..<hi]"
proof (cases "find P [mid..<hi]")
  case None
  then have "\<not> P i" if "lo \<le> i" "i < hi" for i
    using assms(1) that by (cases "i < mid") (auto simp: find_upt_None_iff)
  then have "find P [lo..<hi] = None" by (simp add: find_upt_None_iff)
  then show ?thesis using None by simp
next
  case (Some i)
  then have i: "mid \<le> i" "i < hi" "P i" "\<And>j. mid \<le> j \<Longrightarrow> j < i \<Longrightarrow> \<not> P j"
    by (auto simp: find_upt_Some_iff)
  have "\<not> P j" if "lo \<le> j" "j < i" for j
    using that assms(1) i(4) by (cases "j < mid") auto
  then have "find P [lo..<hi] = Some i"
    using i assms(2) by (auto simp: find_upt_Some_iff)
  then show ?thesis using Some by simp
qed

section \<open>Ring buffers\<close>

text \<open>
  The kernel keeps several ring buffers: an array, a read index, a write index and a
  count. What they hold is the \<open>n\<close> slots from the read index on, wrapping at the end
  of the array.
\<close>

definition ring_list :: "'a list \<Rightarrow> nat \<Rightarrow> nat \<Rightarrow> 'a list" where
  "ring_list buf r n = map (\<lambda>i. buf ! ((r + i) mod length buf)) [0..<n]"

lemma length_ring_list [simp]: "length (ring_list buf r n) = n"
  by (simp add: ring_list_def)

lemma ring_list_0 [simp]: "ring_list buf r 0 = []"
  by (simp add: ring_list_def)

lemma ring_index_distinct:
  assumes "i < n" and "n < (l::nat)"
  shows "(r + n) mod l \<noteq> (r + i) mod l"
proof
  assume eq: "(r + n) mod l = (r + i) mod l"
  have "l dvd (r + n) - (r + i)"
    using eq assms by (metis add_le_mono less_imp_le mod_eq_dvd_iff_nat order_refl)
  then have "l dvd n - i" by simp
  then show False
    using assms by (meson dvd_imp_le less_imp_diff_less not_le zero_less_diff)
qed

lemma ring_list_push:
  assumes "n < length buf"
  shows "ring_list (buf[(r + n) mod length buf := x]) r (Suc n) = ring_list buf r n @ [x]"
proof -
  have "(r + n) mod length buf < length buf"
    using assms by (intro mod_less_divisor) linarith
  then show ?thesis
    using assms ring_index_distinct [of _ n "length buf" r]
    by (auto simp: ring_list_def nth_list_update_neq)
qed

lemma ring_list_pop:
  "ring_list buf r (Suc n) = buf ! (r mod length buf) # ring_list buf ((r + 1) mod length buf) n"
  by (simp add: ring_list_def upt_conv_Cons map_Suc_upt [symmetric] mod_simps
      del: upt_Suc)

end
