(* ===== verification/Fifo.thy ===== *)
theory Fifo
  imports Prelude
begin

text \<open>
  The interface of the kernel's bounded queues (the event queue, pipes, the user device
  buffers): a queue of capacity \<open>cap\<close> whose push is refused when it is full and
  whose poll is refused when it is empty. The abstract queue is a list. The locale states
  what a provider promises; its lemmas say that every sequence of calls on a provider
  gives the results the list gives.
\<close>

datatype 'a fifo_op = Push 'a | Poll

datatype 'a fifo_res = Pushed bool | Polled "'a option"

fun fifo_spec_step :: "nat \<Rightarrow> 'a fifo_op \<Rightarrow> 'a list \<Rightarrow> 'a fifo_res \<times> 'a list" where
  "fifo_spec_step cap (Push x) xs =
     (if length xs < cap then (Pushed True, xs @ [x]) else (Pushed False, xs))"
| "fifo_spec_step cap Poll xs =
     (case xs of [] \<Rightarrow> (Polled None, []) | y # ys \<Rightarrow> (Polled (Some y), ys))"

fun fifo_spec_run :: "nat \<Rightarrow> 'a fifo_op list \<Rightarrow> 'a list \<Rightarrow> 'a fifo_res list \<times> 'a list" where
  "fifo_spec_run cap [] xs = ([], xs)"
| "fifo_spec_run cap (c # cs) xs =
     (let (r, xs') = fifo_spec_step cap c xs; (rs, xs'') = fifo_spec_run cap cs xs'
      in (r # rs, xs''))"

fun fifo_step ::
  "('a \<Rightarrow> 's \<Rightarrow> bool \<times> 's) \<Rightarrow> ('s \<Rightarrow> 'a option \<times> 's) \<Rightarrow> 'a fifo_op \<Rightarrow> 's \<Rightarrow> 'a fifo_res \<times> 's" where
  "fifo_step push poll (Push x) s = (let (ok, s') = push x s in (Pushed ok, s'))"
| "fifo_step push poll Poll s = (let (r, s') = poll s in (Polled r, s'))"

fun fifo_run ::
  "('a \<Rightarrow> 's \<Rightarrow> bool \<times> 's) \<Rightarrow> ('s \<Rightarrow> 'a option \<times> 's) \<Rightarrow> 'a fifo_op list \<Rightarrow> 's
    \<Rightarrow> 'a fifo_res list \<times> 's" where
  "fifo_run push poll [] s = ([], s)"
| "fifo_run push poll (c # cs) s =
     (let (r, s') = fifo_step push poll c s; (rs, s'') = fifo_run push poll cs s'
      in (r # rs, s''))"

text \<open>The abstract queue never reorders or invents: the polled values are, in order, a
  prefix of what was in the queue followed by what was accepted.\<close>

fun accepted :: "'a fifo_op list \<Rightarrow> 'a fifo_res list \<Rightarrow> 'a list" where
  "accepted (Push x # cs) (Pushed ok # rs) = (if ok then x # accepted cs rs else accepted cs rs)"
| "accepted (c # cs) (r # rs) = accepted cs rs"
| "accepted _ _ = []"

fun delivered :: "'a fifo_res list \<Rightarrow> 'a list" where
  "delivered (Polled (Some x) # rs) = x # delivered rs"
| "delivered (r # rs) = delivered rs"
| "delivered [] = []"

lemma fifo_spec_run_order:
  "fifo_spec_run cap cs xs = (rs, ys) \<Longrightarrow> xs @ accepted cs rs = delivered rs @ ys"
proof (induction cs arbitrary: xs rs)
  case Nil
  then show ?case by simp
next
  case (Cons c cs)
  then show ?case
    by (cases c) (fastforce split: prod.splits if_splits list.splits)+
qed

locale bounded_fifo =
  fixes cap :: nat
    and invar :: "'s \<Rightarrow> bool"
    and contents :: "'s \<Rightarrow> 'a list"
    and push :: "'a \<Rightarrow> 's \<Rightarrow> bool \<times> 's"
    and poll :: "'s \<Rightarrow> 'a option \<times> 's"
  assumes within_cap: "invar s \<Longrightarrow> length (contents s) \<le> cap"
    and push_invar: "invar s \<Longrightarrow> invar (snd (push x s))"
    and push_ok: "invar s \<Longrightarrow> length (contents s) < cap \<Longrightarrow>
      fst (push x s) \<and> contents (snd (push x s)) = contents s @ [x]"
    and push_full: "invar s \<Longrightarrow> length (contents s) = cap \<Longrightarrow> push x s = (False, s)"
    and poll_invar: "invar s \<Longrightarrow> invar (snd (poll s))"
    and poll_empty: "invar s \<Longrightarrow> contents s = [] \<Longrightarrow> poll s = (None, s)"
    and poll_ok: "invar s \<Longrightarrow> contents s = y # ys \<Longrightarrow>
      fst (poll s) = Some y \<and> contents (snd (poll s)) = ys"
begin

lemma step_refines:
  assumes "invar s"
  shows "invar (snd (fifo_step push poll c s)) \<and>
    fifo_spec_step cap c (contents s) =
      (fst (fifo_step push poll c s), contents (snd (fifo_step push poll c s)))"
proof (cases c)
  case (Push x)
  show ?thesis
  proof (cases "length (contents s) < cap")
    case True
    with Push push_ok [OF assms True, of x] push_invar [OF assms, of x] show ?thesis
      by (simp add: case_prod_unfold)
  next
    case False
    then have "length (contents s) = cap"
      using within_cap [OF assms] by simp
    with Push push_full [OF assms] assms show ?thesis by simp
  qed
next
  case Poll
  with poll_empty [OF assms] poll_ok [OF assms] poll_invar [OF assms] assms show ?thesis
    by (auto simp: case_prod_unfold split: list.splits)
qed

theorem run_refines:
  assumes "invar s"
  shows "invar (snd (fifo_run push poll cs s)) \<and>
    fifo_spec_run cap cs (contents s) =
      (fst (fifo_run push poll cs s), contents (snd (fifo_run push poll cs s)))"
  using assms
proof (induction cs arbitrary: s)
  case Nil
  then show ?case by simp
next
  case (Cons c cs)
  obtain r s' where step: "fifo_step push poll c s = (r, s')" by fastforce
  with step_refines [OF Cons.prems, of c] have s': "invar s'"
    and spec: "fifo_spec_step cap c (contents s) = (r, contents s')" by simp_all
  from Cons.IH [OF s'] step spec show ?case
    by (simp add: case_prod_unfold Let_def)
qed

corollary run_order:
  assumes "invar s"
  shows "contents s @ accepted cs (fst (fifo_run push poll cs s)) =
    delivered (fst (fifo_run push poll cs s)) @ contents (snd (fifo_run push poll cs s))"
  using fifo_spec_run_order run_refines [OF assms, of cs] by blast

end

end
