(* ===== verification/Events.thy ===== *)
theory Events
  imports Fifo
begin

text \<open>
  The input event queue (\<^verbatim>\<open>src/kernel/events/events.c\<close> and its header): a global
  ring of 64 events filled by the keyboard interrupt and drained by system calls, the
  modifier state, the event constructors and the scancode table. The queue's index
  updates run with interrupts disabled (\<^verbatim>\<open>irq_save\<close> / \<^verbatim>\<open>irq_restore\<close>),
  so each call is one atomic step of the model.
\<close>

section \<open>Data\<close>

datatype event_type =
    EVENT_NONE | EVENT_KEY_PRESSED | EVENT_KEY_RELEASED | EVENT_CHAR_INPUT
  | EVENT_MOUSE_MOVE | EVENT_MOUSE_BUTTON

datatype key_code =
    KEY_UNKNOWN | KEY_ESCAPE
  | KEY_F1 | KEY_F2 | KEY_F3 | KEY_F4 | KEY_F5 | KEY_F6
  | KEY_F7 | KEY_F8 | KEY_F9 | KEY_F10 | KEY_F11 | KEY_F12
  | KEY_BACKSPACE | KEY_TAB | KEY_ENTER
  | KEY_LEFT_SHIFT | KEY_RIGHT_SHIFT | KEY_LEFT_CTRL | KEY_RIGHT_CTRL
  | KEY_LEFT_ALT | KEY_RIGHT_ALT | KEY_CAPS_LOCK | KEY_NUM_LOCK | KEY_SCROLL_LOCK
  | KEY_SPACE | KEY_INSERT | KEY_DELETE | KEY_HOME | KEY_END | KEY_PAGE_UP | KEY_PAGE_DOWN
  | KEY_ARROW_UP | KEY_ARROW_DOWN | KEY_ARROW_LEFT | KEY_ARROW_RIGHT

abbreviation MOD_NONE :: u8 where "MOD_NONE \<equiv> 0"
abbreviation MOD_SHIFT :: u8 where "MOD_SHIFT \<equiv> 1"
abbreviation MOD_CTRL :: u8 where "MOD_CTRL \<equiv> 2"
abbreviation MOD_ALT :: u8 where "MOD_ALT \<equiv> 4"
abbreviation MOD_CAPS :: u8 where "MOD_CAPS \<equiv> 8"
abbreviation MOD_NUM :: u8 where "MOD_NUM \<equiv> 16"

record keyboard_event_data =
  keycode :: key_code
  scancode :: u8
  ascii :: char
  modifiers :: u8
  is_extended :: bool

record mouse_event_data =
  mouse_x :: "16 word"
  mouse_y :: "16 word"
  delta_x :: "16 word"
  delta_y :: "16 word"
  buttons :: u8

datatype event_data = Keyboard keyboard_event_data | Mouse mouse_event_data

record event =
  ev_type :: event_type
  timestamp :: u64
  ev_data :: event_data

definition EVENT_QUEUE_SIZE :: nat where
  "EVENT_QUEUE_SIZE = 64"

declare EVENT_QUEUE_SIZE_def [layout_simps]

record event_queue =
  events :: "event list"
  read_index :: u32
  write_index :: u32
  count :: u32

record event_state =
  g_event_queue :: event_queue
  g_modifier_state :: u8
  current_modifiers :: u8

text \<open>The all-zero bytes that \<^verbatim>\<open>memset\<close> leaves in a slot, read as an event.\<close>

definition zero_event :: event where
  "zero_event = \<lparr>ev_type = EVENT_NONE, timestamp = 0,
     ev_data = Keyboard \<lparr>keycode = KEY_UNKNOWN, scancode = 0, ascii = CHR 0x00,
       modifiers = 0, is_extended = False\<rparr>\<rparr>"

section \<open>Queue operations\<close>

definition event_init :: "event_state \<Rightarrow> event_state" where
  "event_init s = s\<lparr>g_event_queue :=
       \<lparr>events = replicate EVENT_QUEUE_SIZE zero_event,
        read_index = 0, write_index = 0, count = 0\<rparr>,
     current_modifiers := MOD_NONE\<rparr>"

text \<open>A null argument is \<open>None\<close>; the result is what the C function returns.\<close>

definition event_push :: "event option \<Rightarrow> event_state \<Rightarrow> bool \<times> event_state" where
  "event_push event s =
     (case event of
        None \<Rightarrow> (False, s)
      | Some e \<Rightarrow>
          let q = g_event_queue s in
          if count q \<ge> of_nat EVENT_QUEUE_SIZE then (False, s)
          else (True, s\<lparr>g_event_queue := q\<lparr>
                  events := (events q)[unat (write_index q) := e],
                  write_index := (write_index q + 1) mod of_nat EVENT_QUEUE_SIZE,
                  count := count q + 1\<rparr>\<rparr>))"

text \<open>\<open>out\<close> says whether an output pointer was given; \<open>Some e\<close> stands for returning
  true with \<open>e\<close> stored through it, \<open>None\<close> for returning false.\<close>

definition event_poll :: "bool \<Rightarrow> event_state \<Rightarrow> event option \<times> event_state" where
  "event_poll out s =
     (if \<not> out then (None, s)
      else
        let q = g_event_queue s in
        if count q = 0 then (None, s)
        else (Some (events q ! unat (read_index q)),
              s\<lparr>g_event_queue := q\<lparr>
                  read_index := (read_index q + 1) mod of_nat EVENT_QUEUE_SIZE,
                  count := count q - 1\<rparr>\<rparr>))"

text \<open>
  \<^verbatim>\<open>event_wait\<close> polls and halts until the next interrupt while the queue is empty. The
  interrupts that arrive are given as the list of what each does to the state; running
  out of them is the halt that never ends, \<open>None\<close>.
\<close>

fun event_wait :: "(event_state \<Rightarrow> event_state) list \<Rightarrow> event_state
    \<Rightarrow> (event \<times> event_state) option" where
  "event_wait irqs s =
     (case event_poll True s of
        (Some e, s') \<Rightarrow> Some (e, s')
      | (None, s') \<Rightarrow> (case irqs of [] \<Rightarrow> None | h # hs \<Rightarrow> event_wait hs (h s')))"

declare event_wait.simps [simp del]

definition event_pending :: "event_state \<Rightarrow> bool" where
  "event_pending s = (count (g_event_queue s) > 0)"

definition event_clear :: "event_state \<Rightarrow> event_state" where
  "event_clear s = s\<lparr>g_event_queue := (g_event_queue s)\<lparr>
     read_index := 0, write_index := 0, count := 0\<rparr>\<rparr>"

section \<open>Event constructors\<close>

definition event_create_key_pressed ::
  "key_code \<Rightarrow> u8 \<Rightarrow> char \<Rightarrow> u8 \<Rightarrow> bool \<Rightarrow> event" where
  "event_create_key_pressed kc sc asc mods ext =
     \<lparr>ev_type = EVENT_KEY_PRESSED, timestamp = 0,
      ev_data = Keyboard \<lparr>keycode = kc, scancode = sc, ascii = asc, modifiers = mods,
        is_extended = ext\<rparr>\<rparr>"

definition event_create_key_released ::
  "key_code \<Rightarrow> u8 \<Rightarrow> u8 \<Rightarrow> bool \<Rightarrow> event" where
  "event_create_key_released kc sc mods ext =
     \<lparr>ev_type = EVENT_KEY_RELEASED, timestamp = 0,
      ev_data = Keyboard \<lparr>keycode = kc, scancode = sc, ascii = CHR 0x00, modifiers = mods,
        is_extended = ext\<rparr>\<rparr>"

definition event_create_char_input :: "char \<Rightarrow> event_state \<Rightarrow> event" where
  "event_create_char_input c s =
     \<lparr>ev_type = EVENT_CHAR_INPUT, timestamp = 0,
      ev_data = Keyboard \<lparr>keycode = KEY_UNKNOWN, scancode = 0, ascii = c,
        modifiers = current_modifiers s, is_extended = False\<rparr>\<rparr>"

definition update_modifier_byte :: "key_code \<Rightarrow> bool \<Rightarrow> u8 \<Rightarrow> u8" where
  "update_modifier_byte kc pressed m =
     (if kc = KEY_LEFT_SHIFT \<or> kc = KEY_RIGHT_SHIFT then
        (if pressed then m OR MOD_SHIFT else m AND NOT MOD_SHIFT)
      else if kc = KEY_LEFT_CTRL \<or> kc = KEY_RIGHT_CTRL then
        (if pressed then m OR MOD_CTRL else m AND NOT MOD_CTRL)
      else if kc = KEY_LEFT_ALT \<or> kc = KEY_RIGHT_ALT then
        (if pressed then m OR MOD_ALT else m AND NOT MOD_ALT)
      else if kc = KEY_CAPS_LOCK then
        (if pressed then m XOR MOD_CAPS else m)
      else if kc = KEY_NUM_LOCK then
        (if pressed then m XOR MOD_NUM else m)
      else m)"

definition event_update_modifiers :: "key_code \<Rightarrow> bool \<Rightarrow> event_state \<Rightarrow> event_state" where
  "event_update_modifiers kc pressed s =
     s\<lparr>g_modifier_state := update_modifier_byte kc pressed (g_modifier_state s)\<rparr>"

definition event_get_modifiers :: "event_state \<Rightarrow> u8" where
  "event_get_modifiers s = g_modifier_state s"

definition scancode_table_extended :: "(u8 \<times> key_code) list" where
  "scancode_table_extended =
    [(0x75, KEY_ARROW_UP), (0x72, KEY_ARROW_DOWN), (0x6B, KEY_ARROW_LEFT),
     (0x74, KEY_ARROW_RIGHT), (0x7D, KEY_PAGE_UP), (0x7A, KEY_PAGE_DOWN),
     (0x6C, KEY_HOME), (0x69, KEY_END), (0x70, KEY_INSERT), (0x71, KEY_DELETE),
     (0x14, KEY_RIGHT_CTRL), (0x11, KEY_RIGHT_ALT)]"

definition scancode_table_standard :: "(u8 \<times> key_code) list" where
  "scancode_table_standard =
    [(0x76, KEY_ESCAPE), (0x05, KEY_F1), (0x06, KEY_F2), (0x04, KEY_F3), (0x0C, KEY_F4),
     (0x03, KEY_F5), (0x0B, KEY_F6), (0x83, KEY_F7), (0x0A, KEY_F8), (0x01, KEY_F9),
     (0x09, KEY_F10), (0x78, KEY_F11), (0x07, KEY_F12), (0x66, KEY_BACKSPACE),
     (0x0D, KEY_TAB), (0x5A, KEY_ENTER), (0x12, KEY_LEFT_SHIFT), (0x59, KEY_RIGHT_SHIFT),
     (0x14, KEY_LEFT_CTRL), (0x11, KEY_LEFT_ALT), (0x58, KEY_CAPS_LOCK),
     (0x77, KEY_NUM_LOCK), (0x7E, KEY_SCROLL_LOCK), (0x29, KEY_SPACE)]"

definition scancode_to_keycode :: "u8 \<Rightarrow> bool \<Rightarrow> key_code" where
  "scancode_to_keycode sc extended =
     (case map_of (if extended then scancode_table_extended else scancode_table_standard) sc of
        Some k \<Rightarrow> k
      | None \<Rightarrow> KEY_UNKNOWN)"

section \<open>The queue invariant\<close>

definition eq_contents :: "event_state \<Rightarrow> event list" where
  "eq_contents s = (let q = g_event_queue s in
     ring_list (events q) (unat (read_index q)) (unat (count q)))"

definition eq_invar :: "event_state \<Rightarrow> bool" where
  "eq_invar s = (let q = g_event_queue s in
     length (events q) = EVENT_QUEUE_SIZE \<and>
     unat (read_index q) < EVENT_QUEUE_SIZE \<and>
     unat (count q) \<le> EVENT_QUEUE_SIZE \<and>
     unat (write_index q) = (unat (read_index q) + unat (count q)) mod EVENT_QUEUE_SIZE)"

lemma eq_invar_event_init [invar_intros]: "eq_invar (event_init s)"
  by (simp add: eq_invar_def event_init_def layout_simps)

lemma eq_contents_event_init: "eq_contents (event_init s) = []"
  by (simp add: eq_contents_def event_init_def)

lemma eq_invar_event_clear [invar_intros]: "eq_invar s \<Longrightarrow> eq_invar (event_clear s)"
  by (simp add: eq_invar_def event_clear_def layout_simps Let_def)

lemma unat_ring_advance:
  assumes "unat (x::u32) < EVENT_QUEUE_SIZE"
  shows "unat ((x + 1) mod of_nat EVENT_QUEUE_SIZE) = (unat x + 1) mod EVENT_QUEUE_SIZE"
  using assms by (simp add: layout_simps unat_word_mod unat_Suc_small [of _ 64])

lemma event_push_full:
  assumes "eq_invar s" and "length (eq_contents s) = EVENT_QUEUE_SIZE"
  shows "event_push e s = (False, s)"
  using assms
  by (simp add: event_push_def eq_invar_def eq_contents_def Let_def layout_simps
      word_le_nat_alt split: option.splits)

lemma event_push_accept:
  assumes inv: "eq_invar s" and room: "length (eq_contents s) < EVENT_QUEUE_SIZE"
  shows "fst (event_push (Some e) s)"
    and "eq_invar (snd (event_push (Some e) s))"
    and "eq_contents (snd (event_push (Some e) s)) = eq_contents s @ [e]"
proof -
  let ?q = "g_event_queue s"
  from inv room have c: "unat (count ?q) < 64" and r: "unat (read_index ?q) < 64"
    and w: "unat (write_index ?q) = (unat (read_index ?q) + unat (count ?q)) mod 64"
    and l: "length (events ?q) = 64"
    by (simp_all add: eq_invar_def eq_contents_def Let_def layout_simps)
  have w64: "unat (write_index ?q) < 64" using w by simp
  have wi: "unat ((write_index ?q + 1) mod 64) = (unat (write_index ?q) + 1) mod 64"
    using unat_ring_advance [of "write_index ?q"] w64 by (simp add: layout_simps)
  have c1: "unat (count ?q + 1) = Suc (unat (count ?q))"
    using c by (rule unat_Suc_small) simp
  have guard: "\<not> count ?q \<ge> 64"
    using c by (simp add: word_le_nat_alt)
  from guard show "fst (event_push (Some e) s)"
    by (simp add: event_push_def Let_def layout_simps)
  from guard wi c1 w l r c show "eq_invar (snd (event_push (Some e) s))"
    by (simp add: event_push_def eq_invar_def Let_def layout_simps mod_Suc_eq)
  have "ring_list ((events ?q)[(unat (read_index ?q) + unat (count ?q)) mod 64 := e])
      (unat (read_index ?q)) (Suc (unat (count ?q)))
    = ring_list (events ?q) (unat (read_index ?q)) (unat (count ?q)) @ [e]"
    using ring_list_push [of "unat (count ?q)" "events ?q" "unat (read_index ?q)" e] c l by simp
  with guard c1 w show "eq_contents (snd (event_push (Some e) s)) = eq_contents s @ [e]"
    by (simp add: event_push_def eq_contents_def Let_def layout_simps)
qed

lemma event_poll_empty:
  assumes "eq_invar s" and "eq_contents s = []"
  shows "event_poll out s = (None, s)"
proof -
  from assms(2) have "length (eq_contents s) = 0" by simp
  then have "count (g_event_queue s) = 0"
    by (simp add: eq_contents_def Let_def unat_eq_0)
  then show ?thesis by (simp add: event_poll_def)
qed

lemma event_poll_deliver:
  assumes inv: "eq_invar s" and ne: "eq_contents s = y # ys"
  shows "fst (event_poll True s) = Some y"
    and "eq_invar (snd (event_poll True s))"
    and "eq_contents (snd (event_poll True s)) = ys"
proof -
  let ?q = "g_event_queue s"
  from ne have "length (eq_contents s) = Suc (length ys)" by simp
  then have c: "unat (count ?q) = Suc (length ys)"
    by (simp add: eq_contents_def Let_def)
  then have nz: "count ?q \<noteq> 0" by auto
  from inv have r: "unat (read_index ?q) < 64" and l: "length (events ?q) = 64"
    and le: "unat (count ?q) \<le> 64"
    and w: "unat (write_index ?q) = (unat (read_index ?q) + unat (count ?q)) mod 64"
    by (simp_all add: eq_invar_def Let_def layout_simps)
  have ri: "unat ((read_index ?q + 1) mod 64) = (unat (read_index ?q) + 1) mod 64"
    using unat_ring_advance [of "read_index ?q"] r by (simp add: layout_simps)
  have c1: "unat (count ?q - 1) = length ys"
    using c by (simp add: unat_pred_pos)
  have pop: "eq_contents s = events ?q ! unat (read_index ?q)
      # ring_list (events ?q) ((unat (read_index ?q) + 1) mod 64) (length ys)"
    using c r l by (simp add: eq_contents_def Let_def ring_list_pop)
  with ne nz show "fst (event_poll True s) = Some y"
    by (simp add: event_poll_def Let_def)
  from pop ne nz ri c1 show "eq_contents (snd (event_poll True s)) = ys"
    by (simp add: event_poll_def eq_contents_def Let_def layout_simps)
  have "(unat (read_index ?q) + Suc (length ys)) mod 64
      = (Suc (unat (read_index ?q)) mod 64 + length ys) mod 64"
    by (simp add: mod_simps)
  with nz ri c1 l le c w show "eq_invar (snd (event_poll True s))"
    by (simp add: event_poll_def eq_invar_def Let_def layout_simps)
qed

interpretation evq: bounded_fifo EVENT_QUEUE_SIZE eq_invar eq_contents
  "\<lambda>e. event_push (Some e)" "event_poll True"
proof
  fix s :: event_state and e :: event and y :: event and ys :: "event list"
  assume inv: "eq_invar s"
  then show bound: "length (eq_contents s) \<le> EVENT_QUEUE_SIZE"
    by (simp add: eq_invar_def eq_contents_def Let_def)
  show "eq_invar (snd (event_push (Some e) s))"
    using inv bound event_push_accept(2) [OF inv] event_push_full [OF inv]
    by (cases "length (eq_contents s) = EVENT_QUEUE_SIZE") auto
  show "eq_invar (snd (event_poll True s))"
    using inv event_poll_deliver(2) [OF inv] event_poll_empty [OF inv]
    by (cases "eq_contents s") auto
next
  fix s :: event_state and e :: event
  assume "eq_invar s" and "length (eq_contents s) < EVENT_QUEUE_SIZE"
  then show "fst (event_push (Some e) s) \<and> eq_contents (snd (event_push (Some e) s)) =
      eq_contents s @ [e]"
    by (simp add: event_push_accept)
next
  fix s :: event_state and e :: event
  assume "eq_invar s" and "length (eq_contents s) = EVENT_QUEUE_SIZE"
  then show "event_push (Some e) s = (False, s)"
    by (rule event_push_full)
next
  fix s :: event_state
  assume "eq_invar s" and "eq_contents s = []"
  then show "event_poll True s = (None, s)"
    by (rule event_poll_empty)
next
  fix s :: event_state and y :: event and ys :: "event list"
  assume "eq_invar s" and "eq_contents s = y # ys"
  then show "fst (event_poll True s) = Some y \<and> eq_contents (snd (event_poll True s)) = ys"
    by (simp add: event_poll_deliver)
qed

end
