(* ===== verification/Events_Correct.thy ===== *)
theory Events_Correct
  imports Events
begin

text \<open>
  The properties of the event queue: it is the bounded list queue of the interface, waiting
  ends exactly when an event arrives, and the state invariant over every reachable state.
\<close>

section \<open>The queue is a bounded list\<close>

text \<open>C2. From \<^verbatim>\<open>event_init\<close> on, every sequence of pushes and polls gives, call by call, the
  results of a list queue of capacity 64, and the delivered events are, in order, the first of
  the accepted ones: nothing is lost, duplicated or reordered.\<close>

theorem event_queue_is_fifo:
  "let (rs, t) = fifo_run (\<lambda>e. event_push (Some e)) (event_poll True) cs (event_init s)
   in rs = fst (fifo_spec_run 64 cs []) \<and> accepted cs rs = delivered rs @ eq_contents t"
proof -
  note inv = eq_invar_event_init [of s]
  from evq.run_refines [OF inv, of cs] evq.run_order [OF inv, of cs] show ?thesis
    by (simp add: eq_contents_event_init layout_simps case_prod_unfold)
qed

section \<open>Waiting\<close>

lemma event_poll_pending:
  "event_pending s \<longleftrightarrow> (\<exists>e s'. event_poll True s = (Some e, s'))"
  by (auto simp: event_pending_def event_poll_def Let_def word_gt_0)

lemma event_poll_idle: "\<not> event_pending s \<Longrightarrow> event_poll True s = (None, s)"
  by (simp add: event_pending_def event_poll_def word_gt_0)

fun after_irqs :: "(event_state \<Rightarrow> event_state) list \<Rightarrow> event_state \<Rightarrow> event_state" where
  "after_irqs [] s = s"
| "after_irqs (h # hs) s = after_irqs hs (h s)"

lemma event_wait_pending:
  assumes "event_pending s"
  shows "event_wait irqs s = Some (the (fst (event_poll True s)), snd (event_poll True s))"
proof -
  obtain e s' where "event_poll True s = (Some e, s')" using assms event_poll_pending by blast
  then show ?thesis by (subst event_wait.simps) simp
qed

lemma event_wait_idle:
  assumes "\<not> event_pending s"
  shows "event_wait [] s = None" and "event_wait (h # hs) s = event_wait hs (h s)"
  by (subst event_wait.simps, simp add: event_poll_idle [OF assms])+

lemma event_wait_Some:
  "event_wait irqs s = Some r \<Longrightarrow>
    \<exists>k\<le>length irqs. event_pending (after_irqs (take k irqs) s) \<and>
      (\<forall>j<k. \<not> event_pending (after_irqs (take j irqs) s)) \<and>
      event_poll True (after_irqs (take k irqs) s) = (Some (fst r), snd r)"
proof (induction irqs arbitrary: s)
  case Nil
  then have p: "event_pending s" using event_wait_idle(1) by fastforce
  then show ?case
    using Nil event_wait_pending [OF p, of "[]"] event_poll_pending [of s] by auto
next
  case (Cons h hs)
  show ?case
  proof (cases "event_pending s")
    case True
    then show ?thesis
      using Cons.prems event_wait_pending [OF True, of "h # hs"] event_poll_pending [of s]
      by (intro exI [of _ 0]) auto
  next
    case False
    then have "event_wait hs (h s) = Some r"
      using Cons.prems event_wait_idle(2) by simp
    from Cons.IH [OF this] obtain k where k: "k \<le> length hs"
      "event_pending (after_irqs (take k hs) (h s))"
      "\<forall>j<k. \<not> event_pending (after_irqs (take j hs) (h s))"
      "event_poll True (after_irqs (take k hs) (h s)) = (Some (fst r), snd r)" by (elim exE conjE)
    have "\<not> event_pending (after_irqs (take j (h # hs)) s)" if "j < Suc k" for j
      using that False k(3) by (cases j) auto
    with k show ?thesis by (intro exI [of _ "Suc k"]) simp
  qed
qed

lemma event_wait_None:
  "event_wait irqs s = None \<Longrightarrow> k \<le> length irqs \<Longrightarrow> \<not> event_pending (after_irqs (take k irqs) s)"
proof (induction irqs arbitrary: s k)
  case Nil
  then show ?case using event_wait_pending [of s "[]"] by auto
next
  case (Cons h hs)
  have idle: "\<not> event_pending s"
    using Cons.prems(1) event_wait_pending [of s "h # hs"] by auto
  then have "event_wait hs (h s) = None"
    using Cons.prems(1) event_wait_idle(2) by simp
  with Cons.IH Cons.prems(2) idle show ?case by (cases k) auto
qed

text \<open>C20. \<^verbatim>\<open>event_wait\<close> returns exactly when after some number of interrupts an event is
  pending, and then it returns the event that a poll takes at the first such moment.\<close>

theorem event_wait_returns:
  "(event_wait irqs s \<noteq> None \<longleftrightarrow> (\<exists>k\<le>length irqs. event_pending (after_irqs (take k irqs) s))) \<and>
   (\<forall>e t. event_wait irqs s = Some (e, t) \<longrightarrow>
     (\<exists>k\<le>length irqs. (\<forall>j<k. \<not> event_pending (after_irqs (take j irqs) s)) \<and>
        event_poll True (after_irqs (take k irqs) s) = (Some e, t)))"
proof -
  have "\<exists>k\<le>length irqs. event_pending (after_irqs (take k irqs) s)" if "event_wait irqs s \<noteq> None"
    using that event_wait_Some by blast
  moreover have "event_wait irqs s \<noteq> None"
    if "\<exists>k\<le>length irqs. event_pending (after_irqs (take k irqs) s)"
    using that event_wait_None by blast
  moreover have "\<exists>k\<le>length irqs. (\<forall>j<k. \<not> event_pending (after_irqs (take j irqs) s)) \<and>
        event_poll True (after_irqs (take k irqs) s) = (Some e, t)"
    if "event_wait irqs s = Some (e, t)" for e t
    using event_wait_Some [OF that] by (simp add: conj_assoc) blast
  ultimately show ?thesis by blast
qed

theorem event_wait_returns_witness:
  "\<forall>s. event_wait [\<lambda>s. s, \<lambda>s. snd (event_push (Some zero_event) s)] (event_init s) \<noteq> None"
proof
  fix s
  have "event_pending (after_irqs (take (Suc (Suc 0)) [\<lambda>s. s, \<lambda>s. snd (event_push (Some zero_event) s)]) (event_init s))"
    by (simp add: event_pending_def event_push_def event_init_def layout_simps Let_def)
  then have "\<exists>k\<le>length [\<lambda>s. s, \<lambda>s. snd (event_push (Some zero_event) s)].
      event_pending (after_irqs (take k [\<lambda>s. s, \<lambda>s. snd (event_push (Some zero_event) s)]) (event_init s))"
    by (intro exI [of _ "Suc (Suc 0)"]) simp
  then show "event_wait [\<lambda>s. s, \<lambda>s. snd (event_push (Some zero_event) s)] (event_init s) \<noteq> None"
    using event_wait_returns by blast
qed

section \<open>Reachable states\<close>

inductive event_reach :: "event_state \<Rightarrow> bool" where
  init: "event_reach (event_init s)"
| push: "event_reach s \<Longrightarrow> event_reach (snd (event_push e s))"
| poll: "event_reach s \<Longrightarrow> event_reach (snd (event_poll out s))"
| clear: "event_reach s \<Longrightarrow> event_reach (event_clear s)"
| modifiers: "event_reach s \<Longrightarrow> event_reach (event_update_modifiers kc pressed s)"

lemma event_push_invar [invar_intros]: "eq_invar s \<Longrightarrow> eq_invar (snd (event_push e s))"
  using evq.push_invar by (cases e) (simp_all add: event_push_def)

lemma event_poll_invar [invar_intros]: "eq_invar s \<Longrightarrow> eq_invar (snd (event_poll out s))"
  using evq.poll_invar by (cases out) (simp_all add: event_poll_def [of False])

lemma event_update_modifiers_invar [invar_intros]:
  "eq_invar s \<Longrightarrow> eq_invar (event_update_modifiers kc pressed s)"
  by (simp add: eq_invar_def event_update_modifiers_def)

lemma current_modifiers_step [simp]:
  "current_modifiers (event_init s) = MOD_NONE"
  "current_modifiers (snd (event_push e s)) = current_modifiers s"
  "current_modifiers (snd (event_poll out s)) = current_modifiers s"
  "current_modifiers (event_clear s) = current_modifiers s"
  "current_modifiers (event_update_modifiers kc pressed s) = current_modifiers s"
  by (simp_all add: event_init_def event_push_def event_poll_def event_clear_def
      event_update_modifiers_def Let_def split: option.splits)

text \<open>C31. In every state reachable from \<^verbatim>\<open>event_init\<close> the ring's indices and count are
  consistent and within the array, and the modifier byte that \<^verbatim>\<open>event_create_char_input\<close> stores is
  \<^verbatim>\<open>MOD_NONE\<close>: key presses change \<^verbatim>\<open>g_modifier_state\<close> only, so a character event never carries the
  shift, control or alt state that \<^verbatim>\<open>event_get_modifiers\<close> reports.\<close>

theorem event_reachable_invariant:
  assumes "event_reach s"
  shows "eq_invar s \<and>
    ev_data (event_create_char_input c s) =
      Keyboard \<lparr>keycode = KEY_UNKNOWN, scancode = 0, ascii = c, modifiers = MOD_NONE,
        is_extended = False\<rparr>"
proof -
  have "eq_invar s \<and> current_modifiers s = MOD_NONE"
    using assms by induction (auto intro: invar_intros)
  then show ?thesis by (simp add: event_create_char_input_def)
qed

theorem event_reachable_invariant_witness:
  "event_get_modifiers (event_update_modifiers KEY_LEFT_SHIFT True (event_init
      \<lparr>g_event_queue = \<lparr>events = [], read_index = 0, write_index = 0, count = 0\<rparr>,
       g_modifier_state = 0, current_modifiers = 0\<rparr>)) = MOD_SHIFT \<and>
   ev_data (event_create_char_input (CHR ''A'')
      (event_update_modifiers KEY_LEFT_SHIFT True (event_init
        \<lparr>g_event_queue = \<lparr>events = [], read_index = 0, write_index = 0, count = 0\<rparr>,
         g_modifier_state = 0, current_modifiers = 0\<rparr>))) =
     Keyboard \<lparr>keycode = KEY_UNKNOWN, scancode = 0, ascii = CHR ''A'', modifiers = MOD_NONE,
        is_extended = False\<rparr>"
proof (rule conjI)
  show "event_get_modifiers (event_update_modifiers KEY_LEFT_SHIFT True (event_init
      \<lparr>g_event_queue = \<lparr>events = [], read_index = 0, write_index = 0, count = 0\<rparr>,
       g_modifier_state = 0, current_modifiers = 0\<rparr>)) = MOD_SHIFT"
    by (simp add: event_get_modifiers_def event_update_modifiers_def update_modifier_byte_def
        event_init_def)
qed (rule conjunct2 [OF event_reachable_invariant [OF event_reach.modifiers [OF event_reach.init]]])

end
