(* ===== verification/Cstring.thy ===== *)
theory Cstring
  imports Prelude
begin

text \<open>
  The kernel's string library (\<^verbatim>\<open>src/kernel/memory/string.c\<close>).

  A string that is only read is the list of its characters before the terminator: the
  empty list is a pointer at the terminator. An object that is written is the list of its
  characters from the pointer to the end of the object, and a write past that end (which C
  leaves undefined) is \<open>None\<close>. Pointers into a string are offsets. \<^verbatim>\<open>size_t\<close> values are
  natural numbers, except where the code relies on their wrap-around.
\<close>

type_synonym cstr = "char list"

abbreviation NUL :: char where "NUL \<equiv> CHR 0x00"

definition chr_at :: "cstr \<Rightarrow> char" where
  "chr_at s = (case s of [] \<Rightarrow> NUL | c # _ \<Rightarrow> c)"

lemma chr_at_simps [simp]: "chr_at [] = NUL" "chr_at (c # s) = c"
  by (simp_all add: chr_at_def)

text \<open>The value of a character read through \<^verbatim>\<open>unsigned char *\<close>.\<close>

definition byte_of :: "char \<Rightarrow> int" where
  "byte_of c = of_char c"

lemma byte_of_NUL [simp]: "byte_of NUL = 0"
  by (simp add: byte_of_def)

lemma byte_of_inject [simp]: "byte_of c = byte_of d \<longleftrightarrow> c = d"
  by (simp add: byte_of_def)

lemma byte_of_eq_0 [simp]: "byte_of c = 0 \<longleftrightarrow> c = NUL"
  using byte_of_inject [of c NUL] by (simp del: byte_of_inject)

definition is_digit :: "char \<Rightarrow> bool" where
  "is_digit c = (byte_of CHR ''0'' \<le> byte_of c \<and> byte_of c \<le> byte_of CHR ''9'')"

text \<open>What a written object holds as a string.\<close>

definition cstr_of :: "char list \<Rightarrow> cstr" where
  "cstr_of buf = takeWhile (\<lambda>c. c \<noteq> NUL) buf"

section \<open>Memory\<close>

fun memset :: "char list \<Rightarrow> char \<Rightarrow> nat \<Rightarrow> char list option" where
  "memset d v 0 = Some d"
| "memset [] v (Suc n) = None"
| "memset (_ # d) v (Suc n) = map_option (Cons v) (memset d v n)"

fun memcpy :: "char list \<Rightarrow> char list \<Rightarrow> nat \<Rightarrow> char list option" where
  "memcpy d s 0 = Some d"
| "memcpy (_ # d) (c # s) (Suc n) = map_option (Cons c) (memcpy d s n)"
| "memcpy _ _ (Suc n) = None"

fun memcmp :: "char list \<Rightarrow> char list \<Rightarrow> nat \<Rightarrow> int option" where
  "memcmp s1 s2 0 = Some 0"
| "memcmp (c # s1) (d # s2) (Suc n) =
     (if c \<noteq> d then Some (byte_of c - byte_of d) else memcmp s1 s2 n)"
| "memcmp _ _ (Suc n) = None"

text \<open>
  \<^verbatim>\<open>memmove\<close> on overlapping areas: one memory, two addresses in it. \<^verbatim>\<open>rep movsb\<close> moves
  one byte per step and steps both pointers up (direction flag clear) or down (set). The
  result is the pointer returned and the memory. The forward branch returns the register
  the instruction has advanced.
\<close>

fun rep_movsb_up :: "nat \<Rightarrow> nat \<Rightarrow> nat \<Rightarrow> 'b list \<Rightarrow> nat \<times> 'b list" where
  "rep_movsb_up d s 0 m = (d, m)"
| "rep_movsb_up d s (Suc n) m = rep_movsb_up (Suc d) (Suc s) n (m[d := m ! s])"

fun rep_movsb_down :: "int \<Rightarrow> int \<Rightarrow> nat \<Rightarrow> 'b list \<Rightarrow> 'b list" where
  "rep_movsb_down d s 0 m = m"
| "rep_movsb_down d s (Suc n) m = rep_movsb_down (d - 1) (s - 1) n (m[nat d := m ! nat s])"

definition memmove :: "nat \<Rightarrow> nat \<Rightarrow> nat \<Rightarrow> 'b list \<Rightarrow> nat \<times> 'b list" where
  "memmove dest src n m =
     (if dest = src \<or> n = 0 then (dest, m)
      else if dest < src then rep_movsb_up dest src n m
      else (dest, rep_movsb_down (int dest + int n - 1) (int src + int n - 1) n m))"

section \<open>Length and comparison\<close>

fun strlen :: "cstr \<Rightarrow> nat" where
  "strlen [] = 0"
| "strlen (_ # s) = Suc (strlen s)"

fun strcmp :: "cstr \<Rightarrow> cstr \<Rightarrow> int" where
  "strcmp (c # s1) (d # s2) =
     (if c = d then strcmp s1 s2 else byte_of c - byte_of d)"
| "strcmp s1 s2 = byte_of (chr_at s1) - byte_of (chr_at s2)"

text \<open>The loop of \<^verbatim>\<open>strncmp\<close>: its condition decrements the 64-bit \<open>n\<close> each time it is
  evaluated, also the last time.\<close>

fun strncmp_loop :: "cstr \<Rightarrow> cstr \<Rightarrow> u64 \<Rightarrow> cstr \<times> cstr \<times> u64" where
  "strncmp_loop (c # s1) (d # s2) n =
     (if n \<noteq> 0 \<and> c = d then strncmp_loop s1 s2 (n - 1) else (c # s1, d # s2, n - 1))"
| "strncmp_loop s1 s2 n = (s1, s2, n - 1)"

definition strncmp :: "cstr \<Rightarrow> cstr \<Rightarrow> u64 \<Rightarrow> int" where
  "strncmp s1 s2 n =
     (let (t1, t2, n') = strncmp_loop s1 s2 n
      in if n' \<noteq> 0 then byte_of (chr_at t1) - byte_of (chr_at t2) else 0)"

section \<open>Copying and concatenation\<close>

fun strcpy :: "char list \<Rightarrow> cstr \<Rightarrow> char list option" where
  "strcpy [] s = None"
| "strcpy (_ # d) [] = Some (NUL # d)"
| "strcpy (_ # d) (c # s) = map_option (Cons c) (strcpy d s)"

fun copy_chars :: "nat \<Rightarrow> char list \<Rightarrow> cstr \<Rightarrow> char list option" where
  "copy_chars 0 (_ # d) s = Some (NUL # d)"
| "copy_chars (Suc n) (_ # d) (c # s) = map_option (Cons c) (copy_chars n d s)"
| "copy_chars _ _ _ = None"

definition strlcpy :: "char list \<Rightarrow> cstr \<Rightarrow> nat \<Rightarrow> (nat \<times> char list) option" where
  "strlcpy dest src sz =
     (let len = strlen src in
      if sz \<noteq> 0 then
        let copy = (if len < sz - 1 then len else sz - 1)
        in map_option (Pair len) (copy_chars copy dest src)
      else Some (len, dest))"

fun strncpy :: "char list \<Rightarrow> cstr \<Rightarrow> nat \<Rightarrow> char list option" where
  "strncpy d s 0 = Some d"
| "strncpy [] s (Suc n) = None"
| "strncpy (_ # d) [] (Suc n) = map_option (Cons NUL) (strncpy d [] n)"
| "strncpy (_ # d) (c # s) (Suc n) = map_option (Cons c) (strncpy d s n)"

fun strcat :: "char list \<Rightarrow> cstr \<Rightarrow> char list option" where
  "strcat [] s = None"
| "strcat (x # d) s =
     (if x = NUL then strcpy (x # d) s else map_option (Cons x) (strcat d s))"

fun append_upto :: "char list \<Rightarrow> cstr \<Rightarrow> nat \<Rightarrow> char list option" where
  "append_upto [] s n = None"
| "append_upto (_ # d) (c # s) (Suc n) = map_option (Cons c) (append_upto d s n)"
| "append_upto (_ # d) s n = Some (NUL # d)"

fun strncat :: "char list \<Rightarrow> cstr \<Rightarrow> nat \<Rightarrow> char list option" where
  "strncat [] s n = None"
| "strncat (x # d) s n =
     (if x = NUL then append_upto (x # d) s n else map_option (Cons x) (strncat d s n))"

section \<open>Searching\<close>

text \<open>The result is the offset of the match; \<open>None\<close> is the null pointer.\<close>

fun strchr :: "cstr \<Rightarrow> char \<Rightarrow> nat option" where
  "strchr [] c = (if c = NUL then Some 0 else None)"
| "strchr (x # s) c = (if x = c then Some 0 else map_option Suc (strchr s c))"

fun strrchr_loop :: "cstr \<Rightarrow> char \<Rightarrow> nat \<Rightarrow> nat option \<Rightarrow> nat \<times> nat option" where
  "strrchr_loop [] c i lst = (i, lst)"
| "strrchr_loop (x # s) c i lst =
     strrchr_loop s c (Suc i) (if x = c then Some i else lst)"

definition strrchr :: "cstr \<Rightarrow> char \<Rightarrow> nat option" where
  "strrchr s c =
     (let (e, lst) = strrchr_loop s c 0 None in if c = NUL then Some e else lst)"

fun starts_with :: "cstr \<Rightarrow> cstr \<Rightarrow> bool" where
  "starts_with h [] = True"
| "starts_with [] (n # ns) = False"
| "starts_with (h # hs) (n # ns) = (h = n \<and> starts_with hs ns)"

fun strstr_loop :: "cstr \<Rightarrow> cstr \<Rightarrow> nat option" where
  "strstr_loop [] needle = None"
| "strstr_loop (h # hs) needle =
     (if starts_with (h # hs) needle then Some 0 else map_option Suc (strstr_loop hs needle))"

definition strstr :: "cstr \<Rightarrow> cstr \<Rightarrow> nat option" where
  "strstr haystack needle = (if needle = [] then Some 0 else strstr_loop haystack needle)"

section \<open>Numbers\<close>

definition digits36 :: string where
  "digits36 = ''0123456789abcdefghijklmnopqrstuvwxyz''"

text \<open>The do-while loop that emits the digits, least significant first.\<close>

function emit_digits :: "string \<Rightarrow> nat \<Rightarrow> nat \<Rightarrow> string" where
  "emit_digits ds base v =
     ds ! (v mod base) #
       (if v div base = 0 \<or> base < 2 then [] else emit_digits ds base (v div base))"
  by pat_completeness auto
termination
  by (relation "measure (\<lambda>(ds, base, v). v)") (auto simp: div_eq_0_iff)

declare emit_digits.simps [simp del]

text \<open>The reversal in place: two pointers that swap and meet.\<close>

function reverse_swap :: "'b list \<Rightarrow> nat \<Rightarrow> nat \<Rightarrow> 'b list" where
  "reverse_swap xs i j =
     (if i < j then reverse_swap (xs[j := xs ! i, i := xs ! j]) (Suc i) (j - 1) else xs)"
  by pat_completeness auto
termination
  by (relation "measure (\<lambda>(xs, i, j). j - i)") auto

declare reverse_swap.simps [simp del]

text \<open>
  The string \<^verbatim>\<open>itoa\<close> stores. The 32-bit value is negated as an unsigned word when it is
  negative and the base is ten.
\<close>

definition itoa :: "u32 \<Rightarrow> int \<Rightarrow> string" where
  "itoa value base =
     (if base < 2 \<or> base > 36 then []
      else
        let sign = (sint value < 0 \<and> base = 10);
            uvalue = (if sign then - value else value);
            out = emit_digits digits36 (nat base) (unat uvalue) @ (if sign then ''-'' else [])
        in reverse_swap out 0 (length out - 1))"

definition utoa_digit :: "nat \<Rightarrow> char" where
  "utoa_digit digit =
     (if digit < 10 then char_of (of_char CHR ''0'' + digit)
      else char_of (of_char CHR ''a'' + (digit - 10)))"

function utoa_loop :: "nat \<Rightarrow> nat \<Rightarrow> string" where
  "utoa_loop base v =
     utoa_digit (v - v div base * base) #
       (if v div base = 0 \<or> base < 2 then [] else utoa_loop base (v div base))"
  by pat_completeness auto
termination
  by (relation "measure (\<lambda>(base, v). v)") (auto simp: div_eq_0_iff)

declare utoa_loop.simps [simp del]

definition utoa :: "u32 \<Rightarrow> int \<Rightarrow> string" where
  "utoa value base =
     (if base < 2 \<or> base > 36 then []
      else let out = utoa_loop (nat base) (unat value) in reverse_swap out 0 (length out - 1))"

text \<open>\<open>None\<close> is a signed overflow, which C leaves undefined.\<close>

definition fits_int :: "int \<Rightarrow> bool" where
  "fits_int v = (- (2 ^ 31) \<le> v \<and> v < 2 ^ 31)"

fun atoi_skip :: "cstr \<Rightarrow> cstr" where
  "atoi_skip [] = []"
| "atoi_skip (c # s) =
     (if c = CHR '' '' \<or> c = CHR 0x09 \<or> c = CHR 0x0A \<or> c = CHR 0x0D then atoi_skip s else c # s)"

fun atoi_loop :: "cstr \<Rightarrow> int \<Rightarrow> int option" where
  "atoi_loop [] value = Some value"
| "atoi_loop (c # s) value =
     (if is_digit c then
        let v = value * 10 + (byte_of c - byte_of CHR ''0'')
        in if fits_int v then atoi_loop s v else None
      else Some value)"

definition atoi :: "cstr option \<Rightarrow> int option" where
  "atoi str =
     (case str of None \<Rightarrow> Some 0
      | Some s0 \<Rightarrow>
          let s = atoi_skip s0;
              (sgn, t) = (if chr_at s = CHR ''-'' then (-1, tl s)
                          else if chr_at s = CHR ''+'' then (1, tl s) else (1, s))
          in map_option (\<lambda>v. v * sgn) (atoi_loop t 0))"

section \<open>Formatted output\<close>

text \<open>
  The variable arguments as they are passed: a string pointer (or null) or an integer in a
  64-bit slot, of which a narrower type is the low part. A missing or mistyped argument is
  undefined in C and \<open>None\<close> here.
\<close>

datatype va_arg = VStr "cstr option" | VInt u64

definition digits16 :: "bool \<Rightarrow> string" where
  "digits16 upper = (if upper then ''0123456789ABCDEF'' else ''0123456789abcdef'')"

definition ulltoa_pad :: "u64 \<Rightarrow> nat \<Rightarrow> bool \<Rightarrow> nat \<Rightarrow> bool \<Rightarrow> string" where
  "ulltoa_pad v base upper width zero_pad =
     (let tmp = emit_digits (digits16 upper) base (unat v);
          len = length tmp;
          pad = (if width > len then width - len else 0)
      in replicate pad (if zero_pad then CHR ''0'' else CHR '' '') @ rev tmp)"

definition lltoa_dec :: "u64 \<Rightarrow> string" where
  "lltoa_dec v =
     (if sint v < 0 then CHR ''-'' # ulltoa_pad (- (v + 1) + 1) 10 False 0 False
      else ulltoa_pad v 10 False 0 False)"

fun parse_lmod :: "cstr \<Rightarrow> nat \<times> cstr" where
  "parse_lmod [] = (0, [])"
| "parse_lmod (c # s) =
     (if c = CHR ''l'' then
        (if chr_at s = CHR ''l'' then (2, tl s) else (1, s))
      else (0, c # s))"

fun parse_zero :: "cstr \<Rightarrow> bool \<times> cstr" where
  "parse_zero [] = (False, [])"
| "parse_zero (c # s) = (if c = CHR ''0'' then (True, s) else (False, c # s))"

fun parse_width :: "nat \<Rightarrow> cstr \<Rightarrow> nat \<times> cstr" where
  "parse_width w [] = (w, [])"
| "parse_width w (c # s) =
     (if is_digit c then parse_width (w * 10 + nat (byte_of c - byte_of CHR ''0'')) s
      else (w, c # s))"

text \<open>The local buffers of the conversions have 64 bytes: a padded number of 64 or more
  characters is written past them.\<close>

definition in_buf64 :: "string \<Rightarrow> string option" where
  "in_buf64 s = (if length s < 64 then Some s else None)"

definition int_arg :: "nat \<Rightarrow> u64 \<Rightarrow> u64" where
  "int_arg lm v = (if lm = 0 then ucast (ucast v :: u32) else v)"

definition convert_arg ::
  "char \<Rightarrow> nat \<Rightarrow> bool \<Rightarrow> nat \<Rightarrow> va_arg list \<Rightarrow> (string \<times> va_arg list) option" where
  "convert_arg k lm zp w args =
     (if k = CHR ''s'' then
        (case args of VStr s # r \<Rightarrow> Some (case s of None \<Rightarrow> ''(null)'' | Some t \<Rightarrow> t, r) | _ \<Rightarrow> None)
      else if k = CHR ''d'' \<or> k = CHR ''i'' then
        (case args of VInt v # r \<Rightarrow>
           Some (if lm = 0 then itoa (ucast v) 10 else lltoa_dec v, r) | _ \<Rightarrow> None)
      else if k = CHR ''u'' then
        (case args of VInt v # r \<Rightarrow>
           map_option (\<lambda>t. (t, r)) (in_buf64 (ulltoa_pad (int_arg lm v) 10 False w zp)) | _ \<Rightarrow> None)
      else if k = CHR ''x'' \<or> k = CHR ''X'' then
        (case args of VInt v # r \<Rightarrow>
           map_option (\<lambda>t. (t, r))
             (in_buf64 (ulltoa_pad (int_arg lm v) 16 (k = CHR ''X'') w zp)) | _ \<Rightarrow> None)
      else if k = CHR ''c'' then
        (case args of VInt v # r \<Rightarrow> Some ([char_of (unat v)], r) | _ \<Rightarrow> None)
      else if k = CHR ''%'' then Some (''%'', args)
      else Some ([CHR ''%'', k], args))"

record fmt_out =
  fo_out :: string
  fo_written :: nat
  fo_remaining :: nat

fun put :: "cstr \<Rightarrow> fmt_out \<Rightarrow> fmt_out" where
  "put [] st = st"
| "put (c # s) st =
     (if fo_remaining st > 0 then
        put s (st\<lparr>fo_out := fo_out st @ [c], fo_written := fo_written st + 1,
                 fo_remaining := fo_remaining st - 1\<rparr>)
      else st)"

lemma parse_lmod_length: "parse_lmod s = (m, t) \<Longrightarrow> length t \<le> length s"
  by (cases s) (auto split: if_splits)

lemma parse_zero_length: "parse_zero s = (m, t) \<Longrightarrow> length t \<le> length s"
  by (cases s) (auto split: if_splits)

lemma parse_width_length: "parse_width w s = (m, t) \<Longrightarrow> length t \<le> length s"
  by (induction w s rule: parse_width.induct) (auto split: if_splits)

text \<open>One conversion specification after its percent sign: the text it produces, the
  arguments and the format that are left. A format that ends inside a specification makes
  the code step over the terminator, so it has no result.\<close>

definition conversion ::
  "cstr \<Rightarrow> va_arg list \<Rightarrow> (string \<times> va_arg list \<times> cstr) option" where
  "conversion p args =
     (let (lm, p1) = parse_lmod p; (zp, p2) = parse_zero p1; (w, p3) = parse_width 0 p2
      in case p3 of
           [] \<Rightarrow> None
         | k # p4 \<Rightarrow> map_option (\<lambda>(tx, r). (tx, r, p4)) (convert_arg k lm zp w args))"

lemma conversion_length:
  assumes "conversion p args = Some (tx, r, q)"
  shows "length q < length p"
proof -
  obtain lm p1 where 1: "parse_lmod p = (lm, p1)" by fastforce
  obtain zp p2 where 2: "parse_zero p1 = (zp, p2)" by fastforce
  obtain w p3 where 3: "parse_width 0 p2 = (w, p3)" by fastforce
  from assms 1 2 3 obtain k where "p3 = k # q"
    by (auto simp: conversion_def split: list.splits)
  with parse_lmod_length [OF 1] parse_zero_length [OF 2] parse_width_length [OF 3]
  show ?thesis by simp
qed

function snprintf_loop :: "cstr \<Rightarrow> va_arg list \<Rightarrow> fmt_out \<Rightarrow> fmt_out option" where
  "snprintf_loop [] args st = Some st"
| "snprintf_loop (c # p) args st =
     (if fo_remaining st = 0 then Some st
      else if c = CHR ''%'' then
        (case conversion p args of
           None \<Rightarrow> None
         | Some (tx, r, q) \<Rightarrow> snprintf_loop q r (put tx st))
      else snprintf_loop p args (put [c] st))"
  by pat_completeness auto
termination
  by (relation "measure (\<lambda>(p, args, st). length p)") (auto dest: conversion_length)

text \<open>
  The characters stored before the terminator (\<open>None\<close>: nothing is stored) and the value
  returned. \<open>str\<close> says whether the destination pointer is not null.
\<close>

definition snprintf ::
  "bool \<Rightarrow> nat \<Rightarrow> cstr option \<Rightarrow> va_arg list \<Rightarrow> (string option \<times> nat) option" where
  "snprintf str sz format args =
     (case format of
        None \<Rightarrow> Some (None, 0)
      | Some f \<Rightarrow>
          if \<not> str \<or> sz = 0 then Some (None, 0)
          else map_option (\<lambda>st. (Some (fo_out st), fo_written st))
                 (snprintf_loop f args \<lparr>fo_out = [], fo_written = 0, fo_remaining = sz - 1\<rparr>))"

text \<open>\<^verbatim>\<open>str_append\<close>: the allocator is a parameter that gives the fresh object of the size
  asked for, or null; the outer \<open>None\<close> is a write past that object.\<close>

fun strcat_all :: "char list \<Rightarrow> cstr list \<Rightarrow> char list option" where
  "strcat_all buf [] = Some buf"
| "strcat_all buf (s # ss) = Option.bind (strcat buf s) (\<lambda>b. strcat_all b ss)"

definition str_append ::
  "(nat \<Rightarrow> char list option) \<Rightarrow> cstr list \<Rightarrow> char list option option" where
  "str_append kmalloc strs =
     (let total_length = fold (\<lambda>s n. n + strlen s) strs 1
      in case kmalloc total_length of
           None \<Rightarrow> Some None
         | Some result \<Rightarrow> map_option Some (strcat_all (result[0 := NUL]) strs))"

end
