(* ===== verification/Cstring_Props.thy ===== *)
theory Cstring_Props
  imports Cstring
begin

text \<open>
  What the string library guarantees: \<^verbatim>\<open>memmove\<close> moves overlapping areas, the copying
  functions stay inside their object and hold the expected string, numbers print and parse
  back, and \<^verbatim>\<open>snprintf\<close> gives a prefix of the text it formats.
\<close>

section \<open>Moving memory\<close>

lemma rep_movsb_up_eq:
  assumes "d < s" and "s + n \<le> length m"
  shows "rep_movsb_up d s n m = (d + n, take d m @ take n (drop s m) @ drop (d + n) m)"
  using assms
proof (induction n arbitrary: d s m)
  case 0
  then show ?case by simp
next
  case (Suc n)
  let ?m = "m[d := m ! s]"
  have "rep_movsb_up (Suc d) (Suc s) n ?m =
      (Suc d + n, take (Suc d) ?m @ take n (drop (Suc s) ?m) @ drop (Suc d + n) ?m)"
    using Suc.prems by (intro Suc.IH) auto
  moreover have "take (Suc d) ?m = take d m @ [m ! s]"
    using Suc.prems by (simp add: take_Suc_conv_app_nth)
  moreover have "take (Suc n) (drop s m) = m ! s # take n (drop (Suc s) m)"
    using Suc.prems by (simp add: Cons_nth_drop_Suc [symmetric])
  ultimately show ?case
    using Suc.prems by simp
qed

lemma rep_movsb_down_eq:
  assumes "s < d" and "d + n \<le> length m"
  shows "rep_movsb_down (int d + int n - 1) (int s + int n - 1) n m
    = take d m @ take n (drop s m) @ drop (d + n) m"
  using assms
proof (induction n arbitrary: m)
  case 0
  then show ?case by simp
next
  case (Suc n)
  let ?m = "m[d + n := m ! (s + n)]"
  have "rep_movsb_down (int d + int n - 1) (int s + int n - 1) n ?m
      = take d ?m @ take n (drop s ?m) @ drop (d + n) ?m"
    using Suc.prems by (intro Suc.IH) auto
  moreover have "take n (drop s ?m) = take n (drop s m)"
    using Suc.prems by (intro nth_equalityI) auto
  moreover have "drop (d + n) ?m = m ! (s + n) # drop (Suc (d + n)) m"
    using Suc.prems by (simp add: Cons_nth_drop_Suc [symmetric])
  moreover have "take (Suc n) (drop s m) = take n (drop s m) @ [m ! (s + n)]"
    using Suc.prems by (simp add: take_Suc_conv_app_nth)
  moreover have "rep_movsb_down (int d + int (Suc n) - 1) (int s + int (Suc n) - 1) (Suc n) m
      = rep_movsb_down (int d + int n - 1) (int s + int n - 1) n ?m"
    by (simp add: nat_int_add)
  ultimately show ?case
    using Suc.prems by simp
qed

lemma memmove_moves:
  assumes "dest + n \<le> length m" and "src + n \<le> length m"
  shows "snd (memmove dest src n m) = take dest m @ take n (drop src m) @ drop (dest + n) m"
proof -
  consider "dest = src \<or> n = 0" | "dest < src" "n \<noteq> 0" | "src < dest" "n \<noteq> 0" by linarith
  then show ?thesis
  proof cases
    case 1
    then show ?thesis
      by (auto simp: memmove_def) (metis append_take_drop_id drop_drop add.commute)
  next
    case 2
    with assms show ?thesis by (simp add: memmove_def rep_movsb_up_eq)
  next
    case 3
    with assms show ?thesis by (simp add: memmove_def rep_movsb_down_eq)
  qed
qed

lemma memmove_pointer:
  assumes "src + n \<le> length m"
  shows "fst (memmove dest src n m) = (if dest < src \<and> n \<noteq> 0 then dest + n else dest)"
  using assms by (auto simp: memmove_def rep_movsb_up_eq)

section \<open>Comparison\<close>

lemma strlen_length [simp]: "strlen s = length s"
  by (induction s) auto

lemma chr_at_eq_NUL: "NUL \<notin> set s \<Longrightarrow> chr_at s = NUL \<longleftrightarrow> s = []"
  by (cases s) auto

lemma strcmp_eq_0: "NUL \<notin> set s1 \<Longrightarrow> NUL \<notin> set s2 \<Longrightarrow> strcmp s1 s2 = 0 \<longleftrightarrow> s1 = s2"
  by (induction s1 s2 rule: strcmp.induct) (auto simp: chr_at_eq_NUL)

lemma strncmp_loop_equal_prefix:
  assumes "n \<le> length s1" "n \<le> length s2" "take n s1 = take n s2" "n < 2 ^ 64"
  shows "strncmp_loop s1 s2 (of_nat n) = (drop n s1, drop n s2, - 1)"
  using assms
proof (induction n arbitrary: s1 s2)
  case 0
  then show ?case by (cases s1; cases s2) auto
next
  case (Suc n)
  obtain c t1 where s1: "s1 = c # t1" using Suc.prems by (cases s1) auto
  with Suc.prems obtain t2 where s2: "s2 = c # t2" by (cases s2) auto
  have nz: "(of_nat (Suc n) :: u64) \<noteq> 0"
    using Suc.prems(4) by (intro of_nat_word_neq_0) auto
  have "strncmp_loop t1 t2 (of_nat n) = (drop n t1, drop n t2, - 1)"
    using Suc.prems s1 s2 by (intro Suc.IH) auto
  with nz s1 s2 show ?case by simp
qed

lemma strncmp_equal_prefix:
  assumes "n \<le> length s1" "n \<le> length s2" "take n s1 = take n s2" "n < 2 ^ 64"
  shows "strncmp s1 s2 (of_nat n) = byte_of (chr_at (drop n s1)) - byte_of (chr_at (drop n s2))"
  using strncmp_loop_equal_prefix [OF assms] by (simp add: strncmp_def)

lemma strncmp_loop_last_differs:
  assumes "n < length s1" "n < length s2" "take n s1 = take n s2" "s1 ! n \<noteq> s2 ! n"
    and "Suc n < 2 ^ 64"
  shows "strncmp_loop s1 s2 (of_nat (Suc n)) = (drop n s1, drop n s2, 0)"
  using assms
proof (induction n arbitrary: s1 s2)
  case 0
  then show ?case by (cases s1; cases s2) auto
next
  case (Suc n)
  obtain c t1 where s1: "s1 = c # t1" using Suc.prems by (cases s1) auto
  with Suc.prems obtain t2 where s2: "s2 = c # t2" by (cases s2) auto
  have nz: "(of_nat (Suc (Suc n)) :: u64) \<noteq> 0"
    using Suc.prems(5) by (intro of_nat_word_neq_0) auto
  have "strncmp_loop t1 t2 (of_nat (Suc n)) = (drop n t1, drop n t2, 0)"
    using Suc.prems s1 s2 by (intro Suc.IH) auto
  moreover have "(of_nat (Suc (Suc n)) :: u64) - 1 = of_nat (Suc n)" by simp
  ultimately show ?case using nz s1 s2 by simp
qed

lemma strncmp_last_differs:
  assumes "n < length s1" "n < length s2" "take n s1 = take n s2" "s1 ! n \<noteq> s2 ! n"
    and "Suc n < 2 ^ 64"
  shows "strncmp s1 s2 (of_nat (Suc n)) = 0"
  using strncmp_loop_last_differs [OF assms] by (simp add: strncmp_def)

section \<open>Copying and concatenation\<close>

lemma strcpy_eq:
  "strcpy d s = (if length s < length d then Some (s @ NUL # drop (Suc (length s)) d) else None)"
  by (induction d s rule: strcpy.induct) auto

lemma strcat_eq:
  "NUL \<notin> set a \<Longrightarrow> strcat (a @ NUL # d) s =
    (if length s \<le> length d then Some (a @ s @ NUL # drop (length s) d) else None)"
  by (induction a) (auto simp: strcpy_eq less_Suc_eq_le)

lemma append_upto_eq:
  "append_upto d s n = (let t = take n s in
     if length t < length d then Some (t @ NUL # drop (Suc (length t)) d) else None)"
  by (induction d s n rule: append_upto.induct) (auto simp: Let_def)

lemma strncat_eq:
  "NUL \<notin> set a \<Longrightarrow> strncat (a @ NUL # d) s n = (let t = take n s in
     if length t \<le> length d then Some (a @ t @ NUL # drop (length t) d) else None)"
  by (induction a) (auto simp: append_upto_eq Let_def less_Suc_eq_le)

lemma strncpy_eq:
  "n \<le> length d \<Longrightarrow> strncpy d s n =
    Some (take n s @ replicate (n - length s) NUL @ drop n d)"
  by (induction d s n rule: strncpy.induct) auto

lemma cstr_of_append_NUL: "NUL \<notin> set a \<Longrightarrow> cstr_of (a @ NUL # d) = a"
  by (simp add: cstr_of_def takeWhile_append)

lemma copy_chars_eq:
  "n \<le> length s \<Longrightarrow> n < length d \<Longrightarrow>
    copy_chars n d s = Some (take n s @ NUL # drop (Suc n) d)"
  by (induction n d s rule: copy_chars.induct) auto

lemma strlcpy_bounded:
  assumes "0 < sz" "sz \<le> length dest" "NUL \<notin> set src"
  shows "\<exists>buf. strlcpy dest src sz = Some (length src, buf) \<and> length buf = length dest \<and>
    cstr_of buf = take (sz - 1) src"
proof -
  let ?k = "min (length src) (sz - 1)"
  have "copy_chars ?k dest src = Some (take ?k src @ NUL # drop (Suc ?k) dest)"
    using assms by (intro copy_chars_eq) auto
  moreover have "NUL \<notin> set (take ?k src)"
    using assms(3) by (meson in_set_takeD)
  ultimately show ?thesis
    using assms
    by (auto simp: strlcpy_def Let_def cstr_of_append_NUL min_def not_less split: if_splits)
qed

section \<open>Numbers\<close>

lemma reverse_swap_nth:
  "j < length xs \<Longrightarrow> length (reverse_swap xs i j) = length xs \<and>
    (\<forall>k < length xs. reverse_swap xs i j ! k = (if i \<le> k \<and> k \<le> j then xs ! (i + j - k) else xs ! k))"
proof (induction xs i j rule: reverse_swap.induct)
  case (1 xs i j)
  show ?case
  proof (cases "i < j")
    case False
    then have "i \<le> k \<Longrightarrow> k \<le> j \<Longrightarrow> i + j - k = k" for k by auto
    with False show ?thesis by (subst (1 2) reverse_swap.simps) auto
  next
    case True
    let ?ys = "xs[j := xs ! i, i := xs ! j]"
    have IH: "length (reverse_swap ?ys (Suc i) (j - 1)) = length xs \<and>
      (\<forall>k < length xs. reverse_swap ?ys (Suc i) (j - 1) ! k =
        (if Suc i \<le> k \<and> k \<le> j - 1 then ?ys ! (Suc i + (j - 1) - k) else ?ys ! k))"
      using "1.IH" [OF True] "1.prems" True by simp
    have "reverse_swap xs i j = reverse_swap ?ys (Suc i) (j - 1)"
      using True by (simp add: reverse_swap.simps [of xs])
    with IH True "1.prems" show ?thesis
      by (auto simp: nth_list_update)
  qed
qed

lemma reverse_swap_rev: "reverse_swap xs 0 (length xs - 1) = rev xs"
proof (cases "xs = []")
  case True
  then show ?thesis by (simp add: reverse_swap.simps)
next
  case False
  then have "length xs - 1 < length xs" by simp
  from reverse_swap_nth [OF this, of 0] show ?thesis
    by (intro nth_equalityI) (auto simp: rev_nth)
qed

lemma emit_digits_nonempty [simp]: "emit_digits ds b v \<noteq> []"
  by (subst emit_digits.simps) simp

lemma decimal_digit:
  assumes "d < 10"
  shows "byte_of (digits36 ! d) = 48 + int d"
proof -
  from assms have "d \<in> {0, 1, 2, 3, 4, 5, 6, 7, 8, 9}" by auto
  then show ?thesis by (auto simp: digits36_def byte_of_def)
qed

lemma is_digit_iff: "is_digit c \<longleftrightarrow> 48 \<le> byte_of c \<and> byte_of c \<le> 57"
  by (simp add: is_digit_def byte_of_def)

lemma emit_digits_decimal: "\<forall>c \<in> set (emit_digits digits36 10 v). is_digit c"
proof (induction v rule: less_induct)
  case (less v)
  have "is_digit (digits36 ! (v mod 10))"
    by (simp add: is_digit_iff decimal_digit)
  moreover have "\<forall>c \<in> set (emit_digits digits36 10 (v div 10)). is_digit c" if "v div 10 \<noteq> 0"
    using less [of "v div 10"] that by auto
  ultimately show ?case
    by (subst emit_digits.simps) auto
qed

lemma atoi_loop_append:
  "\<forall>c \<in> set xs. is_digit c \<Longrightarrow>
    atoi_loop (xs @ ys) acc = Option.bind (atoi_loop xs acc) (\<lambda>v. atoi_loop ys v)"
  by (induction xs arbitrary: acc) (auto simp: Let_def)

lemma atoi_loop_digits:
  assumes "v < 2 ^ 31"
  shows "atoi_loop (rev (emit_digits digits36 10 v)) 0 = Some (int v)"
  using assms
proof (induction v rule: less_induct)
  case (less v)
  have dig: "is_digit (digits36 ! (v mod 10))"
    by (simp add: is_digit_iff decimal_digit)
  have val: "byte_of (digits36 ! (v mod 10)) - byte_of CHR ''0'' = int (v mod 10)"
    by (simp add: decimal_digit) (simp add: byte_of_def)
  show ?case
  proof (cases "v div 10 = 0")
    case True
    then have "emit_digits digits36 10 v = [digits36 ! (v mod 10)]"
      by (subst emit_digits.simps) simp
    moreover from True have "v mod 10 = v" by (simp add: div_eq_0_iff)
    ultimately show ?thesis using dig val less.prems
      by (simp add: Let_def fits_int_def)
  next
    case False
    have "atoi_loop (rev (emit_digits digits36 10 (v div 10))) 0 = Some (int (v div 10))"
      using False less.prems by (intro less.IH) auto
    moreover have "emit_digits digits36 10 v =
        digits36 ! (v mod 10) # emit_digits digits36 10 (v div 10)"
      using False by (subst emit_digits.simps) simp
    moreover have "int (v div 10) * 10 + int (v mod 10) = int v"
      by (metis div_mult_mod_eq of_nat_add of_nat_mult of_nat_numeral)
    ultimately show ?thesis
      using dig val less.prems emit_digits_decimal [of "v div 10"]
      by (simp add: atoi_loop_append Let_def fits_int_def)
  qed
qed

lemma atoi_unsigned_digits:
  assumes "\<forall>c \<in> set ds. is_digit c" and "ds \<noteq> []"
  shows "atoi_skip (ds @ r) = ds @ r" and "chr_at (ds @ r) \<noteq> CHR ''-''"
    and "chr_at (ds @ r) \<noteq> CHR ''+''"
proof -
  obtain c t where ds: "ds = c # t" using assms(2) by (cases ds) auto
  with assms(1) have "48 \<le> byte_of c" by (simp add: is_digit_iff)
  with ds show "atoi_skip (ds @ r) = ds @ r" and "chr_at (ds @ r) \<noteq> CHR ''-''"
    and "chr_at (ds @ r) \<noteq> CHR ''+''"
    by (auto simp: byte_of_def)
qed

lemma sint_32: "sint (v::u32) = (if unat v < 2 ^ 31 then int (unat v) else int (unat v) - 2 ^ 32)"
proof -
  have range: "0 \<le> uint v" "uint v < 2 ^ 32"
    using uint_range_size [of v] by (simp_all add: word_size)
  have "sint v = signed_take_bit 31 (uint v)"
    by (simp add: sint_uint)
  also have "\<dots> = (uint v + 2 ^ 31) mod 2 ^ 32 - 2 ^ 31"
    by (simp add: signed_take_bit_eq_take_bit_shift take_bit_eq_mod)
  finally have s: "sint v = (uint v + 2 ^ 31) mod 2 ^ 32 - 2 ^ 31" .
  have u: "int (unat v) = uint v" by simp
  have iff: "unat v < 2 ^ 31 \<longleftrightarrow> uint v < 2 ^ 31"
    by (simp only: u [symmetric] of_nat_less_iff [symmetric, where 'a = int]
        of_nat_power of_nat_numeral)
  show ?thesis
  proof (cases "uint v < 2 ^ 31")
    case True
    then have "(uint v + 2 ^ 31) mod 2 ^ 32 = uint v + 2 ^ 31"
      using range by (intro mod_pos_pos_trivial) simp_all
    with s have "sint v = uint v" by linarith
    with True show ?thesis by (simp only: iff u if_True)
  next
    case False
    have "(uint v + 2 ^ 31) mod 2 ^ 32 = (uint v + 2 ^ 31 - 2 ^ 32) mod 2 ^ 32"
      by (simp only: minus_mod_self2)
    also have "\<dots> = uint v + 2 ^ 31 - 2 ^ 32"
      using False range by (intro mod_pos_pos_trivial) simp_all
    finally have "sint v = uint v - 2 ^ 32" using s by linarith
    with False show ?thesis by (simp only: iff u if_False)
  qed
qed

lemma unat_neg_32:
  assumes "v \<noteq> 0"
  shows "int (unat (- v :: u32)) = 2 ^ 32 - int (unat v)"
proof -
  have range: "0 < uint v" "uint v < 2 ^ 32"
    using uint_range_size [of v] assms
    by (simp_all add: word_size uint_0_iff order_less_le)
  have "uint (- v) = (- uint v) mod 2 ^ 32"
    by (simp add: uint_word_ariths)
  also have "\<dots> = (- uint v + 2 ^ 32) mod 2 ^ 32"
    by (simp only: mod_add_self2)
  also have "\<dots> = - uint v + 2 ^ 32"
    using range by (intro mod_pos_pos_trivial) simp_all
  finally show ?thesis by simp
qed

lemma itoa_decimal:
  "itoa v 10 = (if sint v < 0 then CHR ''-'' # rev (emit_digits digits36 10 (nat (- sint v)))
    else rev (emit_digits digits36 10 (nat (sint v))))"
proof (cases "sint v < 0")
  case True
  then have "v \<noteq> 0" by auto
  from unat_neg_32 [OF this] True have "int (unat (- v)) = - sint v"
    by (simp add: sint_32 split: if_splits)
  then have "unat (- v) = nat (- sint v)" by linarith
  with True reverse_swap_rev [of "emit_digits digits36 10 (nat (- sint v)) @ ''-''"] show ?thesis
    by (simp add: itoa_def Let_def)
next
  case False
  then have "unat v < 2 ^ 31"
    using uint_range_size [of v] by (simp add: sint_32 word_size split: if_splits)
  then have "unat v = nat (sint v)"
    by (simp add: sint_32)
  with False reverse_swap_rev [of "emit_digits digits36 10 (nat (sint v))"] show ?thesis
    by (simp add: itoa_def Let_def)
qed

lemma atoi_itoa:
  assumes "sint v \<noteq> - (2 ^ 31)"
  shows "atoi (Some (itoa v 10)) = Some (sint v)"
proof -
  have bound: "- (2 ^ 31) \<le> sint v" "sint v < 2 ^ 31"
    using sint_range_size [of v] by (simp_all add: word_size)
  show ?thesis
  proof (cases "sint v < 0")
    case True
    have "nat (- sint v) < 2 ^ 31" using assms bound by (simp add: nat_less_iff)
    from atoi_loop_digits [OF this] True show ?thesis
      by (simp add: itoa_decimal atoi_def Let_def)
  next
    case False
    let ?ds = "rev (emit_digits digits36 10 (nat (sint v)))"
    have d: "\<forall>c \<in> set ?ds. is_digit c" "?ds \<noteq> []"
      using emit_digits_decimal by auto
    have "nat (sint v) < 2 ^ 31" using bound by (simp add: nat_less_iff)
    from atoi_loop_digits [OF this] False atoi_unsigned_digits [OF d, of "[]"] show ?thesis
      by (simp add: itoa_decimal atoi_def Let_def)
  qed
qed

section \<open>Formatted output\<close>

lemma put_eq:
  "put s st = st\<lparr>fo_out := fo_out st @ take (fo_remaining st) s,
     fo_written := fo_written st + min (fo_remaining st) (length s),
     fo_remaining := fo_remaining st - length s\<rparr>"
  by (induction s st rule: put.induct) (auto simp: take_Cons' min_def)

lemma put_full: "fo_remaining st = 0 \<Longrightarrow> put s st = st"
  by (cases s) auto

lemma put_append: "put (a @ b) st = put b (put a st)"
  by (induction a st rule: put.induct) (auto simp: put_full)

text \<open>The whole text a format describes, with no bound.\<close>

function format_text :: "cstr \<Rightarrow> va_arg list \<Rightarrow> string option" where
  "format_text [] args = Some []"
| "format_text (c # p) args =
     (if c = CHR ''%'' then
        (case conversion p args of
           None \<Rightarrow> None
         | Some (tx, r, q) \<Rightarrow> map_option (append tx) (format_text q r))
      else map_option (Cons c) (format_text p args))"
  by pat_completeness auto
termination
  by (relation "measure (\<lambda>(p, args). length p)") (auto dest: conversion_length)

lemma snprintf_loop_format:
  "format_text p args = Some full \<Longrightarrow> snprintf_loop p args st = Some (put full st)"
proof (induction p args arbitrary: full st rule: format_text.induct)
  case (1 args)
  then show ?case by simp
next
  case (2 c p args)
  show ?case
  proof (cases "fo_remaining st = 0")
    case True
    then show ?thesis by (simp add: put_full)
  next
    case False
    show ?thesis
    proof (cases "c = CHR ''%''")
      case True
      with "2.prems" obtain tx r q rest where conv: "conversion p args = Some (tx, r, q)"
        and rest: "format_text q r = Some rest" and full: "full = tx @ rest"
        by (auto split: option.splits)
      from "2.IH"(1) [OF True conv] rest have "snprintf_loop q r (put tx st) = Some (put rest (put tx st))"
        by simp
      with False True conv full show ?thesis by (simp add: put_append)
    next
      case noconv: False
      with "2.prems" obtain rest where rest: "format_text p args = Some rest" and full: "full = c # rest"
        by auto
      from "2.IH"(2) [OF noconv rest] False noconv full show ?thesis
        by (simp add: put_append [of "[c]" rest, simplified])
    qed
  qed
qed

definition fmt_balanced :: "nat \<Rightarrow> fmt_out \<Rightarrow> bool" where
  "fmt_balanced k st \<longleftrightarrow>
     fo_written st = length (fo_out st) \<and> length (fo_out st) + fo_remaining st = k"

lemma fmt_balanced_put: "fmt_balanced k st \<Longrightarrow> fmt_balanced k (put s st)"
  by (auto simp: fmt_balanced_def put_eq min_def)

lemma snprintf_loop_balanced:
  "snprintf_loop p args st = Some st' \<Longrightarrow> fmt_balanced k st \<Longrightarrow> fmt_balanced k st'"
proof (induction p args st rule: snprintf_loop.induct)
  case (1 args st)
  then show ?case by simp
next
  case (2 c p args st)
  consider "fo_remaining st = 0" | "fo_remaining st \<noteq> 0" "c = CHR ''%''"
    | "fo_remaining st \<noteq> 0" "c \<noteq> CHR ''%''" by blast
  then show ?case
  proof cases
    case 1
    with "2.prems" show ?thesis by simp
  next
    case cv: 2
    with "2.prems"(1) obtain tx r q where "conversion p args = Some (tx, r, q)"
      and "snprintf_loop q r (put tx st) = Some st'"
      by (auto split: option.splits)
    with "2.IH"(1) cv "2.prems"(2) show ?thesis by (blast intro: fmt_balanced_put)
  next
    case 3
    with "2.prems"(1) have "snprintf_loop p args (put [c] st) = Some st'"
      by (simp del: put.simps)
    with "2.IH"(2) 3 "2.prems"(2) show ?thesis by (blast intro: fmt_balanced_put)
  qed
qed

lemma snprintf_truncates:
  assumes "format_text f args = Some full" and "0 < sz"
  shows "snprintf True sz (Some f) args = Some (Some (take (sz - 1) full), min (sz - 1) (length full))"
  using snprintf_loop_format [OF assms(1)] assms(2) by (simp add: snprintf_def put_eq)

lemma snprintf_bounded:
  assumes "snprintf str sz format args = Some (Some out, n)"
  shows "length out < sz \<and> n = length out"
proof -
  from assms obtain f st where "0 < sz"
    and "snprintf_loop f args \<lparr>fo_out = [], fo_written = 0, fo_remaining = sz - 1\<rparr> = Some st"
    and "out = fo_out st" "n = fo_written st"
    by (auto simp: snprintf_def split: option.splits if_splits)
  with snprintf_loop_balanced [of f args _ st "sz - 1"] show ?thesis
    by (fastforce simp: fmt_balanced_def)
qed

section \<open>Joining strings\<close>

lemma strcat_all_concat:
  assumes "NUL \<notin> set a" "\<forall>s \<in> set strs. NUL \<notin> set s" "length (concat strs) \<le> length d"
  shows "strcat_all (a @ NUL # d) strs
    = Some (a @ concat strs @ NUL # drop (length (concat strs)) d)"
  using assms
proof (induction strs arbitrary: a d)
  case Nil
  then show ?case by simp
next
  case (Cons s strs)
  have "strcat_all ((a @ s) @ NUL # drop (length s) d) strs
      = Some ((a @ s) @ concat strs @ NUL # drop (length (concat strs)) (drop (length s) d))"
    using Cons.prems by (intro Cons.IH) auto
  with Cons.prems show ?case
    by (simp add: strcat_eq add.commute)
qed

lemma fold_strlen: "fold (\<lambda>s n. n + strlen s) strs k = k + length (concat strs)"
  by (induction strs arbitrary: k) auto

lemma str_append_concat:
  assumes "\<forall>s \<in> set strs. NUL \<notin> set s"
    and "kmalloc (Suc (length (concat strs))) = Some buf" and "length buf = Suc (length (concat strs))"
  shows "str_append kmalloc strs = Some (Some (concat strs @ [NUL]))"
proof -
  obtain x d where "buf = x # d" and d: "length d = length (concat strs)"
    using assms(3) by (cases buf) auto
  then have "strcat_all (buf[0 := NUL]) strs = Some (concat strs @ [NUL])"
    using strcat_all_concat [of "[]" strs d] assms(1) by simp
  with assms show ?thesis
    by (simp add: str_append_def fold_strlen del: strlen_length)
qed

end
