(* ===== verification/Cstring_Correct.thy ===== *)
theory Cstring_Correct
  imports Cstring_Props
begin

text \<open>The properties of the string library.\<close>

text \<open>C22. \<^verbatim>\<open>memmove\<close> copies as if through a temporary, whatever the overlap: afterwards the
  destination holds what the source held before, and nothing else has changed. The pointer it
  returns is the destination except in the forward branch, where it is the end of the copy.\<close>

theorem memmove_correct:
  assumes "dest + n \<le> length m" and "src + n \<le> length m"
  shows "snd (memmove dest src n m) = take dest m @ take n (drop src m) @ drop (dest + n) m \<and>
    fst (memmove dest src n m) = (if dest < src \<and> n \<noteq> 0 then dest + n else dest)"
  using memmove_moves [OF assms] memmove_pointer [OF assms(2)] by simp

theorem memmove_correct_witness:
  "memmove 1 2 3 ''abcdef'' = (4, ''acdeef'') \<and> memmove 2 1 3 ''abcdef'' = (2, ''abbcdf'')"
  using memmove_correct [of 1 3 "''abcdef''" 2] memmove_correct [of 2 3 "''abcdef''" 1]
  by (simp add: prod_eq_iff numeral_eq_Suc)

text \<open>C29. \<^verbatim>\<open>atoi\<close> reads back what \<^verbatim>\<open>itoa\<close> prints in base ten, for every 32-bit value but the
  least one, whose digits \<^verbatim>\<open>atoi\<close> accumulates past the range of \<^verbatim>\<open>int\<close>.\<close>

theorem atoi_itoa_roundtrip:
  assumes "sint v \<noteq> - (2 ^ 31)"
  shows "atoi (Some (itoa v 10)) = Some (sint v)"
  by (rule atoi_itoa [OF assms])

theorem atoi_itoa_roundtrip_witness:
  "itoa (- 1203) 10 = ''-1203'' \<and> atoi (Some (itoa (- 1203) 10)) = Some (- 1203) \<and>
   atoi (Some (itoa (- 2147483648) 10)) = None"
proof -
  have "sint (- 1203 :: u32) = - 1203" by code_simp
  moreover have "itoa (- 1203) 10 = ''-1203''" "atoi (Some (itoa (- 2147483648) 10)) = None"
    by code_simp+
  ultimately show ?thesis using atoi_itoa_roundtrip [of "- 1203"] by simp
qed

text \<open>C12. \<^verbatim>\<open>snprintf\<close> stores the first \<open>size - 1\<close> characters of the text that formatting
  without a limit gives, and returns how many it stored, which is not what C99 specifies for a
  text that does not fit. What it stores with its terminator never exceeds \<open>size\<close> bytes.\<close>

theorem snprintf_is_truncated_format:
  assumes "format_text f args = Some full" and "0 < sz"
  shows "snprintf True sz (Some f) args = Some (Some (take (sz - 1) full), min (sz - 1) (length full))"
  by (rule snprintf_truncates [OF assms])

theorem snprintf_is_truncated_format_witness:
  "snprintf True 8 (Some ''pid=%d %s'') [VInt 42, VStr (Some ''init'')] = Some (Some ''pid=42 '', 7)"
proof -
  have "format_text ''pid=%d %s'' [VInt 42, VStr (Some ''init'')] = Some ''pid=42 init''" by code_simp
  then show ?thesis
    using snprintf_is_truncated_format [of "''pid=%d %s''" _ "''pid=42 init''" 8] by (simp add: numeral_eq_Suc)
qed

text \<open>Whatever the format, the arguments and the size, a call of \<^verbatim>\<open>snprintf\<close> that
  returns has stored fewer than \<open>size\<close> characters before the terminator, and returns that number.\<close>

lemma snprintf_within_size:
  assumes "snprintf str sz format args = Some (Some out, n)"
  shows "length out < sz \<and> n = length out"
  by (rule snprintf_bounded [OF assms])

lemma snprintf_within_size_example:
  "snprintf True 4 (Some ''%l08x'') [VInt 0xBEEF] = Some (Some ''000'', 3) \<and> length ''000'' < (4::nat)"
proof -
  have "snprintf True 4 (Some ''%l08x'') [VInt 0xBEEF] = Some (Some ''000'', 3)" by code_simp
  from snprintf_within_size [OF this] this show ?thesis by simp
qed

text \<open>C32. \<^verbatim>\<open>strncmp\<close> does not compare the first \<open>n\<close> characters. When they agree it returns
  the difference of the characters after them; when the first \<open>n\<close> agree and the next differ, a
  call with limit \<open>n + 1\<close> returns 0.\<close>

theorem strncmp_off_by_one:
  assumes "n < length s1" "n < length s2" "take n s1 = take n s2" "s1 ! n \<noteq> s2 ! n" "Suc n < 2 ^ 64"
  shows "strncmp s1 s2 (of_nat n) = byte_of (s1 ! n) - byte_of (s2 ! n) \<and>
    strncmp s1 s2 (of_nat n) \<noteq> 0 \<and> strncmp s1 s2 (of_nat (Suc n)) = 0"
proof -
  have "chr_at (drop n s1) = s1 ! n" "chr_at (drop n s2) = s2 ! n"
    using assms(1,2) by (simp_all flip: Cons_nth_drop_Suc)
  then show ?thesis
    using strncmp_equal_prefix [of n s1 s2] strncmp_last_differs [OF assms] assms by simp
qed

theorem strncmp_off_by_one_witness:
  "strncmp ''PATH=/bin'' ''PATH'' 4 \<noteq> 0 \<and> strncmp ''PATH1'' ''PATH2'' 4 \<noteq> 0 \<and>
   strncmp ''PATH1'' ''PATH2'' 5 = 0"
proof -
  have h: "4 < length ''PATH1''" "4 < length ''PATH2''" "take 4 ''PATH1'' = take 4 ''PATH2''"
    "''PATH1'' ! 4 \<noteq> ''PATH2'' ! 4" "Suc 4 < 2 ^ 64" by code_simp+
  have "strncmp ''PATH=/bin'' ''PATH'' 4 \<noteq> 0" by code_simp
  then show ?thesis using strncmp_off_by_one [OF h] by simp
qed

text \<open>\<^verbatim>\<open>strlcpy\<close> into a buffer of at least \<open>size > 0\<close> bytes never writes past it, stores
  the longest prefix that leaves room for the terminator, and returns the length of the source.\<close>

lemma strlcpy_correct:
  assumes "0 < sz" "sz \<le> length dest" "NUL \<notin> set src"
  shows "\<exists>buf. strlcpy dest src sz = Some (length src, buf) \<and> length buf = length dest \<and>
    cstr_of buf = take (sz - 1) src"
  by (rule strlcpy_bounded [OF assms])

lemma strlcpy_correct_example:
  "\<exists>buf. strlcpy ''........'' ''process'' 4 = Some (7, buf) \<and> cstr_of buf = ''pro''"
  using strlcpy_correct [of 4 "''........''" "''process''"] by (auto simp: numeral_eq_Suc)

end
