(* ===== verification/Phys.thy ===== *)
theory Phys
  imports Prelude
begin

text \<open>
  The physical frame allocator (\<^verbatim>\<open>src/kernel/memory/phys.c\<close>): a bitmap with one bit and
  a table with one 32-bit reference count per 4 KiB frame, over the usable regions the boot
  loader reports. Addresses and lengths are 64-bit words. Frame numbers are natural numbers:
  there are at most \<open>64 * 2 ^ 52\<close> frames, so the counters of the code do not wrap, and
  \<^verbatim>\<open>UINT64_MAX\<close> as a frame number is \<open>None\<close>. The spin lock around an operation is not
  part of the state: an operation is one step.
\<close>

section \<open>State\<close>

abbreviation PAGE_SIZE :: u64 where "PAGE_SIZE \<equiv> 4096"
abbreviation PINNED :: u32 where "PINNED \<equiv> 0xFFFFFFFF"
definition MAX_REGIONS :: nat where [layout_simps]: "MAX_REGIONS = 64"

type_synonym region = "u64 \<times> u64"

record phys_state =
  regions :: "region list"
  alloc_start_region :: nat
  bitmap :: "u8 list option"
  refcnt :: "u32 list option"
  frame_count :: nat

definition bm_set :: "u8 list \<Rightarrow> nat \<Rightarrow> u8 list" where
  "bm_set bm i = bm[i div 8 := bm ! (i div 8) OR push_bit (i mod 8) 1]"

definition bm_clear :: "u8 list \<Rightarrow> nat \<Rightarrow> u8 list" where
  "bm_clear bm i = bm[i div 8 := bm ! (i div 8) AND NOT (push_bit (i mod 8) 1)]"

definition bm_test :: "u8 list \<Rightarrow> nat \<Rightarrow> bool" where
  "bm_test bm i = (drop_bit (i mod 8) (bm ! (i div 8)) AND 1 \<noteq> 0)"

section \<open>Frame numbers and addresses\<close>

text \<open>The regions the allocator manages.\<close>

definition managed :: "phys_state \<Rightarrow> region list" where
  "managed s = drop (alloc_start_region s) (regions s)"

fun phys_from_idx_loop :: "region list \<Rightarrow> u64 \<Rightarrow> u64" where
  "phys_from_idx_loop [] offset = 0"
| "phys_from_idx_loop ((base, len) # rs) offset =
     (if offset < len then base + offset else phys_from_idx_loop rs (offset - len))"

definition phys_from_idx :: "phys_state \<Rightarrow> nat \<Rightarrow> u64" where
  "phys_from_idx s idx = phys_from_idx_loop (managed s) (of_nat idx * PAGE_SIZE)"

fun idx_from_phys_loop :: "region list \<Rightarrow> nat \<Rightarrow> u64 \<Rightarrow> nat option" where
  "idx_from_phys_loop [] skip addr = None"
| "idx_from_phys_loop ((base, len) # rs) skip addr =
     (if addr \<ge> base \<and> addr < base + len then Some (skip + unat ((addr - base) div PAGE_SIZE))
      else idx_from_phys_loop rs (skip + unat (len div PAGE_SIZE)) addr)"

definition idx_from_phys :: "phys_state \<Rightarrow> u64 \<Rightarrow> nat option" where
  "idx_from_phys s addr = idx_from_phys_loop (managed s) 0 addr"

section \<open>Initialisation\<close>

definition page_up :: "u64 \<Rightarrow> u64" where
  "page_up x = (x + PAGE_SIZE - 1) AND NOT (PAGE_SIZE - 1)"

text \<open>The place of the tables: the first region with room for two pages above the boot
  image, the kernel image and the first megabyte.\<close>

definition meta_candidate :: "u64 \<Rightarrow> u64 \<Rightarrow> u64" where
  "meta_candidate min_meta base =
     (let c1 = (if base < 0x100000 then 0x100000 else base);
          c2 = (if c1 < min_meta then min_meta else c1)
      in page_up c2)"

definition meta_fits :: "u64 \<Rightarrow> region \<Rightarrow> bool" where
  "meta_fits min_meta r =
     (let (base, len) = r; c = meta_candidate min_meta base
      in c \<ge> base \<and> c + PAGE_SIZE * 2 \<le> base + len)"

text \<open>The static region array is zero beyond the entries copied in.\<close>

definition region_at :: "region list \<Rightarrow> nat \<Rightarrow> region" where
  "region_at regs i = (if i < length regs then regs ! i else (0, 0))"

definition meta_fallback :: "u64 \<Rightarrow> region list \<Rightarrow> nat \<times> u64" where
  "meta_fallback min_meta regs =
     (let (base, len) = region_at regs 0;
          c0 = base + PAGE_SIZE;
          c1 = (if c0 < min_meta then min_meta else c0);
          c = page_up c1
      in (0, if c + PAGE_SIZE * 2 \<le> base + len then c else 0x10000))"

definition meta_location :: "u64 \<Rightarrow> region list \<Rightarrow> nat \<times> u64" where
  "meta_location min_meta regs =
     (case find (\<lambda>i. meta_fits min_meta (regs ! i)) [0..<length regs] of
        Some i \<Rightarrow>
          (let loc = meta_candidate min_meta (fst (regs ! i))
           in if loc = 0 then meta_fallback min_meta regs else (i, loc))
      | None \<Rightarrow> meta_fallback min_meta regs)"

text \<open>Setting the bits of a list of frames, with a reference count for each.\<close>

definition mark_frames :: "u32 \<Rightarrow> nat list \<Rightarrow> phys_state \<Rightarrow> phys_state" where
  "mark_frames r is s = fold (\<lambda>i s. s\<lparr>bitmap := map_option (\<lambda>bm. bm_set bm i) (bitmap s),
     refcnt := map_option (\<lambda>rc. rc[i := r]) (refcnt s)\<rparr>) is s"

text \<open>The page above the boot image and the kernel image, and the frames of the two tables.\<close>

definition image_end :: "u64 \<Rightarrow> u64 \<Rightarrow> u64" where
  "image_end boot_end_phys kernel_end_phys =
     page_up (if kernel_end_phys > boot_end_phys then kernel_end_phys else boot_end_phys)"

definition meta_frames :: "nat \<Rightarrow> nat" where
  "meta_frames fc = ((fc + 7) div 8 + fc * 4 + 4095) div 4096"

definition phys_init :: "u64 \<Rightarrow> u64 \<Rightarrow> u64 \<Rightarrow> region list \<Rightarrow> phys_state" where
  "phys_init boot_end_phys kernel_end_phys total_mem usable =
     (let regs = take MAX_REGIONS usable;
          min_meta = image_end boot_end_phys kernel_end_phys;
          (start, loc) = meta_location min_meta regs;
          fc = (\<Sum>(base, len) \<leftarrow> drop start regs. unat (len div PAGE_SIZE));
          s0 = \<lparr>regions = regs, alloc_start_region = start,
                bitmap = Some (replicate ((fc + 7) div 8) 0),
                refcnt = Some (replicate fc 0), frame_count = fc\<rparr>;
          s1 = (case idx_from_phys s0 loc of
                  None \<Rightarrow> s0
                | Some b \<Rightarrow> mark_frames PINNED [b..<min (b + meta_frames fc) fc] s0);
          base = fst (region_at regs start);
          s2 = (if min_meta > base
                then mark_frames PINNED [0..<min (unat ((min_meta - base) div PAGE_SIZE)) fc] s1
                else s1);
          s3 = (if start = 0 then mark_frames PINNED [0..<min 256 fc] s2 else s2)
      in case idx_from_phys s3 0xB8000 of
           None \<Rightarrow> s3
         | Some v \<Rightarrow>
             if v < fc then s3\<lparr>bitmap := map_option (\<lambda>bm. bm_set bm v) (bitmap s3)\<rparr> else s3)"

section \<open>Allocating and freeing\<close>

definition frame_taken :: "phys_state \<Rightarrow> nat \<Rightarrow> bool" where
  "frame_taken s i = (case bitmap s of None \<Rightarrow> False | Some bm \<Rightarrow> bm_test bm i)"

definition phys_alloc_frame :: "phys_state \<Rightarrow> u64 \<times> phys_state" where
  "phys_alloc_frame s =
     (if bitmap s = None \<or> frame_count s = 0 then (0, s)
      else case find (\<lambda>i. \<not> frame_taken s i) [0..<frame_count s] of
             None \<Rightarrow> (0, s)
           | Some i \<Rightarrow> (phys_from_idx s i, mark_frames 1 [i] s))"

definition phys_alloc_frame_below :: "u64 \<Rightarrow> phys_state \<Rightarrow> u64 \<times> phys_state" where
  "phys_alloc_frame_below max_phys s =
     (if bitmap s = None \<or> frame_count s = 0 \<or> max_phys = 0 then (0, s)
      else case find (\<lambda>i. \<not> frame_taken s i \<and> phys_from_idx s i \<noteq> 0 \<and> phys_from_idx s i < max_phys)
                  [0..<frame_count s] of
             None \<Rightarrow> (0, s)
           | Some i \<Rightarrow> (phys_from_idx s i, mark_frames 1 [i] s))"

definition phys_free_frame :: "u64 \<Rightarrow> phys_state \<Rightarrow> phys_state" where
  "phys_free_frame phys s =
     (case bitmap s of
        None \<Rightarrow> s
      | Some bm \<Rightarrow>
          if phys = 0 then s
          else case idx_from_phys s phys of
                 None \<Rightarrow> s
               | Some idx \<Rightarrow>
                   if idx < frame_count s then
                     case refcnt s of
                       None \<Rightarrow> s\<lparr>bitmap := Some (bm_clear bm idx)\<rparr>
                     | Some rc \<Rightarrow>
                         if rc ! idx = PINNED then s
                         else if rc ! idx > 1 then s\<lparr>refcnt := Some (rc[idx := rc ! idx - 1])\<rparr>
                         else s\<lparr>refcnt := Some (rc[idx := 0]), bitmap := Some (bm_clear bm idx)\<rparr>
                   else s)"

definition is_pow2_u64 :: "u64 \<Rightarrow> bool" where
  "is_pow2_u64 x = (x \<noteq> 0 \<and> x AND (x - 1) = 0)"

text \<open>The scan of a region for a run of \<open>n\<close> free frames: \<open>start\<close> counts frames of the
  region, \<open>skip\<close> the frames before it. A taken frame in a candidate run moves the scan
  behind that frame.\<close>

function contiguous_scan ::
  "(nat \<Rightarrow> bool) \<Rightarrow> u64 \<Rightarrow> nat \<Rightarrow> nat \<Rightarrow> nat \<Rightarrow> u64 \<Rightarrow> nat \<Rightarrow> nat option" where
  "contiguous_scan taken base skip frames n align start =
     (if start \<le> frames - n then
        if (base + of_nat start * PAGE_SIZE) AND (align - 1) \<noteq> 0
        then contiguous_scan taken base skip frames n align (start + 1)
        else case find (\<lambda>j. taken (skip + start + j)) [0..<n] of
               None \<Rightarrow> Some start
             | Some j \<Rightarrow> contiguous_scan taken base skip frames n align (start + j + 1)
      else None)"
  by pat_completeness auto
termination
  by (relation "measure (\<lambda>(taken, base, skip, frames, n, align, start). Suc (frames - n) - start)") auto

declare contiguous_scan.simps [simp del]

definition phys_alloc_contiguous_in_region ::
  "nat \<Rightarrow> nat \<Rightarrow> u64 \<Rightarrow> phys_state \<Rightarrow> u64 \<times> phys_state" where
  "phys_alloc_contiguous_in_region region_idx n align s =
     (if n = 0 \<or> \<not> is_pow2_u64 align \<or> align mod PAGE_SIZE \<noteq> 0 then (0, s)
      else let (base, len) = regions s ! region_idx;
               frames = unat (len div PAGE_SIZE);
               skip = (\<Sum>r \<leftarrow> [alloc_start_region s..<region_idx].
                         unat (snd (regions s ! r) div PAGE_SIZE))
           in if frames < n then (0, s)
              else case contiguous_scan (frame_taken s) base skip frames n align 0 of
                     None \<Rightarrow> (0, s)
                   | Some start \<Rightarrow>
                       (base + of_nat start * PAGE_SIZE,
                        mark_frames 1 [skip + start..<skip + start + n] s))"

fun contiguous_regions :: "nat list \<Rightarrow> nat \<Rightarrow> u64 \<Rightarrow> phys_state \<Rightarrow> u64 \<times> phys_state" where
  "contiguous_regions [] n align s = (0, s)"
| "contiguous_regions (r # rs) n align s =
     (let (p, s') = phys_alloc_contiguous_in_region r n align s
      in if p \<noteq> 0 then (p, s') else contiguous_regions rs n align s')"

definition phys_alloc_contiguous_aligned :: "nat \<Rightarrow> u64 \<Rightarrow> phys_state \<Rightarrow> u64 \<times> phys_state" where
  "phys_alloc_contiguous_aligned n align0 s =
     (if bitmap s = None \<or> n = 0 \<or> frame_count s = 0 \<or> n > frame_count s then (0, s)
      else let align = (if align0 = 0 then PAGE_SIZE else align0)
           in if \<not> is_pow2_u64 align \<or> align mod PAGE_SIZE \<noteq> 0 then (0, s)
              else contiguous_regions [alloc_start_region s..<length (regions s)] n align s)"

definition phys_alloc_contiguous :: "nat \<Rightarrow> phys_state \<Rightarrow> u64 \<times> phys_state" where
  "phys_alloc_contiguous n s = phys_alloc_contiguous_aligned n PAGE_SIZE s"

section \<open>Reservation, reference counts, statistics\<close>

definition phys_reserve_range :: "u64 \<Rightarrow> u64 \<Rightarrow> phys_state \<Rightarrow> phys_state" where
  "phys_reserve_range pstart plen s =
     (if bitmap s = None \<or> plen = 0 then s
      else case idx_from_phys s pstart of
             None \<Rightarrow> s
           | Some start_idx \<Rightarrow>
               if pstart + plen \<le> pstart then s
               else let end_idx = (case idx_from_phys s (pstart + plen - 1) of
                                     None \<Rightarrow> frame_count s - 1
                                   | Some e \<Rightarrow> e)
                    in if end_idx < start_idx then s
                       else mark_frames PINNED [start_idx..<min (end_idx + 1) (frame_count s)] s)"

definition phys_total_frames :: "phys_state \<Rightarrow> nat" where
  "phys_total_frames s = frame_count s"

definition phys_ref_inc :: "u64 \<Rightarrow> phys_state \<Rightarrow> phys_state" where
  "phys_ref_inc phys s =
     (case refcnt s of
        None \<Rightarrow> s
      | Some rc \<Rightarrow>
          if phys = 0 then s
          else case idx_from_phys s phys of
                 None \<Rightarrow> s
               | Some idx \<Rightarrow>
                   if idx \<ge> frame_count s \<or> rc ! idx = PINNED then s
                   else if rc ! idx = 0 then s\<lparr>refcnt := Some (rc[idx := 1])\<rparr>
                   else s\<lparr>refcnt := Some (rc[idx := rc ! idx + 1])\<rparr>)"

definition phys_ref_dec :: "u64 \<Rightarrow> phys_state \<Rightarrow> phys_state" where
  "phys_ref_dec phys s = phys_free_frame phys s"

definition phys_ref_get :: "u64 \<Rightarrow> phys_state \<Rightarrow> u32" where
  "phys_ref_get phys s =
     (case refcnt s of
        None \<Rightarrow> 0
      | Some rc \<Rightarrow>
          if phys = 0 then 0
          else case idx_from_phys s phys of
                 None \<Rightarrow> 0
               | Some idx \<Rightarrow> if idx \<ge> frame_count s then 0 else rc ! idx)"

definition phys_count_free_frames :: "phys_state \<Rightarrow> nat" where
  "phys_count_free_frames s =
     (if bitmap s = None \<or> frame_count s = 0 then 0
      else fold (\<lambda>i free. if frame_taken s i then free else free + 1) [0..<frame_count s] 0)"

definition phys_get_stats :: "phys_state \<Rightarrow> nat \<times> nat \<times> nat" where
  "phys_get_stats s =
     (let free = phys_count_free_frames s
      in (frame_count s, free, frame_count s - free))"

end
