(* ===== verification/Phys_Props.thy ===== *)
theory Phys_Props
  imports Phys
begin

text \<open>
  Correctness of the frame allocator: the bitmap operations, the two translations between
  frame numbers and addresses, the abstract view of a frame (free, held with a number of
  references, pinned) and what every operation does to it.
\<close>

section \<open>The bitmap\<close>

lemma drop_bit_and_1_iff: "(drop_bit k (w::u8) AND 1 \<noteq> 0) = bit w k"
  by (simp add: and_one_eq bit_iff_odd_drop_bit odd_iff_mod_2_eq_one)

lemma bm_test_bit: "bm_test bm i = bit (bm ! (i div 8)) (i mod 8)"
  by (simp add: bm_test_def drop_bit_and_1_iff)

lemma bit_set_mask: "bit (w OR (2::u8) ^ k) j = (bit w j \<or> (j = k \<and> k < 8))"
  by (auto simp: bit_simps)

lemma bit_clear_mask: "bit (w AND NOT ((2::u8) ^ k)) j = (bit w j \<and> j \<noteq> k)"
  by (auto simp: bit_simps dest: bit_imp_le_length)

lemma div_mod_8_eq: "(i div 8 = j div 8 \<and> i mod 8 = j mod 8) = (i = (j::nat))"
  by (metis div_mult_mod_eq)

lemma bm_test_set:
  assumes "i div 8 < length bm"
  shows "bm_test (bm_set bm i) j = (bm_test bm j \<or> j = i)"
proof (cases "j div 8 = i div 8")
  case True
  then show ?thesis
    using assms div_mod_8_eq [of j i] by (auto simp: bm_test_bit bm_set_def bit_set_mask)
next
  case False
  then show ?thesis by (auto simp: bm_test_bit bm_set_def)
qed

lemma bm_test_clear:
  assumes "i div 8 < length bm"
  shows "bm_test (bm_clear bm i) j = (bm_test bm j \<and> j \<noteq> i)"
proof (cases "j div 8 = i div 8")
  case True
  then show ?thesis
    using assms div_mod_8_eq [of j i] by (auto simp: bm_test_bit bm_clear_def bit_clear_mask)
next
  case False
  then show ?thesis by (auto simp: bm_test_bit bm_clear_def)
qed

lemma length_bm [simp]: "length (bm_set bm i) = length bm" "length (bm_clear bm i) = length bm"
  by (simp_all add: bm_set_def bm_clear_def)

section \<open>Frame numbers and addresses\<close>

definition frames_of :: "region list \<Rightarrow> nat" where
  "frames_of rs = (\<Sum>(base, len) \<leftarrow> rs. unat (len div PAGE_SIZE))"

text \<open>Page-aligned, non-empty addresses, no wrap-around, pairwise disjoint, and small enough
  together for frame numbers to be turned into byte offsets.\<close>

fun apart :: "region \<Rightarrow> region \<Rightarrow> bool" where
  "apart (b, l) (b', l') = (unat b + unat l \<le> unat b' \<or> unat b' + unat l' \<le> unat b)"

fun regions_ok :: "region list \<Rightarrow> bool" where
  "regions_ok [] = True"
| "regions_ok ((b, l) # rs) =
     (b \<noteq> 0 \<and> unat b mod 4096 = 0 \<and> unat l mod 4096 = 0 \<and> unat b + unat l < 2 ^ 64 \<and>
      list_all (apart (b, l)) rs \<and> regions_ok rs)"

definition in_region :: "u64 \<Rightarrow> region \<Rightarrow> bool" where
  "in_region a r = (unat (fst r) \<le> unat a \<and> unat a < unat (fst r) + unat (snd r))"

lemma in_region_code:
  assumes "unat b + unat l < 2 ^ 64"
  shows "(a \<ge> b \<and> a < b + l) = in_region a (b, l)"
  using assms by (simp add: in_region_def word_le_nat_alt word_less_nat_alt unat_word_ariths)

lemma frames_of_simps [simp]:
  "frames_of [] = 0" "frames_of ((b, l) # rs) = unat (l div PAGE_SIZE) + frames_of rs"
  by (simp_all add: frames_of_def)

lemma unat_page_offset: "i * 4096 < 2 ^ 64 \<Longrightarrow> unat (of_nat i * PAGE_SIZE) = i * 4096"
  by (simp add: unat_word_ariths unat_of_nat)

lemma frames_unat: "unat (l div PAGE_SIZE) = unat l div 4096"
  by (simp add: unat_div_distrib)

lemma page_offset_diff:
  assumes "f \<le> i" and "unat l = f * 4096"
  shows "of_nat i * PAGE_SIZE - l = of_nat (i - f) * PAGE_SIZE"
proof -
  have "l = of_nat f * PAGE_SIZE"
    using assms(2) by (metis of_nat_mult of_nat_numeral word_nat_cases unat_of_nat
        of_nat_unat ucast_id)
  with assms(1) show ?thesis by (simp add: of_nat_diff algebra_simps)
qed

lemma phys_from_idx_loop_in_region:
  assumes "regions_ok rs" and "i < frames_of rs" and "frames_of rs * 4096 < 2 ^ 64"
  shows "\<exists>r\<in>set rs. in_region (phys_from_idx_loop rs (of_nat i * PAGE_SIZE)) r"
  using assms
proof (induction rs arbitrary: i rule: regions_ok.induct)
  case (2 b l rs)
  then have l: "unat l = unat l div 4096 * 4096" by auto
  let ?f = "unat l div 4096"
  have i: "unat (of_nat i * PAGE_SIZE :: u64) = i * 4096"
    using 2 by (intro unat_page_offset) (auto simp: frames_unat)
  show ?case
  proof (cases "i < ?f")
    case True
    then have "of_nat i * PAGE_SIZE < l"
      using i l by (simp add: word_less_nat_alt)
    moreover have "in_region (b + of_nat i * PAGE_SIZE) (b, l)"
      using True i l 2 by (simp add: in_region_def unat_word_ariths)
    ultimately show ?thesis by simp
  next
    case False
    then have ge: "\<not> of_nat i * PAGE_SIZE < l"
      using i l by (simp add: word_less_nat_alt)
    have "of_nat i * PAGE_SIZE - l = of_nat (i - ?f) * PAGE_SIZE"
      by (rule page_offset_diff) (use False l in simp_all)
    moreover have "\<exists>r\<in>set rs. in_region (phys_from_idx_loop rs (of_nat (i - ?f) * PAGE_SIZE)) r"
      using 2 False by (intro "2.IH") (auto simp: frames_unat)
    ultimately show ?thesis using ge by simp
  qed
qed simp

lemma not_in_apart_region:
  assumes "list_all (apart r) rs" and "\<exists>r'\<in>set rs. in_region a r'"
  shows "\<not> in_region a r"
  using assms by (cases r) (fastforce simp: in_region_def list_all_iff)

lemma idx_of_phys_loop:
  assumes "regions_ok rs" and "i < frames_of rs" and "frames_of rs * 4096 < 2 ^ 64"
  shows "idx_from_phys_loop rs k (phys_from_idx_loop rs (of_nat i * PAGE_SIZE)) = Some (k + i)"
  using assms
proof (induction rs arbitrary: i k rule: regions_ok.induct)
  case (2 b l rs)
  then have l: "unat l = unat l div 4096 * 4096" by auto
  let ?f = "unat l div 4096"
  have i: "unat (of_nat i * PAGE_SIZE :: u64) = i * 4096"
    using 2 by (intro unat_page_offset) (auto simp: frames_unat)
  have ok: "unat b + unat l < 2 ^ 64" using 2 by simp
  show ?case
  proof (cases "i < ?f")
    case True
    then have lt: "of_nat i * PAGE_SIZE < l"
      using i l by (simp add: word_less_nat_alt)
    have "in_region (b + of_nat i * PAGE_SIZE) (b, l)"
      using True i l ok by (simp add: in_region_def unat_word_ariths)
    then have "b + of_nat i * PAGE_SIZE \<ge> b \<and> b + of_nat i * PAGE_SIZE < b + l"
      using in_region_code [OF ok] by blast
    then show ?thesis using lt i by (simp add: frames_unat)
  next
    case False
    let ?p = "phys_from_idx_loop rs (of_nat (i - ?f) * PAGE_SIZE)"
    have ge: "\<not> of_nat i * PAGE_SIZE < l"
      using False i l by (simp add: word_less_nat_alt)
    have d: "of_nat i * PAGE_SIZE - l = of_nat (i - ?f) * PAGE_SIZE"
      by (rule page_offset_diff) (use False l in simp_all)
    have rec: "i - ?f < frames_of rs" "regions_ok rs" "frames_of rs * 4096 < 2 ^ 64"
      using 2 False by (auto simp: frames_unat)
    have "\<not> in_region ?p (b, l)"
      by (rule not_in_apart_region [of _ rs])
        (use 2 rec phys_from_idx_loop_in_region [of rs "i - ?f"] in simp_all)
    then have "\<not> (?p \<ge> b \<and> ?p < b + l)" using in_region_code [OF ok] by blast
    then have "idx_from_phys_loop ((b, l) # rs) k ?p = idx_from_phys_loop rs (k + ?f) ?p"
      by (simp only: idx_from_phys_loop.simps if_False frames_unat)
    moreover have "idx_from_phys_loop rs (k + ?f) ?p = Some (k + i)"
      using "2.IH" [OF rec(2,1,3), of "k + ?f"] False by simp
    moreover have "phys_from_idx_loop ((b, l) # rs) (of_nat i * PAGE_SIZE) = ?p"
      using ge by (simp only: phys_from_idx_loop.simps if_False d)
    ultimately show ?thesis by metis
  qed
qed simp

lemma page_align_sub:
  assumes "b = b div 4096 * 4096" and "b \<le> (a::nat)"
  shows "b + (a - b) div 4096 * 4096 = a div 4096 * 4096"
proof -
  have "a div 4096 = b div 4096 + (a - b) div 4096"
    using assms by (metis div_mult_self3 le_add_diff_inverse mult.commute zero_neq_numeral add.commute)
  then show ?thesis using assms(1) by (metis add_mult_distrib)
qed

lemma phys_of_idx_loop:
  assumes "regions_ok rs" and "frames_of rs * 4096 < 2 ^ 64"
    and "idx_from_phys_loop rs k a = Some j"
  shows "k \<le> j \<and> j < k + frames_of rs \<and>
    phys_from_idx_loop rs (of_nat (j - k) * PAGE_SIZE) = of_nat (unat a div 4096 * 4096)"
  using assms
proof (induction rs arbitrary: k rule: regions_ok.induct)
  case (2 b l rs)
  then have l: "unat l = unat l div 4096 * 4096" and b: "unat b = unat b div 4096 * 4096" by auto
  let ?f = "unat l div 4096"
  have ok: "unat b + unat l < 2 ^ 64" using 2 by simp
  show ?case
  proof (cases "in_region a (b, l)")
    case True
    define m where "m = (unat a - unat b) div 4096"
    have le: "unat b \<le> unat a" and lt: "unat a < unat b + unat l"
      using True by (simp_all add: in_region_def)
    have ab: "unat (a - b) = unat a - unat b"
      using le by (simp add: unat_sub word_le_nat_alt)
    have j: "j = k + m"
      using 2 True in_region_code [OF ok, of a] ab by (simp add: m_def unat_div_distrib)
    have mf: "m < ?f" using le lt l unfolding m_def by linarith
    have off: "unat (of_nat m * PAGE_SIZE :: u64) = m * 4096"
      using mf l ok by (intro unat_page_offset) linarith
    have "of_nat m * PAGE_SIZE < l" using off mf l by (simp add: word_less_nat_alt)
    moreover have "b + of_nat m * PAGE_SIZE = of_nat (unat b + m * 4096)" by simp
    moreover have "unat b + m * 4096 = unat a div 4096 * 4096"
      using b le unfolding m_def by (metis page_align_sub)
    ultimately show ?thesis using j mf by (simp add: frames_unat)
  next
    case False
    then have n: "\<not> (a \<ge> b \<and> a < b + l)" using in_region_code [OF ok] by blast
    then have "idx_from_phys_loop rs (k + ?f) a = Some j"
      using "2.prems"(3) by (simp only: idx_from_phys_loop.simps if_False frames_unat)
    moreover have "regions_ok rs" "frames_of rs * 4096 < 2 ^ 64"
      using "2.prems" by (auto simp: frames_unat)
    ultimately have IH: "k + ?f \<le> j \<and> j < k + ?f + frames_of rs \<and>
        phys_from_idx_loop rs (of_nat (j - (k + ?f)) * PAGE_SIZE) = of_nat (unat a div 4096 * 4096)"
      using "2.IH" by blast
    have d: "of_nat (j - k) * PAGE_SIZE - l = of_nat (j - k - ?f) * PAGE_SIZE"
      by (rule page_offset_diff) (use IH l in linarith)+
    have off: "unat (of_nat (j - k) * PAGE_SIZE :: u64) = (j - k) * 4096"
    proof (rule unat_page_offset)
      have "(j - k) * 4096 \<le> (?f + frames_of rs) * 4096" using IH by auto
      with "2.prems"(2) show "(j - k) * 4096 < 2 ^ 64"
        unfolding frames_of_simps frames_unat by (rule le_less_trans [rotated])
    qed
    have "\<not> of_nat (j - k) * PAGE_SIZE < l"
      using off IH l by (simp add: word_less_nat_alt) linarith
    then have "phys_from_idx_loop ((b, l) # rs) (of_nat (j - k) * PAGE_SIZE) =
        of_nat (unat a div 4096 * 4096)"
      using IH d by (simp only: phys_from_idx_loop.simps if_False diff_diff_left)
    with IH show ?thesis by (simp add: frames_unat)
  qed
qed simp

section \<open>The abstract frame table\<close>

datatype frame_status = Free | Held nat | Pinned

definition frame_refs :: "phys_state \<Rightarrow> nat \<Rightarrow> u32" where
  "frame_refs s i = (case refcnt s of None \<Rightarrow> 0 | Some rc \<Rightarrow> rc ! i)"

definition status :: "phys_state \<Rightarrow> nat \<Rightarrow> frame_status" where
  "status s i =
     (if \<not> frame_taken s i then Free
      else if frame_refs s i = PINNED then Pinned
      else Held (unat (frame_refs s i)))"

definition layout_ok :: "phys_state \<Rightarrow> bool" where
  "layout_ok s = (regions_ok (managed s) \<and> frames_of (managed s) * 4096 < 2 ^ 64 \<and>
     frame_count s = frames_of (managed s))"

text \<open>The tables have the size of the frame count.\<close>

definition tables_ok :: "phys_state \<Rightarrow> bool" where
  "tables_ok s = (case (bitmap s, refcnt s) of
     (Some bm, Some rc) \<Rightarrow>
       length bm = (frame_count s + 7) div 8 \<and> length rc = frame_count s
   | _ \<Rightarrow> False)"

definition phys_ok :: "phys_state \<Rightarrow> bool" where
  "phys_ok s = (layout_ok s \<and> tables_ok s)"

lemma tables_okE:
  assumes "tables_ok s"
  obtains bm rc where "bitmap s = Some bm" "refcnt s = Some rc"
    "length bm = (frame_count s + 7) div 8" "length rc = frame_count s"
  using assms by (auto simp: tables_ok_def split: option.splits)

text \<open>Operations that leave the regions and the frame count alone.\<close>

definition same_layout :: "phys_state \<Rightarrow> phys_state \<Rightarrow> bool" where
  "same_layout s t = (regions t = regions s \<and> alloc_start_region t = alloc_start_region s \<and>
     frame_count t = frame_count s)"

lemma same_layout_refl [simp]: "same_layout s s"
  by (simp add: same_layout_def)

lemma same_layout_trans: "same_layout s t \<Longrightarrow> same_layout t u \<Longrightarrow> same_layout s u"
  by (simp add: same_layout_def)

lemma same_layout_translation:
  assumes "same_layout s t"
  shows "idx_from_phys t = idx_from_phys s" "phys_from_idx t = phys_from_idx s"
    "layout_ok t = layout_ok s" "frame_count t = frame_count s"
  using assms by (auto simp: same_layout_def idx_from_phys_def phys_from_idx_def layout_ok_def
      managed_def fun_eq_iff)

lemma mark_frames_Nil [simp]: "mark_frames r [] s = s"
  by (simp add: mark_frames_def)

lemma mark_frames_Cons:
  "mark_frames r (i # is) s = mark_frames r is
     (s\<lparr>bitmap := map_option (\<lambda>bm. bm_set bm i) (bitmap s),
        refcnt := map_option (\<lambda>rc. rc[i := r]) (refcnt s)\<rparr>)"
  by (simp add: mark_frames_def)

lemma mark_one:
  fixes r :: u32
  assumes "tables_ok s" and "i < frame_count s"
  defines "t \<equiv> s\<lparr>bitmap := map_option (\<lambda>bm. bm_set bm i) (bitmap s),
    refcnt := map_option (\<lambda>rc. rc[i := r]) (refcnt s)\<rparr>"
  shows "tables_ok t" and "same_layout s t"
    and "frame_taken t j = (frame_taken s j \<or> j = i)"
    and "frame_refs t j = (if j = i then r else frame_refs s j)"
proof -
  obtain bm rc where t: "bitmap s = Some bm" "refcnt s = Some rc"
    "length bm = (frame_count s + 7) div 8" "length rc = frame_count s"
    using tables_okE [OF assms(1)] by blast
  have i: "i div 8 < length bm" using t(3) assms(2) by linarith
  show "tables_ok t"
    using t by (simp add: t_def tables_ok_def)
  show "same_layout s t" by (simp add: t_def same_layout_def)
  show "frame_taken t j = (frame_taken s j \<or> j = i)"
    using t i by (simp add: t_def frame_taken_def bm_test_set)
  show "frame_refs t j = (if j = i then r else frame_refs s j)"
    using t assms(2) by (simp add: t_def frame_refs_def)
qed

lemma mark_frames_effect:
  assumes "tables_ok s" and "\<forall>i\<in>set is. i < frame_count s"
  shows "tables_ok (mark_frames r is s) \<and> same_layout s (mark_frames r is s) \<and>
    (\<forall>j. frame_taken (mark_frames r is s) j = (frame_taken s j \<or> j \<in> set is)) \<and>
    (\<forall>j. frame_refs (mark_frames r is s) j = (if j \<in> set is then r else frame_refs s j))"
  using assms
proof (induction "is" arbitrary: s)
  case (Cons i "is")
  let ?t = "s\<lparr>bitmap := map_option (\<lambda>bm. bm_set bm i) (bitmap s),
    refcnt := map_option (\<lambda>rc. rc[i := r]) (refcnt s)\<rparr>"
  from Cons.prems have i: "i < frame_count s" by simp
  note one = mark_one [OF Cons.prems(1) i, of r]
  have "\<forall>j\<in>set is. j < frame_count ?t" using Cons.prems(2) by simp
  note IH = Cons.IH [OF one(1) this]
  then show ?case
    unfolding mark_frames_Cons using one same_layout_trans [OF one(2)] by auto
qed simp

lemma status_mark_frames:
  assumes "tables_ok s" and "\<forall>i\<in>set is. i < frame_count s"
  shows "status (mark_frames r is s) j =
    (if j \<in> set is then if r = PINNED then Pinned else Held (unat r) else status s j)"
  using mark_frames_effect [OF assms, of r] by (simp add: status_def)

lemma status_free_iff: "status s i = Free \<longleftrightarrow> \<not> frame_taken s i"
  by (simp add: status_def)

lemma phys_ok_same_layout:
  "phys_ok s \<Longrightarrow> same_layout s t \<Longrightarrow> tables_ok t \<Longrightarrow> phys_ok t"
  by (simp add: phys_ok_def same_layout_translation(3))

lemma phys_ok_frame_index:
  assumes "phys_ok s" and "i < frame_count s"
  shows "i div 8 < length (the (bitmap s))" "i < length (the (refcnt s))"
    "\<exists>bm. bitmap s = Some bm" "\<exists>rc. refcnt s = Some rc"
  using assms by (auto simp: phys_ok_def tables_ok_def split: option.splits)

section \<open>Addresses of frames\<close>

lemma regions_ok_nonzero: "regions_ok rs \<Longrightarrow> r \<in> set rs \<Longrightarrow> in_region a r \<Longrightarrow> a \<noteq> 0"
  by (induction rs rule: regions_ok.induct) (auto simp: in_region_def unat_eq_0)

lemma idx_phys_roundtrip:
  assumes "layout_ok s" and "i < frame_count s"
  shows "idx_from_phys s (phys_from_idx s i) = Some i"
  using assms idx_of_phys_loop [of "managed s" i 0]
  by (simp add: layout_ok_def idx_from_phys_def phys_from_idx_def)

lemma phys_idx_roundtrip:
  assumes "layout_ok s" and "idx_from_phys s a = Some i"
  shows "i < frame_count s" and "phys_from_idx s i = of_nat (unat a div 4096 * 4096)"
  using assms phys_of_idx_loop [of "managed s" 0 a i]
  by (simp_all add: layout_ok_def idx_from_phys_def phys_from_idx_def)

lemma phys_from_idx_nonzero:
  assumes "layout_ok s" and "i < frame_count s"
  shows "phys_from_idx s i \<noteq> 0"
proof -
  obtain r where "r \<in> set (managed s)" "in_region (phys_from_idx s i) r"
    using assms phys_from_idx_loop_in_region [of "managed s" i]
    unfolding layout_ok_def phys_from_idx_def by metis
  then show ?thesis
    using assms(1) regions_ok_nonzero unfolding layout_ok_def by blast
qed

lemma unat_of_nat_page: "unat (of_nat (n * 4096) :: u64) mod 4096 = 0"
proof -
  have "unat (of_nat (n * 4096) :: u64) = n * 4096 mod 18446744073709551616"
    by (simp only: unat_of_nat take_bit_eq_mod) simp
  moreover have "n * 4096 mod 18446744073709551616 mod 4096 = n * 4096 mod 4096"
    by (rule mod_mod_cancel) simp
  ultimately show ?thesis by simp
qed

lemma phys_from_idx_aligned:
  assumes "layout_ok s" and "i < frame_count s"
  shows "unat (phys_from_idx s i) mod 4096 = 0"
proof -
  let ?a = "phys_from_idx s i"
  have "?a = of_nat (unat ?a div 4096 * 4096)"
    by (rule phys_idx_roundtrip(2) [OF assms(1) idx_phys_roundtrip [OF assms]])
  then have "unat ?a mod 4096 = unat (of_nat (unat ?a div 4096 * 4096) :: u64) mod 4096"
    by (rule arg_cong)
  then show ?thesis by (simp only: unat_of_nat_page)
qed

lemma phys_from_idx_inject:
  assumes "layout_ok s" and "i < frame_count s" and "j < frame_count s"
    and "phys_from_idx s i = phys_from_idx s j"
  shows "i = j"
  using idx_phys_roundtrip [OF assms(1,2)] idx_phys_roundtrip [OF assms(1,3)] assms(4)
  by (metis option.inject)

section \<open>Single frames\<close>

lemma unat_eq_iff_pinned: "(r = PINNED) = (unat r = 0xFFFFFFFF)"
proof
  assume "unat r = 0xFFFFFFFF"
  then have "unat r = unat PINNED" by simp
  then show "r = PINNED" by (rule unsigned_word_eqI)
qed simp

lemma unat_less_pinned:
  assumes "r \<noteq> PINNED"
  shows "unat r < 0xFFFFFFFF"
proof -
  have "unat r < 2 ^ LENGTH(32)" by (rule unsigned_less)
  then show ?thesis using assms by (simp add: unat_eq_iff_pinned)
qed

text \<open>What releasing and retaining do to the state of a frame. A frame whose count reaches
  \<^verbatim>\<open>0xFFFFFFFF\<close> has become a pinned one.\<close>

fun release :: "frame_status \<Rightarrow> frame_status" where
  "release Free = Free"
| "release (Held n) = (if n \<le> 1 then Free else Held (n - 1))"
| "release Pinned = Pinned"

fun retain :: "frame_status \<Rightarrow> frame_status" where
  "retain Free = Free"
| "retain (Held n) = (if n + 1 = 0xFFFFFFFF then Pinned else Held (n + 1))"
| "retain Pinned = Pinned"

lemma phys_alloc_frame_taken:
  assumes "phys_ok s" and "find (\<lambda>i. \<not> frame_taken s i) [0..<frame_count s] = Some i"
  shows "phys_alloc_frame s = (phys_from_idx s i, mark_frames 1 [i] s)"
  using assms by (auto simp: phys_alloc_frame_def phys_ok_def tables_ok_def)

lemma mark_frames_run:
  assumes "phys_ok s" and "k + n \<le> frame_count s" and "t = mark_frames r [k..<k + n] s"
  shows "phys_ok t \<and> same_layout s t \<and>
    (\<forall>j. status t j = (if k \<le> j \<and> j < k + n then if r = PINNED then Pinned else Held (unat r)
      else status s j))"
proof -
  have ok: "tables_ok s" using assms(1) by (simp add: phys_ok_def)
  have b: "\<forall>i\<in>set [k..<k + n]. i < frame_count s" using assms(2) by auto
  show ?thesis
    using mark_frames_effect [OF ok b, of r] status_mark_frames [OF ok b, of r]
      phys_ok_same_layout [OF assms(1)] assms(3) by auto
qed

lemma mark_frames_single:
  assumes "phys_ok s" and "i < frame_count s" and "t = mark_frames 1 [i] s"
  shows "phys_ok t \<and> same_layout s t \<and> status t = (status s)(i := Held 1)"
  using mark_frames_run [OF assms(1), of i 1 t 1] assms(2,3) by (auto simp: fun_eq_iff)

lemma phys_alloc_frame_effect:
  assumes "phys_ok s" and "phys_alloc_frame s = (p, t)"
  shows "p = 0 \<and> t = s \<and> (\<forall>i<frame_count s. status s i \<noteq> Free) \<or>
    (\<exists>i<frame_count s. status s i = Free \<and> (\<forall>j<i. status s j \<noteq> Free) \<and>
       p = phys_from_idx s i \<and> phys_ok t \<and> same_layout s t \<and> status t = (status s)(i := Held 1))"
proof (cases "find (\<lambda>i. \<not> frame_taken s i) [0..<frame_count s]")
  case None
  then have "p = 0 \<and> t = s"
    using assms(2) by (auto simp: phys_alloc_frame_def split: if_splits)
  moreover from None have "\<forall>i<frame_count s. status s i \<noteq> Free"
    by (simp add: status_free_iff find_upt_None_iff)
  ultimately show ?thesis by blast
next
  case (Some i)
  then have i: "i < frame_count s" "\<not> frame_taken s i" "\<forall>j<i. frame_taken s j"
    by (auto simp: find_upt_Some_iff)
  have "p = phys_from_idx s i" "t = mark_frames 1 [i] s"
    using phys_alloc_frame_taken [OF assms(1) Some] assms(2) by auto
  then show ?thesis
    using mark_frames_single [OF assms(1) i(1)] i by (metis status_free_iff)
qed

lemma phys_alloc_frame_below_effect:
  assumes "phys_ok s" and "phys_alloc_frame_below m s = (p, t)"
  shows "p = 0 \<and> t = s \<and> (\<forall>i<frame_count s. status s i = Free \<longrightarrow> phys_from_idx s i \<ge> m) \<or>
    (\<exists>i<frame_count s. status s i = Free \<and> p = phys_from_idx s i \<and> p < m \<and>
       phys_ok t \<and> same_layout s t \<and> status t = (status s)(i := Held 1))"
proof (cases "m = 0 \<or> find (\<lambda>i. \<not> frame_taken s i \<and> phys_from_idx s i \<noteq> 0 \<and> phys_from_idx s i < m)
    [0..<frame_count s] = None")
  case True
  then have "\<forall>i<frame_count s. status s i = Free \<longrightarrow> phys_from_idx s i \<ge> m"
    using phys_from_idx_nonzero assms(1)
    by (auto simp: status_free_iff find_upt_None_iff phys_ok_def not_less)
  moreover have "p = 0 \<and> t = s"
    using True assms by (auto simp: phys_alloc_frame_below_def split: if_splits)
  ultimately show ?thesis by blast
next
  case False
  then obtain i where i: "find (\<lambda>i. \<not> frame_taken s i \<and> phys_from_idx s i \<noteq> 0 \<and> phys_from_idx s i < m)
    [0..<frame_count s] = Some i" and m: "m \<noteq> 0" by auto
  then have "i < frame_count s" "\<not> frame_taken s i" "phys_from_idx s i < m"
    by (auto simp: find_upt_Some_iff)
  moreover have "p = phys_from_idx s i" "t = mark_frames 1 [i] s"
    using assms(2) i m calculation(1) phys_ok_frame_index(3) [OF assms(1) calculation(1)]
    by (auto simp: phys_alloc_frame_below_def)
  ultimately show ?thesis
    using mark_frames_single [OF assms(1)] by (metis status_free_iff)
qed

lemma phys_free_frame_effect:
  assumes ok: "phys_ok s" and p: "p \<noteq> 0" "idx_from_phys s p = Some i"
  shows "phys_ok (phys_free_frame p s) \<and> same_layout s (phys_free_frame p s) \<and>
    status (phys_free_frame p s) = (status s)(i := release (status s i))"
proof -
  have i: "i < frame_count s" using ok p by (simp add: phys_idx_roundtrip(1) phys_ok_def)
  obtain bm rc where t: "bitmap s = Some bm" "refcnt s = Some rc"
    "length bm = (frame_count s + 7) div 8" "length rc = frame_count s"
    using ok tables_okE unfolding phys_ok_def by blast
  have i8: "i div 8 < length bm" using t(3) i by linarith
  let ?t = "phys_free_frame p s"
  have lay: "same_layout s ?t" and tab: "tables_ok ?t"
    using t i p by (auto simp: phys_free_frame_def same_layout_def tables_ok_def)
  consider "rc ! i = PINNED" | "rc ! i \<noteq> PINNED" "rc ! i > 1" | "rc ! i \<noteq> PINNED" "rc ! i \<le> 1"
    by fastforce
  then have "status ?t = (status s)(i := release (status s i))"
  proof cases
    case 1
    then have "?t = s" using t i p by (simp add: phys_free_frame_def)
    with 1 t show ?thesis by (auto simp: fun_eq_iff status_def frame_refs_def)
  next
    case 2
    have u: "unat (rc ! i) > 1" using 2(2) by (simp add: word_less_nat_alt)
    have "unat (rc ! i - 1) = unat (rc ! i) - 1" using u by (simp add: unat_pred_pos)
    moreover have "rc ! i - 1 \<noteq> PINNED" using u by (auto simp: diff_eq_eq)
    moreover have "?t = s\<lparr>refcnt := Some (rc[i := rc ! i - 1])\<rparr>"
      using 2 t i p by (simp add: phys_free_frame_def)
    ultimately show ?thesis
      using 2 u t i by (auto simp: fun_eq_iff status_def frame_refs_def frame_taken_def)
  next
    case 3
    then have "unat (rc ! i) \<le> 1" by (simp add: word_le_nat_alt)
    moreover have "?t = s\<lparr>refcnt := Some (rc[i := 0]), bitmap := Some (bm_clear bm i)\<rparr>"
      using 3 t i p by (simp add: phys_free_frame_def)
    ultimately show ?thesis
      using 3 t i i8
      by (auto simp: fun_eq_iff status_def frame_refs_def frame_taken_def bm_test_clear)
  qed
  then show ?thesis using lay phys_ok_same_layout [OF ok lay tab] by simp
qed

lemma phys_ref_inc_effect:
  assumes ok: "phys_ok s" and p: "p \<noteq> 0" "idx_from_phys s p = Some i"
  shows "phys_ok (phys_ref_inc p s) \<and> same_layout s (phys_ref_inc p s) \<and>
    status (phys_ref_inc p s) = (status s)(i := retain (status s i))"
proof -
  have i: "i < frame_count s" using ok p by (simp add: phys_idx_roundtrip(1) phys_ok_def)
  obtain bm rc where t: "bitmap s = Some bm" "refcnt s = Some rc"
    "length bm = (frame_count s + 7) div 8" "length rc = frame_count s"
    using ok tables_okE unfolding phys_ok_def by blast
  let ?t = "phys_ref_inc p s"
  have lay: "same_layout s ?t" and tab: "tables_ok ?t"
    using t i p by (auto simp: phys_ref_inc_def same_layout_def tables_ok_def)
  have "status ?t = (status s)(i := retain (status s i))"
  proof (cases "rc ! i = PINNED")
    case True
    then have "?t = s" using t i p by (simp add: phys_ref_inc_def)
    with True t show ?thesis by (auto simp: fun_eq_iff status_def frame_refs_def)
  next
    case False
    have "?t = s\<lparr>refcnt := Some (rc[i := rc ! i + 1])\<rparr>"
      using False t i p by (simp add: phys_ref_inc_def)
    moreover have "unat (rc ! i + 1) = unat (rc ! i) + 1"
    proof -
      have "unat (rc ! i) < 0xFFFFFFFF" using False by (rule unat_less_pinned)
      then show ?thesis using unat_Suc_small [of "rc ! i" "0xFFFFFFFF"] by simp
    qed
    moreover have "(rc ! i + 1 = PINNED) = (unat (rc ! i) + 1 = 0xFFFFFFFF)"
      using calculation(2) by (metis unat_eq_iff_pinned)
    ultimately show ?thesis
      using False t i by (auto simp: fun_eq_iff status_def frame_refs_def frame_taken_def)
  qed
  then show ?thesis using lay phys_ok_same_layout [OF ok lay tab] by simp
qed

lemma phys_reserve_range_effect:
  assumes ok: "phys_ok s" and p: "idx_from_phys s p = Some i" and q: "idx_from_phys s (p + len - 1) = Some j"
    and w: "len \<noteq> 0" "p < p + len" and le: "i \<le> j"
  shows "phys_ok (phys_reserve_range p len s) \<and> same_layout s (phys_reserve_range p len s) \<and>
    (\<forall>k. status (phys_reserve_range p len s) k =
      (if i \<le> k \<and> k \<le> j then Pinned else status s k))"
proof -
  have j: "j < frame_count s" using ok q by (simp add: phys_idx_roundtrip(1) phys_ok_def)
  have "phys_reserve_range p len s = mark_frames PINNED [i..<i + (j + 1 - i)] s"
    using phys_ok_frame_index(3) [OF ok j] p q w le j
    by (auto simp: phys_reserve_range_def not_le min_def)
  from mark_frames_run [OF ok _ this] j le show ?thesis by auto
qed

section \<open>Contiguous runs\<close>

definition free_run :: "(nat \<Rightarrow> bool) \<Rightarrow> nat \<Rightarrow> nat \<Rightarrow> bool" where
  "free_run taken k n = list_all (\<lambda>j. \<not> taken (k + j)) [0..<n]"

text \<open>The scan that jumps behind a taken frame finds the same run as the scan that tries
  every start.\<close>

lemma contiguous_scan_first:
  "contiguous_scan taken base skip frames n align start =
    find (\<lambda>k. (base + of_nat k * PAGE_SIZE) AND (align - 1) = 0 \<and> free_run taken (skip + k) n)
      [start..<Suc (frames - n)]"
proof (induction taken base skip frames n align start rule: contiguous_scan.induct)
  case (1 taken base skip frames n align start)
  let ?P = "\<lambda>k. (base + of_nat k * PAGE_SIZE) AND (align - 1) = 0 \<and> free_run taken (skip + k) n"
  show ?case
  proof (cases "start \<le> frames - n")
    case False
    then show ?thesis by (simp add: contiguous_scan.simps)
  next
    case True
    then have up: "[start..<Suc (frames - n)] = start # [Suc start..<Suc (frames - n)]"
      by (simp add: upt_conv_Cons del: upt_Suc)
    show ?thesis
    proof (cases "(base + of_nat start * PAGE_SIZE) AND (align - 1) = 0")
      case False
      then show ?thesis
        using True "1.IH"(1) up by (subst contiguous_scan.simps) (simp del: upt_Suc)
    next
      case al: True
      show ?thesis
      proof (cases "find (\<lambda>j. taken (skip + start + j)) [0..<n]")
        case None
        then have "free_run taken (skip + start) n"
          by (simp add: free_run_def list_all_iff find_None_iff)
        then show ?thesis
          using True al None up by (subst contiguous_scan.simps) (simp del: upt_Suc)
      next
        case (Some j)
        then have j: "j < n" "taken (skip + start + j)" by (auto simp: find_upt_Some_iff)
        have blocked: "\<not> ?P k" if "start \<le> k" "k < start + j + 1" for k
        proof
          assume "?P k"
          then have free: "\<forall>i\<in>{0..<n}. \<not> taken (skip + k + i)"
            by (simp add: free_run_def list_all_iff)
          have "\<not> taken (skip + k + (start + j - k))"
            by (rule bspec [OF free]) (use that j(1) in auto)
          moreover have "skip + k + (start + j - k) = skip + start + j" using that by simp
          ultimately show False using j(2) by simp
        qed
        have "find ?P [start..<Suc (frames - n)] = find ?P [start + j + 1..<Suc (frames - n)]"
          by (rule find_upt_skip) (use blocked in auto)
        then show ?thesis
          using True al Some "1.IH"(2) by (subst contiguous_scan.simps) (simp del: upt_Suc)
      qed
    qed
  qed
qed

lemma frames_of_append [simp]: "frames_of (xs @ ys) = frames_of xs + frames_of ys"
  by (simp add: frames_of_def)

lemma region_frame_address:
  assumes "regions_ok (xs @ (b, l) # ys)" and "frames_of (xs @ (b, l) # ys) * 4096 < 2 ^ 64"
    and "k < unat l div 4096"
  shows "phys_from_idx_loop (xs @ (b, l) # ys) (of_nat (frames_of xs + k) * PAGE_SIZE) =
    b + of_nat k * PAGE_SIZE"
  using assms
proof (induction xs)
  case Nil
  then have "unat (of_nat k * PAGE_SIZE :: u64) = k * 4096"
    by (intro unat_page_offset) (simp add: frames_unat)
  moreover have "k * 4096 < unat l" using Nil(3) by linarith
  ultimately have "of_nat k * PAGE_SIZE < l" by (simp add: word_less_nat_alt)
  then show ?case by simp
next
  case (Cons r xs)
  obtain b' l' where r: "r = (b', l')" by fastforce
  let ?f = "unat l' div 4096" and ?i = "frames_of (r # xs) + k"
  have l': "unat l' = ?f * 4096" using Cons.prems r by auto
  have sum: "?i * 4096 < 2 ^ 64"
    by (rule le_less_trans [OF _ Cons.prems(2)]) (use Cons.prems(3) in \<open>simp add: r frames_unat\<close>)
  have "unat (of_nat ?i * PAGE_SIZE :: u64) = ?i * 4096" using sum by (rule unat_page_offset)
  then have ge: "\<not> of_nat ?i * PAGE_SIZE < l'"
    using l' r by (simp add: word_less_nat_alt frames_unat)
  have d: "of_nat ?i * PAGE_SIZE - l' = of_nat (?i - ?f) * PAGE_SIZE"
    by (rule page_offset_diff) (use l' r in \<open>simp_all add: frames_unat\<close>)
  have "phys_from_idx_loop ((r # xs) @ (b, l) # ys) (of_nat ?i * PAGE_SIZE)
      = phys_from_idx_loop (xs @ (b, l) # ys) (of_nat (?i - ?f) * PAGE_SIZE)"
    using ge d unfolding r append_Cons phys_from_idx_loop.simps by simp
  also have "?i - ?f = frames_of xs + k" by (simp add: r frames_unat)
  also have "phys_from_idx_loop (xs @ (b, l) # ys) (of_nat (frames_of xs + k) * PAGE_SIZE) =
      b + of_nat k * PAGE_SIZE"
    using Cons.prems r by (intro Cons.IH) (auto simp: frames_unat)
  finally show ?case .
qed

text \<open>A run of \<open>n\<close> frames from frame \<open>k\<close> on was handed out at address \<open>p\<close>.\<close>

definition handed_out :: "phys_state \<Rightarrow> nat \<Rightarrow> u64 \<Rightarrow> nat \<Rightarrow> phys_state \<Rightarrow> bool" where
  "handed_out s n p k t = (k + n \<le> frame_count s \<and>
     (\<forall>j<n. status s (k + j) = Free \<and> phys_from_idx s (k + j) = p + of_nat j * PAGE_SIZE) \<and>
     phys_ok t \<and> same_layout s t \<and>
     status t = (\<lambda>j. if k \<le> j \<and> j < k + n then Held 1 else status s j))"

definition aligned_free_run :: "phys_state \<Rightarrow> nat \<Rightarrow> u64 \<Rightarrow> nat \<Rightarrow> region \<Rightarrow> nat \<Rightarrow> bool" where
  "aligned_free_run s n align skip r k =
     (k + n \<le> unat (snd r) div 4096 \<and> (fst r + of_nat k * PAGE_SIZE) AND (align - 1) = 0 \<and>
      (\<forall>j<n. status s (skip + k + j) = Free))"

lemma sum_frames_before:
  assumes "start \<le> r" and "r \<le> length regs"
  shows "(\<Sum>i \<leftarrow> [start..<r]. unat (snd (regs ! i) div PAGE_SIZE)) =
    frames_of (take (r - start) (drop start regs))"
proof -
  have "map ((!) regs) [start..<r] = take (r - start) (drop start regs)"
    using assms by (simp add: list_eq_iff_nth_eq)
  then have "map (\<lambda>p. unat (snd p div PAGE_SIZE)) (map ((!) regs) [start..<r]) =
      map (\<lambda>p. unat (snd p div PAGE_SIZE)) (take (r - start) (drop start regs))"
    by (rule arg_cong)
  then show ?thesis unfolding frames_of_def case_prod_unfold map_map comp_def by (rule arg_cong)
qed

lemma managed_split:
  assumes "alloc_start_region s \<le> r" and "r < length (regions s)"
  shows "managed s = take (r - alloc_start_region s) (managed s) @ regions s ! r #
    drop (Suc r) (regions s)"
  using assms id_take_nth_drop [of "r - alloc_start_region s" "managed s"]
  by (simp add: managed_def)

lemma contiguous_in_region_effect:
  assumes ok: "phys_ok s" and n: "n \<noteq> 0" and al: "is_pow2_u64 align" "align mod PAGE_SIZE = 0"
    and sp: "managed s = xs @ (b, l) # ys"
    and r: "alloc_start_region s \<le> r" "regions s ! r = (b, l)"
      "(\<Sum>i \<leftarrow> [alloc_start_region s..<r]. unat (snd (regions s ! i) div PAGE_SIZE)) = frames_of xs"
    and run: "phys_alloc_contiguous_in_region r n align s = (p, t)"
  shows "p = 0 \<and> t = s \<and> (\<forall>k. \<not> aligned_free_run s n align (frames_of xs) (b, l) k) \<or>
    p \<noteq> 0 \<and> p AND (align - 1) = 0 \<and> (\<exists>k. handed_out s n p k t)"
proof -
  let ?f = "unat l div 4096" and ?skip = "frames_of xs"
  let ?scan = "contiguous_scan (frame_taken s) b ?skip ?f n align 0"
  have free: "free_run (frame_taken s) k n = (\<forall>j<n. status s (k + j) = Free)" for k
    by (simp add: free_run_def list_all_iff status_free_iff Ball_def)
  have code: "(p, t) = (if ?f < n then (0, s) else case ?scan of None \<Rightarrow> (0, s)
      | Some k \<Rightarrow> (b + of_nat k * PAGE_SIZE, mark_frames 1 [?skip + k..<?skip + k + n] s))"
    unfolding run [symmetric]
    using n al r by (simp add: phys_alloc_contiguous_in_region_def frames_unat Let_def)
  have fc: "frame_count s = ?skip + ?f + frames_of ys" and lay: "layout_ok s"
    using ok sp by (simp_all add: phys_ok_def layout_ok_def frames_unat)
  have addr: "phys_from_idx s (?skip + k) = b + of_nat k * PAGE_SIZE" if "k < ?f" for k
    using region_frame_address [of xs b l ys k] lay that sp
    by (simp add: layout_ok_def phys_from_idx_def)
  show ?thesis
  proof (cases "\<not> ?f < n \<and> ?scan \<noteq> None")
    case False
    then have "p = 0 \<and> t = s" using code by (auto split: if_splits)
    moreover have "\<not> aligned_free_run s n align ?skip (b, l) k" for k
      using False by (auto simp: aligned_free_run_def contiguous_scan_first find_upt_None_iff free
          add.assoc simp del: upt_Suc)
    ultimately show ?thesis by blast
  next
    case True
    then obtain k where k: "?scan = Some k" by blast
    then have k': "k + n \<le> ?f" "(b + of_nat k * PAGE_SIZE) AND (align - 1) = 0"
      "\<forall>j<n. status s (?skip + k + j) = Free"
      using True by (auto simp: contiguous_scan_first find_upt_Some_iff free simp del: upt_Suc)
    have p: "p = b + of_nat k * PAGE_SIZE" and t: "t = mark_frames 1 [?skip + k..<?skip + k + n] s"
      using code k True by auto
    have "p \<noteq> 0"
      using phys_from_idx_nonzero [OF lay, of "?skip + k"] addr [of k] k'(1) n fc p by simp
    moreover have "phys_from_idx s (?skip + k + j) = p + of_nat j * PAGE_SIZE" if "j < n" for j
      using addr [of "k + j"] that k'(1) by (simp add: p algebra_simps)
    moreover have "phys_ok t \<and> same_layout s t \<and>
        status t = (\<lambda>j. if ?skip + k \<le> j \<and> j < ?skip + k + n then Held 1 else status s j)"
      using mark_frames_run [OF ok _ t] k'(1) fc by (auto simp: fun_eq_iff)
    ultimately show ?thesis
      using k' p fc by (auto simp: handed_out_def intro!: exI [of _ "?skip + k"])
  qed
qed

lemma contiguous_regions_effect:
  assumes ok: "phys_ok s" and n: "n \<noteq> 0" and al: "is_pow2_u64 align" "align mod PAGE_SIZE = 0"
    and r: "alloc_start_region s \<le> r"
    and run: "contiguous_regions [r..<length (regions s)] n align s = (p, t)"
  shows "p = 0 \<and> t = s \<and> (\<forall>i k. r \<le> i \<and> i < length (regions s) \<longrightarrow>
      \<not> aligned_free_run s n align (frames_of (take (i - alloc_start_region s) (managed s)))
        (regions s ! i) k) \<or>
    p \<noteq> 0 \<and> p AND (align - 1) = 0 \<and> (\<exists>k. handed_out s n p k t)"
  using r run
proof (induction "length (regions s) - r" arbitrary: r)
  case 0
  then show ?case by auto
next
  case (Suc d)
  let ?xs = "take (r - alloc_start_region s) (managed s)"
  have rl: "r < length (regions s)" using Suc.hyps by simp
  obtain b l where bl: "regions s ! r = (b, l)" by fastforce
  obtain p' t' where one: "phys_alloc_contiguous_in_region r n align s = (p', t')" by fastforce
  have sp: "managed s = ?xs @ (b, l) # drop (Suc r) (regions s)"
    using managed_split [OF Suc.prems(1) rl] bl by simp
  have "(\<Sum>i \<leftarrow> [alloc_start_region s..<r]. unat (snd (regions s ! i) div PAGE_SIZE)) = frames_of ?xs"
    using sum_frames_before [OF Suc.prems(1)] rl by (simp add: managed_def)
  note eff = contiguous_in_region_effect [OF ok n al sp Suc.prems(1) bl this one]
  have up: "[r..<length (regions s)] = r # [Suc r..<length (regions s)]"
    using rl by (rule upt_conv_Cons)
  show ?case
  proof (cases "p' = 0")
    case False
    then show ?thesis using eff one up Suc.prems(2) by simp
  next
    case True
    then have t': "t' = s" and no: "\<forall>k. \<not> aligned_free_run s n align (frames_of ?xs) (b, l) k"
      using eff by blast+
    have "contiguous_regions [Suc r..<length (regions s)] n align s = (p, t)"
      using Suc.prems(2) up one True t' by simp
    moreover have "d = length (regions s) - Suc r" "alloc_start_region s \<le> Suc r"
      using Suc.hyps(2) Suc.prems(1) by simp_all
    ultimately have IH: "p = 0 \<and> t = s \<and> (\<forall>i k. Suc r \<le> i \<and> i < length (regions s) \<longrightarrow>
      \<not> aligned_free_run s n align (frames_of (take (i - alloc_start_region s) (managed s)))
        (regions s ! i) k) \<or>
    p \<noteq> 0 \<and> p AND (align - 1) = 0 \<and> (\<exists>k. handed_out s n p k t)"
      by (rule Suc.hyps(1) [rotated 2])
    have "r \<le> i \<Longrightarrow> i = r \<or> Suc r \<le> i" for i by auto
    then show ?thesis using IH no bl by metis
  qed
qed

lemma phys_alloc_contiguous_aligned_effect:
  assumes ok: "phys_ok s"
    and run: "phys_alloc_contiguous_aligned n align s = (p, t)"
  shows "p = 0 \<and> t = s \<or> p AND ((if align = 0 then PAGE_SIZE else align) - 1) = 0 \<and> (\<exists>k. handed_out s n p k t)"
proof (cases "p = 0 \<and> t = s")
  case False
  let ?al = "if align = 0 then PAGE_SIZE else align"
  have "n \<noteq> 0" "is_pow2_u64 ?al" "?al mod PAGE_SIZE = 0"
    "contiguous_regions [alloc_start_region s..<length (regions s)] n ?al s = (p, t)"
    using run False by (auto simp: phys_alloc_contiguous_aligned_def Let_def split: if_splits)
  from contiguous_regions_effect [OF ok this(1-3) order.refl this(4)] False show ?thesis by blast
qed simp

section \<open>Sequences of operations\<close>

datatype phys_op =
    AllocFrame
  | AllocBelow u64
  | AllocRun nat u64
  | FreeFrame u64
  | RefInc u64
  | RefDec u64
  | Reserve u64 u64

text \<open>The result of a call: the address handed out (0 for none) and the number of frames.\<close>

fun phys_step :: "phys_op \<Rightarrow> phys_state \<Rightarrow> (u64 \<times> nat) \<times> phys_state" where
  "phys_step AllocFrame s = (let (p, t) = phys_alloc_frame s in ((p, 1), t))"
| "phys_step (AllocBelow m) s = (let (p, t) = phys_alloc_frame_below m s in ((p, 1), t))"
| "phys_step (AllocRun n align) s = (let (p, t) = phys_alloc_contiguous_aligned n align s in ((p, n), t))"
| "phys_step (FreeFrame p) s = ((0, 0), phys_free_frame p s)"
| "phys_step (RefInc p) s = ((0, 0), phys_ref_inc p s)"
| "phys_step (RefDec p) s = ((0, 0), phys_ref_dec p s)"
| "phys_step (Reserve p len) s = ((0, 0), phys_reserve_range p len s)"

fun phys_run :: "phys_op list \<Rightarrow> phys_state \<Rightarrow> (u64 \<times> nat) list \<times> phys_state" where
  "phys_run [] s = ([], s)"
| "phys_run (c # cs) s =
     (let (r, t) = phys_step c s; (rs, u) = phys_run cs t in (r # rs, u))"

fun releases :: "phys_state \<Rightarrow> nat \<Rightarrow> phys_op \<Rightarrow> bool" where
  "releases s i (FreeFrame p) = (idx_from_phys s p = Some i)"
| "releases s i (RefDec p) = (idx_from_phys s p = Some i)"
| "releases s i _ = False"

definition hands_out :: "phys_state \<Rightarrow> nat \<Rightarrow> u64 \<times> nat \<Rightarrow> bool" where
  "hands_out s i r = (fst r \<noteq> 0 \<and>
     list_ex (\<lambda>j. idx_from_phys s (fst r + of_nat j * PAGE_SIZE) = Some i) [0..<snd r])"

text \<open>A frame that stays allocated through \<open>k\<close> releases.\<close>

fun survives :: "nat \<Rightarrow> frame_status \<Rightarrow> bool" where
  "survives k Free = False"
| "survives k (Held n) = (k < n)"
| "survives k Pinned = True"

lemma survives_release: "survives (Suc k) st \<Longrightarrow> survives k (release st)"
  by (cases st) auto

lemma survives_mono: "survives (Suc k) st \<Longrightarrow> survives k st"
  by (cases st) auto

lemma releases_cong:
  "idx_from_phys t = idx_from_phys s \<Longrightarrow> releases t i c = releases s i c"
  by (cases c) simp_all

lemma survives_retain: "survives k st \<Longrightarrow> survives k (retain st)"
  by (cases st) auto

lemma handed_out_hands_out:
  assumes "phys_ok s" and "handed_out s n p k t" and "hands_out s i (p, n)"
  shows "status s i = Free"
proof -
  obtain j where j: "j < n" "idx_from_phys s (p + of_nat j * PAGE_SIZE) = Some i"
    using assms(3) by (auto simp: hands_out_def list_ex_iff)
  have kj: "phys_from_idx s (k + j) = p + of_nat j * PAGE_SIZE" "k + j < frame_count s"
      "status s (k + j) = Free"
    using assms(2) j(1) by (auto simp: handed_out_def)
  have "idx_from_phys s (p + of_nat j * PAGE_SIZE) = Some (k + j)"
    using idx_phys_roundtrip [of s "k + j"] kj assms(1) by (simp add: phys_ok_def)
  then show ?thesis using j(2) kj(3) by simp
qed

lemma handed_out_one:
  assumes "i < frame_count s" "status s i = Free" "phys_ok t" "same_layout s t"
    "status t = (status s)(i := Held 1)"
  shows "handed_out s 1 (phys_from_idx s i) i t"
  using assms by (auto simp: handed_out_def fun_eq_iff)

lemma phys_step_alloc:
  assumes ok: "phys_ok s" and step: "phys_step c s = ((p, n), t)"
    and c: "c = AllocFrame \<or> (\<exists>m. c = AllocBelow m) \<or> (\<exists>n align. c = AllocRun n align)"
  shows "p = 0 \<and> t = s \<or> (\<exists>k. handed_out s n p k t)"
  using c
proof (elim disjE exE)
  assume "c = AllocFrame"
  then show ?thesis
    using step phys_alloc_frame_effect [OF ok, of p t] handed_out_one
    by (fastforce simp: case_prod_unfold Let_def prod_eq_iff)
next
  fix m
  assume "c = AllocBelow m"
  then show ?thesis
    using step phys_alloc_frame_below_effect [OF ok, of m p t] handed_out_one
    by (fastforce simp: case_prod_unfold Let_def prod_eq_iff)
next
  fix m align
  assume "c = AllocRun m align"
  then show ?thesis
    using step phys_alloc_contiguous_aligned_effect [OF ok, of m align p t]
    by (fastforce simp: case_prod_unfold Let_def prod_eq_iff)
qed

lemma phys_reserve_range_any:
  assumes ok: "phys_ok s"
  shows "phys_ok (phys_reserve_range p len s) \<and> same_layout s (phys_reserve_range p len s) \<and>
    (\<forall>k. status (phys_reserve_range p len s) k \<in> {Pinned, status s k})"
proof -
  have "phys_reserve_range p len s = s \<or>
      (\<exists>i j. phys_reserve_range p len s = mark_frames PINNED [i..<min j (frame_count s)] s)"
    by (cases "idx_from_phys s p") (auto simp: phys_reserve_range_def Let_def)
  then consider "phys_reserve_range p len s = s"
    | i j where "phys_reserve_range p len s = mark_frames PINNED [i..<min j (frame_count s)] s"
    by blast
  then show ?thesis
  proof cases
    case 1
    then show ?thesis using ok by simp
  next
    case 2
    show ?thesis
    proof (cases "i \<le> min j (frame_count s)")
      case True
      have "phys_reserve_range p len s = mark_frames PINNED [i..<i + (min j (frame_count s) - i)] s"
        using 2 True by simp
      from mark_frames_run [OF ok _ this] True show ?thesis by auto
    next
      case False
      then have "[i..<min j (frame_count s)] = []" by (intro upt_conv_Nil) linarith
      with 2 have "phys_reserve_range p len s = s" by (simp only: mark_frames_Nil)
      then show ?thesis using ok by simp
    qed
  qed
qed

lemma phys_free_frame_any:
  assumes "phys_ok s"
  shows "phys_ok (phys_free_frame p s) \<and> same_layout s (phys_free_frame p s) \<and>
    (\<forall>i. status (phys_free_frame p s) i =
      (if p \<noteq> 0 \<and> idx_from_phys s p = Some i then release (status s i) else status s i))"
proof (cases "p = 0 \<or> idx_from_phys s p = None")
  case True
  then have "phys_free_frame p s = s" by (auto simp: phys_free_frame_def split: option.splits)
  then show ?thesis using True assms by auto
next
  case False
  then obtain i where "idx_from_phys s p = Some i" by auto
  then show ?thesis using False phys_free_frame_effect [OF assms, of p i] by auto
qed

lemma phys_ref_inc_any:
  assumes "phys_ok s"
  shows "phys_ok (phys_ref_inc p s) \<and> same_layout s (phys_ref_inc p s) \<and>
    (\<forall>i. status (phys_ref_inc p s) i =
      (if p \<noteq> 0 \<and> idx_from_phys s p = Some i then retain (status s i) else status s i))"
proof (cases "p = 0 \<or> idx_from_phys s p = None")
  case True
  then have "phys_ref_inc p s = s" by (auto simp: phys_ref_inc_def split: option.splits)
  then show ?thesis using True assms by auto
next
  case False
  then obtain i where "idx_from_phys s p = Some i" by auto
  then show ?thesis using False phys_ref_inc_effect [OF assms, of p i] by auto
qed

lemma phys_step_survives:
  assumes ok: "phys_ok s" and step: "phys_step c s = (r, t)"
    and alive: "survives (k + (if releases s i c then 1 else 0)) (status s i)"
  shows "phys_ok t \<and> same_layout s t \<and> survives k (status t i) \<and> \<not> hands_out s i r"
proof -
  have rel: "phys_ok t \<and> same_layout s t \<and> survives k (status t i) \<and> \<not> hands_out s i r"
    if "t = phys_free_frame p s" "r = (0, 0)" "releases s i c = (idx_from_phys s p = Some i)" for p
    using phys_free_frame_any [OF ok, of p] that alive
    by (auto simp: hands_out_def survives_release split: if_splits intro: survives_mono)
  have alloc: "phys_ok t \<and> same_layout s t \<and> survives k (status t i) \<and> \<not> hands_out s i r"
    if c: "c = AllocFrame \<or> (\<exists>m. c = AllocBelow m) \<or> (\<exists>n align. c = AllocRun n align)"
  proof -
    obtain p n where r: "r = (p, n)" by fastforce
    have k: "survives k (status s i)" using alive c by (auto split: if_splits)
    from phys_step_alloc [OF ok step [unfolded r] c] show ?thesis
    proof (elim disjE exE conjE)
      fix j
      assume h: "handed_out s n p j t"
      have no: "\<not> hands_out s i r"
        using handed_out_hands_out [OF ok h] r k by auto
      have "\<not> (j \<le> i \<and> i < j + n)"
        using h k by (auto simp: handed_out_def dest: spec [of _ "i - j"])
      then show ?thesis using h k no by (auto simp: handed_out_def)
    qed (use ok k r in \<open>simp add: hands_out_def\<close>)
  qed
  show ?thesis
  proof (cases c)
    case (FreeFrame p)
    then show ?thesis using step by (intro rel [of p]) simp_all
  next
    case (RefDec p)
    then show ?thesis using step by (intro rel [of p]) (simp_all add: phys_ref_dec_def)
  next
    case (RefInc p)
    then show ?thesis
      using step alive phys_ref_inc_any [OF ok, of p] by (auto simp: hands_out_def survives_retain)
  next
    case (Reserve p len)
    then have t: "t = phys_reserve_range p len s" and r: "r = (0, 0)" using step by auto
    note any = phys_reserve_range_any [OF ok, of p len, folded t]
    then have "status t i \<in> {Pinned, status s i}" by blast
    moreover have "survives k (status s i)" using alive Reserve by simp
    ultimately have "survives k (status t i)" by (elim insertE) auto
    then show ?thesis using any r by (simp add: hands_out_def)
  qed (use alloc in auto)
qed

lemma phys_run_survives:
  assumes "phys_ok s" and "phys_run cs s = (rs, t)"
    and "survives (k + length (filter (releases s i) cs)) (status s i)"
  shows "phys_ok t \<and> same_layout s t \<and> survives k (status t i) \<and> list_all (\<lambda>r. \<not> hands_out s i r) rs"
  using assms
proof (induction cs arbitrary: s rs)
  case (Cons c cs)
  obtain r u where step: "phys_step c s = (r, u)" by fastforce
  obtain rs' where rest: "phys_run cs u = (rs', t)" "rs = r # rs'"
    using Cons.prems(2) step by (auto simp: Let_def split: prod.splits)
  have "survives ((k + length (filter (releases s i) cs)) + (if releases s i c then 1 else 0))
      (status s i)"
    using Cons.prems(3) by (cases "releases s i c") simp_all
  note one = phys_step_survives [OF Cons.prems(1) step this]
  have same: "releases u i = releases s i" "hands_out u i = hands_out s i"
    using same_layout_translation(1) one
    by (auto simp: fun_eq_iff hands_out_def intro!: releases_cong)
  from Cons.IH [OF _ rest(1)] one same show ?case
    using rest(2) same_layout_trans by auto
qed simp

section \<open>Initialisation\<close>

lemma page_aligned_bits: "unat (x::u64) mod 4096 = 0 \<longleftrightarrow> take_bit 12 x = 0"
proof -
  have "unat (take_bit 12 x) = unat x mod 4096"
    by (simp add: take_bit_eq_mod unat_word_mod)
  then show ?thesis by (metis unat_eq_0)
qed

lemma page_mask: "(PAGE_SIZE - 1 :: u64) = mask 12"
  by (simp add: mask_eq_exp_minus_1)

lemma page_up_aligned: "unat (page_up x) mod 4096 = 0"
  unfolding page_aligned_bits page_up_def page_mask
  by (rule bit_eqI) (auto simp: bit_simps)

lemma page_up_id:
  assumes "unat x mod 4096 = 0"
  shows "page_up x = x"
proof -
  have low: "\<not> bit x n" if "n < 12" for n
    using assms that unfolding page_aligned_bits
    by (metis bit_0_eq bit_take_bit_iff bot_apply bot_bool_def)
  have "x + mask 12 = x OR mask 12"
    by (rule disjunctive_add) (use low in \<open>auto simp: bit_simps\<close>)
  moreover have "(x OR mask 12) AND NOT (mask 12) = x"
    by (rule bit_eqI) (use low in \<open>auto simp: bit_simps dest: bit_imp_le_length\<close>)
  moreover have "page_up x = (x + mask 12) AND NOT (mask 12)"
    by (simp only: page_up_def page_mask [symmetric]) (simp add: algebra_simps)
  ultimately show ?thesis by simp
qed

lemma image_end_aligned: "unat (image_end a b) mod 4096 = 0"
  by (simp add: image_end_def page_up_aligned)

lemma meta_candidate_aligned:
  assumes "unat base mod 4096 = 0" and "unat m mod 4096 = 0"
  shows "unat (meta_candidate m base) mod 4096 = 0"
    and "m \<le> meta_candidate m base" and "base \<le> meta_candidate m base"
  using assms
  by (auto simp: meta_candidate_def Let_def page_up_id not_less)

text \<open>The tables before anything is reserved.\<close>

definition blank_state :: "region list \<Rightarrow> nat \<Rightarrow> phys_state" where
  "blank_state regs start = (let fc = frames_of (drop start regs) in
     \<lparr>regions = regs, alloc_start_region = start, bitmap = Some (replicate ((fc + 7) div 8) 0),
      refcnt = Some (replicate fc 0), frame_count = fc\<rparr>)"

lemma blank_state_ok:
  assumes "regions_ok (drop start regs)" and "frames_of (drop start regs) * 4096 < 2 ^ 64"
  shows "phys_ok (blank_state regs start)"
  using assms by (simp add: phys_ok_def layout_ok_def tables_ok_def blank_state_def managed_def Let_def)

lemma pin_more:
  assumes "phys_ok s" and "t = mark_frames PINNED [a..<b] s" and "b \<le> frame_count s"
  shows "phys_ok t \<and> same_layout s t \<and> (\<forall>i. a \<le> i \<and> i < b \<or> status s i = Pinned \<longrightarrow> status t i = Pinned)"
proof (cases "a \<le> b")
  case True
  then have "t = mark_frames PINNED [a..<a + (b - a)] s" using assms(2) by simp
  from mark_frames_run [OF assms(1) _ this] True assms(3) show ?thesis by auto
next
  case False
  then have "t = s" using assms(2) by simp
  then show ?thesis using False assms(1) by auto
qed

lemma set_bit_keeps_pinned:
  assumes "phys_ok s" and "v < frame_count s"
    and "t = s\<lparr>bitmap := map_option (\<lambda>bm. bm_set bm v) (bitmap s)\<rparr>"
  shows "phys_ok t \<and> same_layout s t \<and> (\<forall>i. status s i = Pinned \<longrightarrow> status t i = Pinned)"
proof -
  obtain bm rc where b: "bitmap s = Some bm" "refcnt s = Some rc"
    "length bm = (frame_count s + 7) div 8" "length rc = frame_count s"
    using assms(1) tables_okE unfolding phys_ok_def by blast
  have v: "v div 8 < length bm" using b(3) assms(2) by linarith
  have "same_layout s t" "tables_ok t"
    using assms(3) b by (simp_all add: same_layout_def tables_ok_def)
  then have ok: "phys_ok t" using phys_ok_same_layout [OF assms(1)] by blast
  have "status s i = Pinned \<longrightarrow> status t i = Pinned" for i
    using assms(3) b v by (auto simp: status_def frame_taken_def frame_refs_def bm_test_set)
  then show ?thesis using ok \<open>same_layout s t\<close> by blast
qed

lemma phys_init_pins:
  assumes place: "meta_location (image_end be ke) (take MAX_REGIONS usable) = (start, loc)"
    and regs: "regs = take MAX_REGIONS usable"
    and lay: "regions_ok (drop start regs)" "frames_of (drop start regs) * 4096 < 2 ^ 64"
    and fc: "fc = frames_of (drop start regs)"
    and base: "base = fst (region_at regs start)"
  shows "phys_ok (phys_init be ke mem usable) \<and>
    same_layout (blank_state regs start) (phys_init be ke mem usable) \<and>
    (\<forall>i<fc. (\<exists>b. idx_from_phys (blank_state regs start) loc = Some b \<and> b \<le> i \<and> i < b + meta_frames fc) \<or>
         base < image_end be ke \<and> i < unat ((image_end be ke - base) div PAGE_SIZE) \<or>
         start = 0 \<and> i < 256
       \<longrightarrow> status (phys_init be ke mem usable) i = Pinned)"
proof -
  let ?s0 = "blank_state regs start" and ?m = "image_end be ke"
  define s1 where "s1 = (case idx_from_phys ?s0 loc of None \<Rightarrow> ?s0
    | Some b \<Rightarrow> mark_frames PINNED [b..<min (b + meta_frames fc) fc] ?s0)"
  define s2 where "s2 = (if ?m > base
    then mark_frames PINNED [0..<min (unat ((?m - base) div PAGE_SIZE)) fc] s1 else s1)"
  define s3 where "s3 = (if start = 0 then mark_frames PINNED [0..<min 256 fc] s2 else s2)"
  define t where "t = phys_init be ke mem usable"
  have t: "t = (case idx_from_phys s3 0xB8000 of None \<Rightarrow> s3
    | Some v \<Rightarrow> if v < fc then s3\<lparr>bitmap := map_option (\<lambda>bm. bm_set bm v) (bitmap s3)\<rparr> else s3)"
    using place regs
    by (simp add: t_def phys_init_def s1_def s2_def s3_def blank_state_def Let_def
        frames_of_def fc base cong: if_cong option.case_cong)
  have ok0: "phys_ok ?s0" using lay by (rule blank_state_ok)
  have f0: "frame_count ?s0 = fc" by (simp add: blank_state_def fc Let_def)
  have 1: "phys_ok s1 \<and> same_layout ?s0 s1 \<and> (\<forall>i<fc. (\<exists>b. idx_from_phys ?s0 loc = Some b \<and> b \<le> i \<and>
      i < b + meta_frames fc) \<longrightarrow> status s1 i = Pinned)"
    using pin_more [OF ok0 refl] ok0 f0 by (auto simp: s1_def split: option.splits)
  have f1: "frame_count s1 = fc" using 1 f0 by (simp add: same_layout_def)
  have 2: "phys_ok s2 \<and> same_layout s1 s2 \<and> (\<forall>i<fc. status s1 i = Pinned \<or>
      base < ?m \<and> i < unat ((?m - base) div PAGE_SIZE) \<longrightarrow> status s2 i = Pinned)"
    using pin_more [of s1 _ 0 "min (unat ((?m - base) div PAGE_SIZE)) fc", OF _ refl] 1 f1
    by (auto simp: s2_def)
  have f2: "frame_count s2 = fc" using 2 f1 by (simp add: same_layout_def)
  have 3: "phys_ok s3 \<and> same_layout s2 s3 \<and> (\<forall>i<fc. status s2 i = Pinned \<or> start = 0 \<and> i < 256
      \<longrightarrow> status s3 i = Pinned)"
    using pin_more [of s2 _ 0 "min 256 fc", OF _ refl] 2 f2 by (auto simp: s3_def)
  have f3: "frame_count s3 = fc" using 3 f2 by (simp add: same_layout_def)
  have 4: "phys_ok t \<and> same_layout s3 t \<and> (\<forall>i. status s3 i = Pinned \<longrightarrow> status t i = Pinned)"
    using set_bit_keeps_pinned [of s3 _ t] 3 f3 unfolding t by (auto split: option.splits)
  have "same_layout ?s0 t"
    using 1 2 3 4 by (simp add: same_layout_def)
  then show ?thesis
    unfolding t_def [symmetric] using 1 2 3 4 by blast
qed

fun ascending :: "region list \<Rightarrow> bool" where
  "ascending [] = True"
| "ascending ((b, l) # rs) = (list_all (\<lambda>(b', l'). unat b + unat l \<le> unat b') rs \<and> ascending rs)"

lemma ascending_drop: "ascending rs \<Longrightarrow> ascending (drop n rs)"
proof (induction rs arbitrary: n)
  case (Cons r rs)
  then show ?case by (cases r; cases n) auto
qed simp

lemma frame_in_first_region:
  assumes "regions_ok ((b, l) # rs)" and "frames_of ((b, l) # rs) * 4096 < 2 ^ 64"
    and "ascending ((b, l) # rs)" and "i < frames_of ((b, l) # rs)"
    and a: "a = phys_from_idx_loop ((b, l) # rs) (of_nat i * PAGE_SIZE)" "unat a < unat b + unat l"
  shows "i < unat l div 4096" and "unat a = unat b + i * 4096"
proof -
  let ?f = "unat l div 4096"
  have l: "unat l = ?f * 4096" and ok: "unat b + unat l < 2 ^ 64" using assms(1) by auto
  have off: "unat (of_nat i * PAGE_SIZE :: u64) = i * 4096"
  proof (rule unat_page_offset)
    have "i * 4096 \<le> frames_of ((b, l) # rs) * 4096" using assms(4) by simp
    with assms(2) show "i * 4096 < 2 ^ 64" by (rule le_less_trans [rotated])
  qed
  show i: "i < ?f"
  proof (rule ccontr)
    assume "\<not> i < ?f"
    then have ge: "\<not> of_nat i * PAGE_SIZE < l" and fi: "?f \<le> i"
      using off l by (simp_all add: word_less_nat_alt)
    have "a = phys_from_idx_loop rs (of_nat (i - ?f) * PAGE_SIZE)"
      using ge a(1) page_offset_diff [OF fi l] by simp
    moreover have "\<exists>r\<in>set rs. in_region (phys_from_idx_loop rs (of_nat (i - ?f) * PAGE_SIZE)) r"
      by (rule phys_from_idx_loop_in_region)
        (use assms(1,2,4) fi in \<open>auto simp: frames_unat\<close>)
    ultimately obtain r where "r \<in> set rs" "in_region a r" by metis
    then have "unat b + unat l \<le> unat a"
      using assms(3) by (fastforce simp: list_all_iff in_region_def)
    then show False using a(2) by simp
  qed
  then have "i * 4096 < unat l" using l by linarith
  then have "a = b + of_nat i * PAGE_SIZE"
    using a(1) off by (simp add: word_less_nat_alt)
  then show "unat a = unat b + i * 4096"
    using off ok \<open>i * 4096 < unat l\<close> by (simp add: unat_word_ariths)
qed

lemma idx_from_phys_first_region:
  assumes "unat b + unat l < 2 ^ 64" and "unat a = unat b + k * 4096" and "k * 4096 < unat l"
  shows "idx_from_phys_loop ((b, l) # rs) 0 a = Some k"
proof -
  have "in_region a (b, l)" using assms by (simp add: in_region_def)
  then have "a \<ge> b \<and> a < b + l" using in_region_code [OF assms(1)] by blast
  moreover have "unat (a - b) = k * 4096"
    using assms(2) by (simp add: unat_sub word_le_nat_alt)
  ultimately show ?thesis by (simp add: unat_div_distrib)
qed

lemma meta_location_found:
  assumes "find (\<lambda>i. meta_fits m (regs ! i)) [0..<length regs] = Some start"
    and "unat (fst (regs ! start)) mod 4096 = 0" and "unat m mod 4096 = 0"
  shows "meta_location m regs = (start, meta_candidate m (fst (regs ! start)))"
proof -
  have "meta_candidate m (fst (regs ! start)) \<noteq> 0"
    using assms(2,3) by (auto simp: meta_candidate_def Let_def page_up_id not_less)
  then show ?thesis using assms(1) by (simp add: meta_location_def Let_def)
qed

lemma meta_frames_pos:
  assumes "i < fc"
  shows "1 \<le> meta_frames fc"
proof -
  have "4096 \<le> (fc + 7) div 8 + fc * 4 + 4095" using assms by linarith
  then show ?thesis using div_le_mono [of 4096 _ 4096] by (simp add: meta_frames_def)
qed

lemma page_index_less:
  assumes "b + i * 4096 < (m::nat)" and "m mod 4096 = 0" and "b mod 4096 = 0"
  shows "i < (m - b) div 4096"
proof -
  obtain x y where "m = 4096 * x" "b = 4096 * y" using assms(2,3) by (metis mod_0_imp_dvd dvdE)
  then show ?thesis using assms(1) by (simp flip: diff_mult_distrib2)
qed

lemma phys_init_protected_frame:
  assumes regs: "regs = take MAX_REGIONS usable"
    and room: "find (\<lambda>i. meta_fits (image_end be ke) (regs ! i)) [0..<length regs] = Some start"
    and start: "drop start regs = (base, len) # rs"
    and lay: "regions_ok ((base, len) # rs)" "frames_of ((base, len) # rs) * 4096 < 2 ^ 64"
      "ascending ((base, len) # rs)"
    and loc: "loc = meta_candidate (image_end be ke) base"
    and fit: "unat loc + meta_frames (frames_of ((base, len) # rs)) * 4096 \<le> unat base + unat len"
    and t: "t = phys_init be ke mem usable"
    and i: "i < frame_count t" and a: "a = phys_from_idx t i"
    and prot: "unat a < unat (image_end be ke) \<or>
      unat loc \<le> unat a \<and> unat a < unat loc + meta_frames (frame_count t) * 4096"
  shows "phys_ok t" and "status t i = Pinned"
proof -
  let ?m = "image_end be ke" and ?fc = "frames_of ((base, len) # rs)"
  have sl: "start < length regs" using room by (auto simp: find_upt_Some_iff)
  then have nth: "regs ! start = (base, len)" using start by (metis Cons_nth_drop_Suc list.inject)
  have b0: "unat base mod 4096 = 0" "unat base + unat len < 2 ^ 64" using lay(1) by auto
  note ma = image_end_aligned [of be ke]
  have mloc: "meta_location ?m (take MAX_REGIONS usable) = (start, loc)"
    using meta_location_found [OF room _ ma] nth b0 loc regs by simp
  note cand = meta_candidate_aligned [OF b0(1) ma, folded loc]
  note pins = phys_init_pins [OF mloc regs _ _ _ refl, of ?fc mem, folded t, unfolded start, OF lay(1,2) refl]
  then show "phys_ok t" by blast
  have same: "same_layout (blank_state regs start) t" using pins by blast
  then have fc: "frame_count t = ?fc" and mg: "managed t = (base, len) # rs"
    using start by (simp_all add: same_layout_def blank_state_def managed_def Let_def)
  have a': "a = phys_from_idx_loop ((base, len) # rs) (of_nat i * PAGE_SIZE)"
    using a mg by (simp add: phys_from_idx_def)
  have mle: "unat ?m \<le> unat loc" "unat base \<le> unat loc"
    using cand by (simp_all add: word_le_nat_alt)
  have i': "i < ?fc" using i fc by simp
  have room2: "unat loc < unat base + unat len"
    using fit meta_frames_pos [OF i'] by linarith
  have alt: "unat a < unat base + unat len"
    using prot fit room2 mle unfolding fc by (elim disjE conjE) linarith+
  note first = frame_in_first_region [OF lay i' a' alt]
  have base_fst: "fst (region_at regs start) = base" using sl nth by (simp add: region_at_def)
  show "status t i = Pinned"
  proof (cases "unat a < unat ?m")
    case True
    then have "unat base < unat ?m" using first(2) by linarith
    moreover have "unat (?m - base) = unat ?m - unat base"
      using \<open>unat base < unat ?m\<close> by (simp add: unat_sub word_le_nat_alt)
    moreover have "i < (unat ?m - unat base) div 4096"
      using page_index_less [OF _ ma b0(1)] True first(2) by simp
    ultimately have "base < ?m \<and> i < unat ((?m - base) div PAGE_SIZE)"
      by (simp add: word_less_nat_alt unat_div_distrib)
    then show ?thesis using pins i' base_fst by blast
  next
    case False
    define k where "k = (unat loc - unat base) div 4096"
    have k: "unat loc = unat base + k * 4096"
      using page_align_sub [of "unat base" "unat loc"] mle(2) cand(1) b0(1) unfolding k_def
      by (metis div_mult_mod_eq add_0_right)
    have "k * 4096 < unat len" using k room2 by linarith
    then have "idx_from_phys (blank_state regs start) loc = Some k"
      using idx_from_phys_first_region [OF b0(2) k] start
      by (simp add: idx_from_phys_def managed_def blank_state_def Let_def)
    moreover have "k \<le> i" "i < k + meta_frames ?fc"
      using prot False first(2) k unfolding fc by (auto simp del: frames_of_simps)
    ultimately show ?thesis using pins i' by blast
  qed
qed

end
