(* ===== verification/Phys_Correct.thy ===== *)
theory Phys_Correct
  imports Phys_Props
begin

text \<open>
  The properties of the frame allocator, over the abstract state of a frame: what an
  allocation returns, that no sequence of calls hands out a frame that is still held, that
  contiguous allocation finds a run exactly when there is one, reference counting, and what
  initialisation protects.
\<close>

lemma fold_count:
  "fold (\<lambda>i c. if P i then c else c + 1) xs (a::nat) = a + length (filter (\<lambda>i. \<not> P i) xs)"
  by (induction xs arbitrary: a) auto

lemma phys_count_free_card:
  assumes "phys_ok s"
  shows "phys_count_free_frames s = card {i. i < frame_count s \<and> status s i = Free}"
proof -
  have eq: "length (filter (\<lambda>i. \<not> frame_taken s i) [0..<n]) = card {i. i < n \<and> status s i = Free}" for n
    by (simp add: length_filter_conv_card status_free_iff cong: conj_cong)
  obtain bm where "bitmap s = Some bm" using assms tables_okE unfolding phys_ok_def by blast
  then show ?thesis by (simp add: phys_count_free_frames_def fold_count eq)
qed

lemma phys_alloc_frame_result:
  assumes ok: "phys_ok s" and run: "phys_alloc_frame s = (p, t)" and p: "p \<noteq> 0"
  shows "\<exists>i<frame_count s. idx_from_phys s p = Some i \<and> unat p mod 4096 = 0 \<and> status s i = Free \<and>
        (\<forall>j<i. status s j \<noteq> Free) \<and> phys_ok t \<and> frame_count t = frame_count s \<and>
        status t = (status s)(i := Held 1)"
proof -
  have lay: "layout_ok s" using ok by (simp add: phys_ok_def)
  obtain i where i: "i < frame_count s" "status s i = Free" "\<forall>j<i. status s j \<noteq> Free"
      "p = phys_from_idx s i" "phys_ok t" "same_layout s t" "status t = (status s)(i := Held 1)"
    using phys_alloc_frame_effect [OF ok run] p by blast
  have "idx_from_phys s p = Some i" "unat p mod 4096 = 0" "frame_count t = frame_count s"
    using idx_phys_roundtrip [OF lay i(1)] phys_from_idx_aligned [OF lay i(1)] i(4,6)
    by (simp_all add: same_layout_def)
  then show ?thesis using i(1-3,5,7) by (intro exI [of _ i] conjI) simp_all
qed

lemma phys_alloc_frame_none:
  assumes ok: "phys_ok s" and run: "phys_alloc_frame s = (0, t)"
  shows "t = s \<and> (\<forall>i<frame_count s. status s i \<noteq> Free)"
proof -
  have "layout_ok s" using ok by (simp add: phys_ok_def)
  then have "\<not> (\<exists>i<frame_count s. 0 = phys_from_idx s i)"
    using phys_from_idx_nonzero by metis
  then show ?thesis using phys_alloc_frame_effect [OF ok run] by blast
qed

definition small_memory :: phys_state where
  "small_memory = \<lparr>regions = [(0x100000, 0x4000)], alloc_start_region = 0, bitmap = Some [3],
     refcnt = Some [PINNED, 2, 0, 0], frame_count = 4\<rparr>"

lemma small_memory_ok: "phys_ok small_memory"
  by code_simp

section \<open>Properties\<close>

text \<open>C3. Whatever sequence of allocator calls follows, a frame with \<open>m\<close>
  references that sees fewer than \<open>m\<close> releases in the sequence is handed out by none of its
  allocations (single frame, frame below a limit, contiguous run) and is still allocated at
  the end; a pinned frame is never handed out at all.\<close>

theorem held_frame_never_handed_out:
  assumes "phys_ok s" and "phys_run cs s = (rs, t)"
    and "survives (length (filter (releases s i) cs)) (status s i)"
  shows "list_all (\<lambda>r. \<not> hands_out s i r) rs \<and> status t i \<noteq> Free \<and> phys_ok t"
  using phys_run_survives [OF assms(1,2), of 0 i] assms(3) by (cases "status t i") auto

theorem held_frame_never_handed_out_witness:
  "list_all (\<lambda>r. \<not> hands_out small_memory 1 r)
     (fst (phys_run [AllocFrame, RefDec 0x101000, AllocFrame, AllocFrame] small_memory))"
proof -
  have "survives (length (filter (releases small_memory 1)
      [AllocFrame, RefDec 0x101000, AllocFrame, AllocFrame])) (status small_memory 1)" by code_simp
  from held_frame_never_handed_out [OF small_memory_ok surjective_pairing this]
  show ?thesis by (rule conjunct1)
qed

text \<open>C19. A single-frame allocation fails exactly when no frame is free, and then
  changes nothing; otherwise it returns the page-aligned address of the lowest free frame,
  gives that frame one reference, changes no other frame and lowers the free count by one.\<close>

theorem phys_alloc_frame_correct:
  assumes ok: "phys_ok s" and run: "phys_alloc_frame s = (p, t)"
  shows "(p = 0 \<longleftrightarrow> phys_count_free_frames s = 0) \<and>
    (p = 0 \<longrightarrow> t = s) \<and>
    (p \<noteq> 0 \<longrightarrow> phys_count_free_frames t + 1 = phys_count_free_frames s \<and>
      unat p mod 4096 = 0 \<and> phys_ok t \<and>
      (\<exists>i<frame_count s. idx_from_phys s p = Some i \<and> status s i = Free \<and>
        (\<forall>j<i. status s j \<noteq> Free) \<and> status t = (status s)(i := Held 1)))"
proof (cases "p = 0")
  case True
  with run have "t = s" and "\<forall>i<frame_count s. status s i \<noteq> Free"
    using phys_alloc_frame_none [OF ok] by blast+
  then show ?thesis using True by (simp add: phys_count_free_card [OF ok])
next
  case False
  obtain i where "i < frame_count s \<and> idx_from_phys s p = Some i \<and> unat p mod 4096 = 0 \<and> status s i = Free \<and>
        (\<forall>j<i. status s j \<noteq> Free) \<and> phys_ok t \<and> frame_count t = frame_count s \<and>
        status t = (status s)(i := Held 1)"
    using phys_alloc_frame_result [OF ok run False] by (elim exE)
  then have i: "i < frame_count s" "idx_from_phys s p = Some i" "unat p mod 4096 = 0"
      "status s i = Free" "\<forall>j<i. status s j \<noteq> Free" "phys_ok t" "frame_count t = frame_count s"
      "status t = (status s)(i := Held 1)"
    by simp_all
  let ?A = "{j. j < frame_count s \<and> status s j = Free}"
  have "{j. j < frame_count t \<and> status t j = Free} = ?A - {i}" using i(7,8) by auto
  moreover have "card ?A = Suc (card (?A - {i}))"
    by (rule card.remove) (use i(1,4) in auto)
  ultimately have c: "phys_count_free_frames t + 1 = phys_count_free_frames s"
    by (simp add: phys_count_free_card ok i(6))
  then have "phys_count_free_frames s \<noteq> 0" by linarith
  then show ?thesis using False c i by (intro conjI impI exI [of _ i]) simp_all
qed

theorem phys_alloc_frame_correct_witness:
  "phys_ok small_memory \<and> fst (phys_alloc_frame small_memory) = 0x102000 \<and>
   phys_count_free_frames (snd (phys_alloc_frame small_memory)) + 1 = phys_count_free_frames small_memory"
proof -
  have "phys_ok small_memory" and p: "fst (phys_alloc_frame small_memory) = 0x102000" by code_simp+
  from phys_alloc_frame_correct [OF this(1) surjective_pairing] this show ?thesis by simp
qed

text \<open>C6. Contiguous allocation either returns 0, changes nothing, and no managed
  region holds an aligned run of \<open>n\<close> free frames; or it returns an aligned address
  at which \<open>n\<close> physically consecutive frames, all free before, now have one reference
  each, every other frame being untouched.\<close>

theorem phys_alloc_contiguous_correct:
  assumes ok: "phys_ok s" and n: "n \<noteq> 0" "n \<le> frame_count s"
    and al: "is_pow2_u64 align" "align mod PAGE_SIZE = 0"
    and run: "phys_alloc_contiguous_aligned n align s = (p, t)"
  shows "p = 0 \<and> t = s \<and> (\<forall>i k. alloc_start_region s \<le> i \<and> i < length (regions s) \<longrightarrow>
      \<not> aligned_free_run s n align (frames_of (take (i - alloc_start_region s) (managed s)))
        (regions s ! i) k) \<or>
    p \<noteq> 0 \<and> p AND (align - 1) = 0 \<and> (\<exists>k. handed_out s n p k t)"
proof (rule contiguous_regions_effect [OF ok n(1) al order.refl])
  obtain bm where "bitmap s = Some bm" using ok tables_okE unfolding phys_ok_def by blast
  moreover have "align \<noteq> 0" using al(1) by (simp add: is_pow2_u64_def)
  ultimately show "contiguous_regions [alloc_start_region s..<length (regions s)] n align s = (p, t)"
    using run n al by (simp add: phys_alloc_contiguous_aligned_def)
qed

theorem phys_alloc_contiguous_correct_witness:
  "fst (phys_alloc_contiguous_aligned 2 0x2000 small_memory) = 0x102000 \<and>
   (\<exists>k. handed_out small_memory 2 0x102000 k (snd (phys_alloc_contiguous_aligned 2 0x2000 small_memory)))"
proof -
  have n: "(2::nat) \<noteq> 0" "2 \<le> frame_count small_memory" by code_simp+
  have al: "is_pow2_u64 0x2000" "(0x2000::u64) mod PAGE_SIZE = 0" by code_simp+
  have p: "fst (phys_alloc_contiguous_aligned 2 0x2000 small_memory) = 0x102000" by code_simp
  then show ?thesis
    using phys_alloc_contiguous_correct [OF small_memory_ok n al surjective_pairing] by simp
qed

lemma ref_inc_times:
  assumes "phys_ok s" and "p \<noteq> 0" and "idx_from_phys s p = Some i" and "status s i = Held m"
    and "m + n < 0xFFFFFFFF"
  shows "phys_ok ((phys_ref_inc p ^^ n) s) \<and> same_layout s ((phys_ref_inc p ^^ n) s) \<and>
    status ((phys_ref_inc p ^^ n) s) = (status s)(i := Held (m + n))"
  using assms(5)
proof (induction n)
  case 0
  then show ?case using assms by auto
next
  case (Suc n)
  let ?u = "(phys_ref_inc p ^^ n) s"
  from Suc have u: "phys_ok ?u" "same_layout s ?u" "status ?u = (status s)(i := Held (m + n))"
    by (simp_all add: fun_upd_def)
  then have "idx_from_phys ?u p = Some i"
    using assms(3) same_layout_translation(1) by simp
  from phys_ref_inc_effect [OF u(1) assms(2) this] u Suc.prems same_layout_trans [OF u(2)]
  show ?case by simp
qed

lemma ref_dec_times:
  assumes "phys_ok s" and "p \<noteq> 0" and "idx_from_phys s p = Some i" and "status s i = Held (m + n)"
    and "0 < m"
  shows "phys_ok ((phys_ref_dec p ^^ n) s) \<and> same_layout s ((phys_ref_dec p ^^ n) s) \<and>
    status ((phys_ref_dec p ^^ n) s) = (status s)(i := Held m)"
  using assms(1,3,4)
proof (induction n arbitrary: s)
  case 0
  then show ?case by auto
next
  case (Suc n)
  let ?u = "phys_ref_dec p s"
  have u: "phys_ok ?u" "same_layout s ?u" "status ?u = (status s)(i := Held (m + n))"
    using phys_free_frame_effect [OF Suc.prems(1) assms(2) Suc.prems(2)] Suc.prems(3) assms(5)
    by (simp_all add: phys_ref_dec_def)
  then have "idx_from_phys ?u p = Some i"
    using Suc.prems(2) same_layout_translation(1) by simp
  from Suc.IH [OF u(1) this] u same_layout_trans [OF u(2)] show ?case
    by (auto simp: funpow_swap1 fun_eq_iff)
qed

text \<open>References are counted: \<open>n\<close> calls of \<^verbatim>\<open>phys_ref_inc\<close> on a held frame
  followed by \<open>n\<close> calls of \<^verbatim>\<open>phys_ref_dec\<close> give back the state of every frame, as long as the
  count stays below the value that means pinned.\<close>

lemma phys_ref_roundtrip:
  assumes "phys_ok s" and "p \<noteq> 0" and "idx_from_phys s p = Some i" and "status s i = Held m"
    and "0 < m" and "m + n < 0xFFFFFFFF"
  shows "status ((phys_ref_dec p ^^ n) ((phys_ref_inc p ^^ n) s)) = status s"
proof -
  let ?u = "(phys_ref_inc p ^^ n) s"
  have u: "phys_ok ?u" "same_layout s ?u" "status ?u = (status s)(i := Held (m + n))"
    using ref_inc_times [OF assms(1-4,6)] by (simp_all add: fun_upd_def)
  have "idx_from_phys ?u p = Some i" "status ?u i = Held (m + n)"
    using assms(3) u same_layout_translation(1) by simp_all
  from ref_dec_times [OF u(1) assms(2) this assms(5)] have
    "status ((phys_ref_dec p ^^ n) ?u) = (status ?u)(i := Held m)" by simp
  also have "\<dots> = status s" using u(3) assms(4) by auto
  finally show ?thesis .
qed

lemma phys_ref_roundtrip_example:
  "status ((phys_ref_dec 0x101000 ^^ 5) ((phys_ref_inc 0x101000 ^^ 5) small_memory)) =
   status small_memory"
proof (rule phys_ref_roundtrip [OF small_memory_ok])
  show "idx_from_phys small_memory 0x101000 = Some 1" "status small_memory 1 = Held 2" by code_simp+
qed simp_all

text \<open>C30. With page-aligned, disjoint regions the two translations are inverse:
  every frame number has a page-aligned, non-zero address that translates back to it, and
  every address of a managed region translates to a frame whose address is that of its page.\<close>

theorem phys_translation_roundtrip:
  assumes "layout_ok s"
  shows "(\<forall>i<frame_count s. idx_from_phys s (phys_from_idx s i) = Some i \<and>
      phys_from_idx s i \<noteq> 0 \<and> unat (phys_from_idx s i) mod 4096 = 0) \<and>
    (\<forall>a i. idx_from_phys s a = Some i \<longrightarrow>
      i < frame_count s \<and> phys_from_idx s i = of_nat (unat a div 4096 * 4096))"
  using idx_phys_roundtrip [OF assms] phys_from_idx_nonzero [OF assms]
    phys_from_idx_aligned [OF assms] phys_idx_roundtrip [OF assms] by simp

theorem phys_translation_roundtrip_witness:
  "phys_from_idx small_memory 3 = 0x103000 \<and> idx_from_phys small_memory (phys_from_idx small_memory 3) = Some 3"
proof -
  have "layout_ok small_memory" using small_memory_ok by (simp add: phys_ok_def)
  from phys_translation_roundtrip [OF this] have "\<forall>i<frame_count small_memory.
    idx_from_phys small_memory (phys_from_idx small_memory i) = Some i" by simp
  moreover have "3 < frame_count small_memory" "phys_from_idx small_memory 3 = 0x103000" by code_simp+
  ultimately show ?thesis by metis
qed

section \<open>Regions of unaligned length\<close>

text \<open>Initialisation leaves the regions as the boot loader reports them.\<close>

lemma mark_frames_regions [simp]:
  "regions (mark_frames r is s) = regions s" "alloc_start_region (mark_frames r is s) = alloc_start_region s"
  unfolding mark_frames_def by (induction "is" arbitrary: s) auto





text \<open>No call changes the regions.\<close>

lemma managed_tables [simp]:
  "managed (mark_frames r is s) = managed s" "managed (s\<lparr>bitmap := bm\<rparr>) = managed s" "managed (s\<lparr>refcnt := rc\<rparr>) = managed s"
  by (simp_all add: managed_def)







section \<open>Initialisation\<close>

text \<open>C18. Initialisation protects the kernel: when a region has room for the two
  tables above the boot and kernel images, the regions from there on are page-aligned, disjoint
  and ascending, and the tables fit into that region, then no sequence of allocator calls after
  \<^verbatim>\<open>phys_init\<close> ever hands out a frame below the end of the images or a frame of the tables.\<close>

theorem phys_init_protects_kernel:
  assumes regs: "regs = take MAX_REGIONS usable"
    and room: "find (\<lambda>i. meta_fits (image_end be ke) (regs ! i)) [0..<length regs] = Some start"
    and start: "drop start regs = (base, len) # rs"
    and lay: "regions_ok ((base, len) # rs)" "frames_of ((base, len) # rs) * 4096 < 2 ^ 64"
      "ascending ((base, len) # rs)"
    and fit: "unat (meta_candidate (image_end be ke) base) +
      meta_frames (frames_of ((base, len) # rs)) * 4096 \<le> unat base + unat len"
  shows "\<forall>i cs res u. phys_run cs (phys_init be ke mem usable) = (res, u) \<and>
      i < frame_count (phys_init be ke mem usable) \<and>
      (unat (phys_from_idx (phys_init be ke mem usable) i) < unat (image_end be ke) \<or>
       unat (meta_candidate (image_end be ke) base) \<le> unat (phys_from_idx (phys_init be ke mem usable) i) \<and>
       unat (phys_from_idx (phys_init be ke mem usable) i) < unat (meta_candidate (image_end be ke) base) +
         meta_frames (frame_count (phys_init be ke mem usable)) * 4096) \<longrightarrow>
      list_all (\<lambda>r. \<not> hands_out (phys_init be ke mem usable) i r) res"
proof (intro allI impI, elim conjE)
  fix i cs res u
  assume run: "phys_run cs (phys_init be ke mem usable) = (res, u)"
    and i: "i < frame_count (phys_init be ke mem usable)"
    and p: "unat (phys_from_idx (phys_init be ke mem usable) i) < unat (image_end be ke) \<or>
       unat (meta_candidate (image_end be ke) base) \<le> unat (phys_from_idx (phys_init be ke mem usable) i) \<and>
       unat (phys_from_idx (phys_init be ke mem usable) i) < unat (meta_candidate (image_end be ke) base) +
         meta_frames (frame_count (phys_init be ke mem usable)) * 4096"
  note prot = phys_init_protected_frame [OF regs room start lay refl fit refl i refl p]
  have "survives (0 + length (filter (releases (phys_init be ke mem usable) i) cs))
      (status (phys_init be ke mem usable) i)"
    by (simp add: prot(2))
  from phys_run_survives [OF prot(1) run this]
  show "list_all (\<lambda>r. \<not> hands_out (phys_init be ke mem usable) i r) res" by simp
qed

theorem phys_init_protects_kernel_witness:
  "list_all (\<lambda>r. \<not> hands_out (phys_init 0x108000 0x10A000 0 [(0, 0x9F000), (0x100000, 0x20000)]) 9 r)
     (fst (phys_run [AllocFrame, AllocRun 4 0x1000]
       (phys_init 0x108000 0x10A000 0 [(0, 0x9F000), (0x100000, 0x20000)])))"
proof -
  let ?usable = "[(0, 0x9F000), (0x100000, 0x20000)] :: region list"
  let ?t = "phys_init 0x108000 0x10A000 0 ?usable"
  have 1: "?usable = take MAX_REGIONS ?usable" by (simp add: layout_simps)
  have 2: "find (\<lambda>i. meta_fits (image_end 0x108000 0x10A000) (?usable ! i)) [0..<length ?usable] = Some 1"
    by code_simp
  have 3: "drop 1 ?usable = [(0x100000::u64, 0x20000::u64)]" by simp
  have 4: "regions_ok [(0x100000, 0x20000)]" "frames_of [(0x100000, 0x20000)] * 4096 < 2 ^ 64"
    "ascending [(0x100000, 0x20000)]" by code_simp+
  have 5: "unat (meta_candidate (image_end 0x108000 0x10A000) 0x100000) +
      meta_frames (frames_of [(0x100000, 0x20000)]) * 4096 \<le> unat (0x100000::u64) + unat (0x20000::u64)"
    by code_simp
  have loc: "meta_location (image_end 0x108000 0x10A000) (take MAX_REGIONS ?usable) = (1, 0x10A000)"
    unfolding 1 [symmetric] by code_simp
  have "same_layout (blank_state ?usable 1) ?t"
    using phys_init_pins [OF loc 1, of "frames_of (drop 1 ?usable)"] 4(1,2) unfolding 3 by simp
  moreover have "frame_count (blank_state ?usable 1) = 32"
    "unat (phys_from_idx (blank_state ?usable 1) 9) < unat (image_end 0x108000 0x10A000)" by code_simp+
  ultimately have "9 < frame_count ?t" "unat (phys_from_idx ?t 9) < unat (image_end 0x108000 0x10A000)"
    by (simp_all add: same_layout_translation)
  then show ?thesis
    using phys_init_protects_kernel [OF 1 2 3 4 5, of 0] surjective_pairing by blast
qed

end
