(* ===== verification/Utf8.thy ===== *)
theory Utf8
  imports Prelude
begin

text \<open>
  The console's UTF-8 decoder (\<^verbatim>\<open>src/drivers/graphics/utf8_decode.c\<close>): one code point from a
  byte string of known length. It is compared with the encoding that the Unicode standard defines.
\<close>

section \<open>The decoder\<close>

text \<open>\<open>s\<close> is the byte string (\<open>None\<close> a null pointer), \<open>n\<close> the number of bytes that may be read
  and \<open>out\<close> says whether the output pointer is not null. The result is the number of bytes
  consumed and the code point stored; returning 0 is \<open>None\<close>.\<close>

definition cont_byte :: "u8 \<Rightarrow> bool" where
  "cont_byte b = (b AND 0xC0 = 0x80)"

definition utf8_decode_one :: "u8 list option \<Rightarrow> nat \<Rightarrow> bool \<Rightarrow> (nat \<times> u32) option" where
  "utf8_decode_one str n out =
     (case str of
        None \<Rightarrow> None
      | Some s \<Rightarrow>
          if n = 0 \<or> \<not> out then None
          else let b0 = s ! 0 in
            if b0 < 0x80 then Some (1, ucast b0)
            else if b0 AND 0xE0 = 0xC0 then
              if n < 2 then None
              else let b1 = s ! 1 in
                if \<not> cont_byte b1 then None
                else let cp = push_bit 6 (ucast (b0 AND 0x1F)) OR ucast (b1 AND 0x3F)
                  in if cp < 0x80 then None else Some (2, cp)
            else if b0 AND 0xF0 = 0xE0 then
              if n < 3 then None
              else let b1 = s ! 1; b2 = s ! 2 in
                if \<not> cont_byte b1 \<or> \<not> cont_byte b2 then None
                else let cp = push_bit 12 (ucast (b0 AND 0x0F)) OR push_bit 6 (ucast (b1 AND 0x3F))
                       OR ucast (b2 AND 0x3F)
                  in if cp < 0x800 then None
                     else if cp \<ge> 0xD800 \<and> cp \<le> 0xDFFF then None
                     else Some (3, cp)
            else if b0 AND 0xF8 = 0xF0 then
              if n < 4 then None
              else let b1 = s ! 1; b2 = s ! 2; b3 = s ! 3 in
                if \<not> cont_byte b1 \<or> \<not> cont_byte b2 \<or> \<not> cont_byte b3 then None
                else let cp = push_bit 18 (ucast (b0 AND 0x07)) OR push_bit 12 (ucast (b1 AND 0x3F))
                       OR push_bit 6 (ucast (b2 AND 0x3F)) OR ucast (b3 AND 0x3F)
                  in if cp < 0x10000 then None
                     else if cp > 0x10FFFF then None
                     else Some (4, cp)
            else None)"

section \<open>The encoding of the standard\<close>

definition scalar_value :: "nat \<Rightarrow> bool" where
  "scalar_value c = (c < 0xD800 \<or> 0xDFFF < c \<and> c \<le> 0x10FFFF)"

definition utf8_encode :: "nat \<Rightarrow> nat list" where
  "utf8_encode c =
     (if c < 0x80 then [c]
      else if c < 0x800 then [0xC0 + c div 64, 0x80 + c mod 64]
      else if c < 0x10000 then [0xE0 + c div 4096, 0x80 + c div 64 mod 64, 0x80 + c mod 64]
      else [0xF0 + c div 262144, 0x80 + c div 4096 mod 64, 0x80 + c div 64 mod 64, 0x80 + c mod 64])"

section \<open>Masks\<close>

lemma unat_take_bit: "unat (take_bit k (b :: u8)) = unat b mod 2 ^ k"
  by (simp only: unsigned_take_bit_eq take_bit_eq_mod [where 'a = nat])

lemma unat_and_not_mask: "unat (b AND NOT (mask k) :: u8) = unat b - unat b mod 2 ^ k"
proof -
  have "b AND NOT (mask k) = b AND NOT (take_bit k b)"
    by (rule bit_eqI) (auto simp: bit_simps)
  also have "\<dots> = b - take_bit k b"
    by (subst disjunctive_diff) (auto simp: bit_simps)
  finally show ?thesis
    by (simp add: unat_sub unat_take_bit word_le_nat_alt)
qed

lemma masks_u8:
  "(0xC0 :: u8) = NOT (mask 6)" "(0xE0 :: u8) = NOT (mask 5)"
  "(0xF0 :: u8) = NOT (mask 4)" "(0xF8 :: u8) = NOT (mask 3)"
  "(0x3F :: u8) = mask 6" "(0x1F :: u8) = mask 5" "(0x0F :: u8) = mask 4" "(0x07 :: u8) = mask 3"
  by (simp_all add: mask_eq_exp_minus_1)

lemma mask_payload:
  "unat (b AND 0x3F :: u8) = unat b mod 64"
  "unat (b AND 0x1F :: u8) = unat b mod 32"
  "unat (b AND 0x0F :: u8) = unat b mod 16"
  "unat (b AND 0x07 :: u8) = unat b mod 8"
  unfolding masks_u8(5-8) take_bit_eq_mask [symmetric] unat_take_bit by simp_all

lemma u8_eq_unat: "(a = (b::u8)) = (unat a = unat b)"
  using unsigned_word_eqI [of a b, where 'a = nat] by auto

lemma mask_high:
  "unat (b AND 0xC0 :: u8) = unat b - unat b mod 64"
  "unat (b AND 0xE0 :: u8) = unat b - unat b mod 32"
  "unat (b AND 0xF0 :: u8) = unat b - unat b mod 16"
  "unat (b AND 0xF8 :: u8) = unat b - unat b mod 8"
  unfolding masks_u8(1-4) unat_and_not_mask by simp_all

lemma mask_lead:
  "cont_byte b = (unat b div 64 = 2)"
  "(b AND 0xE0 = (0xC0::u8)) = (unat b div 32 = 6)"
  "(b AND 0xF0 = (0xE0::u8)) = (unat b div 16 = 14)"
  "(b AND 0xF8 = (0xF0::u8)) = (unat b div 8 = 30)"
  unfolding cont_byte_def u8_eq_unat mask_high minus_mod_eq_mult_div by auto

lemma or_disjoint_add:
  assumes "unat y < 2 ^ k"
  shows "push_bit k x OR y = push_bit k x + (y :: u32)"
proof -
  have "unat (take_bit k y) = unat y"
    using assms by (simp add: unsigned_take_bit_eq take_bit_nat_eq_self del: take_bit_eq_mod)
  then have "take_bit k y = y" by (rule unsigned_word_eqI)
  then have "\<not> bit y n" if "k \<le> n" for n
    using that by (metis bit_take_bit_iff not_less)
  then show ?thesis by (subst disjunctive_add) (auto simp: bit_simps)
qed

lemma unat_ucast_u8: "unat (ucast (b :: u8) :: u32) = unat b"
  by (simp add: unsigned_ucast_eq take_bit_nat_eq_self order.strict_trans2 [OF unsigned_less])

lemma unat_shift_payload:
  assumes "unat x < 64" and "k \<le> 18"
  shows "unat (push_bit k (ucast (x :: u8)) :: u32) = unat x * 2 ^ k"
proof -
  have "(2::nat) ^ k \<le> 2 ^ 18" using assms(2) by (rule power_increasing) simp
  then have "unat x * 2 ^ k < 64 * 2 ^ 18 + 1"
    using assms(1) mult_le_mono [of "unat x" 64 "2 ^ k" "2 ^ 18"] by simp
  then show ?thesis
    by (simp only: unsigned_push_bit_eq unat_ucast_u8 push_bit_eq_mult [where 'a = nat])
      (simp add: take_bit_nat_eq_self)
qed

lemma unat_add_small: "unat a + unat b < 2 ^ 32 \<Longrightarrow> unat (a + b :: u32) = unat a + unat b"
  by (simp add: unat_word_ariths)

lemma unat_code_point_2:
  assumes "unat x < 64" "unat y < 64"
  shows "unat (push_bit 6 (ucast x) OR ucast (y::u8) :: u32) = unat (x::u8) * 64 + unat y"
  using assms unat_shift_payload [of x 6]
  by (subst or_disjoint_add) (simp_all add: unat_ucast_u8 unat_add_small)

lemma unat_code_point_3:
  assumes "unat x < 64" "unat y < 64" "unat z < 64"
  shows "unat (push_bit 12 (ucast x) OR push_bit 6 (ucast y) OR ucast (z::u8) :: u32) =
    unat (x::u8) * 4096 + unat (y::u8) * 64 + unat z"
proof -
  have "push_bit 12 (ucast x) OR push_bit 6 (ucast y) OR ucast z =
      push_bit 12 (ucast x) OR (push_bit 6 (ucast y) OR ucast z :: u32)"
    by (simp add: or.assoc)
  then show ?thesis
    using assms unat_code_point_2 [of y z] unat_shift_payload [of x 12]
    by (simp add: or_disjoint_add [of "push_bit 6 (ucast y) OR ucast z" 12] unat_add_small)
qed

lemma unat_code_point_4:
  assumes "unat x < 64" "unat y < 64" "unat z < 64" "unat w < 64"
  shows "unat (push_bit 18 (ucast x) OR push_bit 12 (ucast y) OR push_bit 6 (ucast z) OR ucast (w::u8) :: u32) =
    unat (x::u8) * 262144 + unat (y::u8) * 4096 + unat (z::u8) * 64 + unat w"
proof -
  let ?r = "push_bit 12 (ucast y) OR push_bit 6 (ucast z) OR ucast w :: u32"
  have "push_bit 18 (ucast x) OR push_bit 12 (ucast y) OR push_bit 6 (ucast z) OR ucast w =
      push_bit 18 (ucast x) OR ?r"
    by (simp add: or.assoc)
  then show ?thesis
    using assms unat_code_point_3 [of y z w] unat_shift_payload [of x 18]
    by (simp add: or_disjoint_add [of ?r 18] unat_add_small)
qed

section \<open>Decoding is the inverse of encoding\<close>

text \<open>The decoder over numbers.\<close>

fun decode_nat :: "nat list \<Rightarrow> (nat \<times> nat) option" where
  "decode_nat [] = None"
| "decode_nat (a # s) =
     (if a < 128 then Some (1, a)
      else if a div 32 = 6 then
        (case s of b # _ \<Rightarrow>
           let c = a mod 32 * 64 + b mod 64
           in if b div 64 \<noteq> 2 \<or> c < 0x80 then None else Some (2, c) | _ \<Rightarrow> None)
      else if a div 16 = 14 then
        (case s of b # d # _ \<Rightarrow>
           let c = a mod 16 * 4096 + b mod 64 * 64 + d mod 64
           in if b div 64 \<noteq> 2 \<or> d div 64 \<noteq> 2 \<or> c < 0x800 \<or> 0xD800 \<le> c \<and> c \<le> 0xDFFF then None
              else Some (3, c) | _ \<Rightarrow> None)
      else if a div 8 = 30 then
        (case s of b # d # e # _ \<Rightarrow>
           let c = a mod 8 * 262144 + b mod 64 * 4096 + d mod 64 * 64 + e mod 64
           in if b div 64 \<noteq> 2 \<or> d div 64 \<noteq> 2 \<or> e div 64 \<noteq> 2 \<or> c < 0x10000 \<or> 0x10FFFF < c then None
              else Some (4, c) | _ \<Rightarrow> None)
      else None)"

lemma decode_nat_code:
  assumes "n \<le> length s"
  shows "map_option (map_prod id unat) (utf8_decode_one (Some s) n True) =
    decode_nat (map unat (take n s))"
proof (cases "take n s")
  case Nil
  then have "n = 0" using assms by (cases s) auto
  then show ?thesis by (simp add: utf8_decode_one_def)
next
  case (Cons b0 r)
  then have n: "n = Suc (length r)" using assms by (metis length_Cons length_take min.absorb2)
  have s: "s ! 0 = b0" using Cons by (metis nth_Cons_0 nth_take n zero_less_Suc)
  have s': "s ! Suc i = r ! i" if "i < length r" for i
    using that Cons n by (metis Suc_less_eq nth_Cons_Suc nth_take)
  have le: "unat (b AND 0x3F) < 64" "unat (b AND 0x1F) < 64" "unat (b AND 0x0F) < 64"
    "unat (b AND 0x07) < 64" for b :: u8
    by (simp_all add: mask_payload less_trans [OF mod_less_divisor])
  note nat_of = mask_lead word_less_nat_alt word_le_nat_alt mask_payload
  have two: "s ! 1 = r ! 0" if "r \<noteq> []" using that s' [of 0] by simp
  have three: "s ! 2 = r ! 1" if "2 \<le> length r" using that s' [of 1] by (simp add: numeral_2_eq_2)
  have four: "s ! 3 = r ! 2" if "3 \<le> length r" using that s' [of 2] by (simp add: numeral_3_eq_3 numeral_2_eq_2)
  note code = utf8_decode_one_def option.case if_True if_False s Let_def
  consider (1) "b0 < 0x80" | (2) "\<not> b0 < 0x80" "unat b0 div 32 = 6"
    | (3) "\<not> b0 < 0x80" "unat b0 div 32 \<noteq> 6" "unat b0 div 16 = 14"
    | (4) "\<not> b0 < 0x80" "unat b0 div 32 \<noteq> 6" "unat b0 div 16 \<noteq> 14" "unat b0 div 8 = 30"
    | (5) "\<not> b0 < 0x80" "unat b0 div 32 \<noteq> 6" "unat b0 div 16 \<noteq> 14" "unat b0 div 8 \<noteq> 30"
    by blast
  then show ?thesis
  proof cases
    case 1
    then show ?thesis using Cons n by (simp add: code unat_ucast_u8 word_less_nat_alt)
  next
    case 2
    then have "utf8_decode_one (Some s) n True = (if r = [] then None
        else if unat (r ! 0) div 64 \<noteq> 2 then None
        else if push_bit 6 (ucast (b0 AND 0x1F)) OR ucast (r ! 0 AND 0x3F) < (0x80::u32) then None
        else Some (2, push_bit 6 (ucast (b0 AND 0x1F)) OR ucast (r ! 0 AND 0x3F)))"
      using n two by (auto simp: code mask_lead)
    then show ?thesis
      using 2 Cons by (cases r) (auto simp: word_less_nat_alt unat_code_point_2 le mask_payload Let_def)
  next
    case 3
    then have "utf8_decode_one (Some s) n True = (if length r < 2 then None
        else if unat (r ! 0) div 64 \<noteq> 2 \<or> unat (r ! 1) div 64 \<noteq> 2 then None
        else let cp = push_bit 12 (ucast (b0 AND 0x0F)) OR push_bit 6 (ucast (r ! 0 AND 0x3F))
          OR ucast (r ! 1 AND 0x3F) in if cp < 0x800 then None
        else if cp \<ge> 0xD800 \<and> cp \<le> 0xDFFF then None else Some (3, cp))"
    proof (cases "length r < 2")
      case False
      then have ge: "2 \<le> length r" by simp
      then have "r \<noteq> []" by auto
      from two [OF this] three [OF ge] 3 False n show ?thesis by (simp add: code mask_lead)
    qed (use 3 n in \<open>simp add: code mask_lead\<close>)
    then show ?thesis
      using 3 Cons by (cases r; cases "tl r") (auto simp: word_less_nat_alt word_le_nat_alt
          unat_code_point_3 le mask_payload Let_def)
  next
    case 4
    then have "utf8_decode_one (Some s) n True = (if length r < 3 then None
        else if unat (r ! 0) div 64 \<noteq> 2 \<or> unat (r ! 1) div 64 \<noteq> 2 \<or> unat (r ! 2) div 64 \<noteq> 2 then None
        else let cp = push_bit 18 (ucast (b0 AND 0x07)) OR push_bit 12 (ucast (r ! 0 AND 0x3F))
          OR push_bit 6 (ucast (r ! 1 AND 0x3F)) OR ucast (r ! 2 AND 0x3F) in if cp < 0x10000 then None
        else if cp > 0x10FFFF then None else Some (4, cp))"
    proof (cases "length r < 3")
      case False
      then have ge: "2 \<le> length r" "3 \<le> length r" by simp_all
      then have "r \<noteq> []" by auto
      from two [OF this] three [OF ge(1)] four [OF ge(2)] 4 False n show ?thesis by (simp add: code mask_lead)
    qed (use 4 n in \<open>simp add: code mask_lead\<close>)
    then show ?thesis
      using 4 Cons by (cases r; cases "tl r"; cases "tl (tl r)") (auto simp: word_less_nat_alt
          word_le_nat_alt unat_code_point_4 le mask_payload Let_def)
  next
    case 5
    then show ?thesis using Cons n by (simp add: code mask_lead word_less_nat_alt)
  qed
qed

lemma split_div_mod: "(n::nat) div m = q \<Longrightarrow> q * m + n mod m = n"
  using div_mult_mod_eq [of n m] by simp

lemma div_mod_unique:
  assumes "n = q * m + x" and "x < (m::nat)"
  shows "n div m = q" and "n mod m = x"
  using assms by simp_all

lemma decode_nat_sound:
  assumes "decode_nat s = Some (k, c)"
  shows "scalar_value c \<and> k = length (utf8_encode c) \<and> take k s = utf8_encode c"
proof (cases s)
  case (Cons a r)
  consider (1) "a < 128" | (2) "\<not> a < 128" "a div 32 = 6"
    | (3) "\<not> a < 128" "a div 32 \<noteq> 6" "a div 16 = 14"
    | (4) "\<not> a < 128" "a div 32 \<noteq> 6" "a div 16 \<noteq> 14" "a div 8 = 30"
    using assms Cons by (auto split: if_splits)
  then show ?thesis
  proof cases
    case 1
    then show ?thesis using assms Cons by (auto simp: scalar_value_def utf8_encode_def)
  next
    case 2
    then obtain b r' where r: "r = b # r'" and c: "c = a mod 32 * 64 + b mod 64" "c \<ge> 128" "k = 2"
      and b: "b div 64 = 2"
      using assms Cons by (auto simp: Let_def split: list.splits if_splits)
    have "c div 64 = a mod 32" "c mod 64 = b mod 64" using c(1) by simp_all
    moreover have "c < 2048" using mod_less_divisor [of 32 a] mod_less_divisor [of 64 b] c(1) by linarith
    ultimately show ?thesis
      using c r Cons split_div_mod [OF b] split_div_mod [OF 2(2)]
      by (simp add: scalar_value_def utf8_encode_def)
  next
    case 3
    then obtain b d r' where r: "r = b # d # r'" and c: "c = a mod 16 * 4096 + b mod 64 * 64 + d mod 64"
        "c \<ge> 0x800" "\<not> (0xD800 \<le> c \<and> c \<le> 0xDFFF)" "k = 3" and b: "b div 64 = 2" "d div 64 = 2"
      using assms Cons by (auto simp: Let_def split: list.splits if_splits)
    have c': "c = (a mod 16 * 64 + b mod 64) * 64 + d mod 64" using c(1) by simp
    then have "c mod 64 = d mod 64" "c div 64 = a mod 16 * 64 + b mod 64"
      by (rule div_mod_unique, simp)+
    moreover from this(2) have "c div 4096 = a mod 16" "c div 64 mod 64 = b mod 64"
      using div_mult2_eq [of c 64 64] by simp_all
    moreover have "c < 65536" using mod_less_divisor [of 16 a] mod_less_divisor [of 64 b]
      mod_less_divisor [of 64 d] c(1) by linarith
    ultimately show ?thesis
      using c r Cons split_div_mod [OF b(1)] split_div_mod [OF b(2)] split_div_mod [OF 3(3)]
      by (simp add: scalar_value_def utf8_encode_def) (metis not_le)
  next
    case 4
    then have e: "decode_nat (a # r) = (case r of b # d # e # _ \<Rightarrow>
           let c = a mod 8 * 262144 + b mod 64 * 4096 + d mod 64 * 64 + e mod 64
           in if b div 64 \<noteq> 2 \<or> d div 64 \<noteq> 2 \<or> e div 64 \<noteq> 2 \<or> c < 0x10000 \<or> 0x10FFFF < c then None
              else Some (4, c) | _ \<Rightarrow> None)" by simp
    obtain b d e r' where r: "r = b # d # e # r'"
      using assms unfolding Cons e by (cases r; cases "tl r"; cases "tl (tl r)") simp_all
    have c: "c = a mod 8 * 262144 + b mod 64 * 4096 + d mod 64 * 64 + e mod 64"
        "c \<ge> 0x10000" "c \<le> 0x10FFFF" "k = 4" and b: "b div 64 = 2" "d div 64 = 2" "e div 64 = 2"
      using assms unfolding Cons e unfolding r by (simp_all add: Let_def not_less split: if_splits)
    have "c = ((a mod 8 * 64 + b mod 64) * 64 + d mod 64) * 64 + e mod 64" using c(1) by simp
    then have "c mod 64 = e mod 64" and q: "c div 64 = (a mod 8 * 64 + b mod 64) * 64 + d mod 64"
      by (rule div_mod_unique, simp)+
    moreover have "c div 64 mod 64 = d mod 64" and q': "c div 64 div 64 = a mod 8 * 64 + b mod 64"
      using q by (rule div_mod_unique, simp)+
    moreover have "c div 64 div 64 mod 64 = b mod 64" "c div 64 div 64 div 64 = a mod 8"
      using q' by (rule div_mod_unique, simp)+
    moreover have "c div 64 div 64 = c div 4096" "c div 64 div 64 div 64 = c div 262144"
      by (simp_all add: div_mult2_eq [symmetric])
    moreover have "\<not> c < 0x80" "\<not> c < 0x800" "\<not> c < 0x10000" using c(2) by simp_all
    ultimately have "utf8_encode c = [30 * 8 + a mod 8, 2 * 64 + b mod 64, 2 * 64 + d mod 64, 2 * 64 + e mod 64]"
      by (simp only: utf8_encode_def if_False) simp
    also have "\<dots> = [a, b, d, e]"
      by (simp only: split_div_mod [OF b(1)] split_div_mod [OF b(2)] split_div_mod [OF b(3)]
          split_div_mod [OF 4(4)])
    finally show ?thesis
      using c(2-4) r Cons by (simp add: scalar_value_def)
  qed
qed (use assms in simp)

lemma cont_bytes: "x < 64 \<Longrightarrow> (128 + x) div 64 = (2::nat)" "x < 64 \<Longrightarrow> (128 + x) mod 64 = (x::nat)"
  using div_mod_unique [of "128 + x" 2 64 x] by simp_all

lemma decode_nat_2:
  assumes "q < 32" "x < 64" "128 \<le> q * 64 + x"
  shows "decode_nat ((192 + q) # (128 + x) # r) = Some (2, q * 64 + x)"
proof -
  have "(192 + q) div 32 = 6" "(192 + q) mod 32 = q"
    using div_mod_unique [of "192 + q" 6 32 q] assms(1) by simp_all
  then show ?thesis using assms by (simp add: cont_bytes Let_def)
qed

lemma decode_nat_3:
  assumes "q < 16" "x < 64" "y < 64" and c: "c = q * 4096 + x * 64 + y"
    and ok: "0x800 \<le> c" "\<not> (0xD800 \<le> c \<and> c \<le> 0xDFFF)"
  shows "decode_nat ((224 + q) # (128 + x) # (128 + y) # r) = Some (3, c)"
proof -
  have "(224 + q) div 16 = 14" "(224 + q) mod 16 = q" "(224 + q) div 32 = 7"
    using div_mod_unique [of "224 + q" 14 16 q] div_mod_unique [of "224 + q" 7 32 q] assms(1) by simp_all
  then show ?thesis
    using assms(2,3) ok by (simp add: cont_bytes Let_def c [symmetric])
qed

lemma decode_nat_4:
  assumes "q < 8" "x < 64" "y < 64" "z < 64" and c: "c = q * 262144 + x * 4096 + y * 64 + z"
    and ok: "0x10000 \<le> c" "c \<le> 0x10FFFF"
  shows "decode_nat ((240 + q) # (128 + x) # (128 + y) # (128 + z) # r) = Some (4, c)"
proof -
  have "(240 + q) div 8 = 30" "(240 + q) mod 8 = q" "(240 + q) div 16 = 15" "(240 + q) div 32 = 7"
    using div_mod_unique [of "240 + q" 30 8 q] div_mod_unique [of "240 + q" 15 16 q]
      div_mod_unique [of "240 + q" 7 32 "16 + q"] assms(1) by simp_all
  then show ?thesis
    using assms(2-4) ok by (simp add: cont_bytes Let_def c [symmetric])
qed

lemma decode_nat_complete:
  assumes "scalar_value c"
  shows "decode_nat (utf8_encode c @ r) = Some (length (utf8_encode c), c)"
proof -
  define x y z where "x = c mod 64" and "y = c div 64 mod 64" and "z = c div 4096 mod 64"
  have lt: "x < 64" "y < 64" "z < 64" by (simp_all add: x_def y_def z_def)
  have rec: "c = c div 64 * 64 + x" "c div 64 = c div 4096 * 64 + y" "c div 4096 = c div 262144 * 64 + z"
    using div_mult_mod_eq [of c 64] div_mult_mod_eq [of "c div 64" 64]
      div_mult_mod_eq [of "c div 4096" 64]
    by (simp_all add: div_mult2_eq [symmetric] x_def y_def z_def)
  consider (1) "c < 0x80" | (2) "0x80 \<le> c" "c < 0x800" | (3) "0x800 \<le> c" "c < 0x10000"
    | (4) "0x10000 \<le> c" "c \<le> 0x10FFFF" using assms unfolding scalar_value_def by linarith
  then show ?thesis
  proof cases
    case 1
    then show ?thesis by (simp add: utf8_encode_def)
  next
    case 2
    then have "utf8_encode c = [192 + c div 64, 128 + x]" by (simp add: utf8_encode_def x_def)
    moreover have "c div 64 < 32" using 2 by linarith
    ultimately show ?thesis using decode_nat_2 [of "c div 64" x r] 2 lt rec(1) by simp
  next
    case 3
    then have "utf8_encode c = [224 + c div 4096, 128 + y, 128 + x]"
      by (simp add: utf8_encode_def x_def y_def)
    moreover have "c div 4096 < 16" "c = c div 4096 * 4096 + y * 64 + x" using 3 rec by linarith+
    moreover have "\<not> (0xD800 \<le> c \<and> c \<le> 0xDFFF)" using assms 3 by (auto simp: scalar_value_def)
    ultimately show ?thesis using decode_nat_3 [of "c div 4096" y x c r] 3(1) lt by simp
  next
    case 4
    then have "utf8_encode c = [240 + c div 262144, 128 + z, 128 + y, 128 + x]"
      by (simp add: utf8_encode_def x_def y_def z_def)
    moreover have "c div 262144 < 8" using 4 by linarith
    moreover have "c = c div 262144 * 262144 + z * 4096 + y * 64 + x" using rec by linarith
    ultimately show ?thesis using decode_nat_4 [of "c div 262144" z y x c r] 4 lt by simp
  qed
qed

text \<open>C14. The decoder accepts exactly the encodings of the standard: it returns \<open>k\<close> bytes and
  code point \<open>c\<close> if and only if \<open>c\<close> is a Unicode scalar value whose encoding has \<open>k\<close> bytes, all of them
  available, and the input starts with it. Overlong forms, surrogates, values above U+10FFFF,
  stray continuation bytes and truncated sequences are all rejected.\<close>

theorem utf8_decode_one_correct:
  assumes "n \<le> length s"
  shows "utf8_decode_one (Some s) n True = Some (k, c) \<longleftrightarrow>
    scalar_value (unat c) \<and> k = length (utf8_encode (unat c)) \<and> k \<le> n \<and>
    map unat (take k s) = utf8_encode (unat c)"
proof -
  let ?t = "map unat (take n s)"
  have inj: "utf8_decode_one (Some s) n True = Some (k, c) \<longleftrightarrow>
      map_option (map_prod id unat) (utf8_decode_one (Some s) n True) = Some (k, unat c)"
    by (cases "utf8_decode_one (Some s) n True") (auto intro: unsigned_word_eqI)
  also have "\<dots> \<longleftrightarrow> decode_nat ?t = Some (k, unat c)" by (simp only: decode_nat_code [OF assms])
  also have "\<dots> \<longleftrightarrow> scalar_value (unat c) \<and> k = length (utf8_encode (unat c)) \<and> k \<le> n \<and>
      take k ?t = utf8_encode (unat c)"
  proof
    assume d: "decode_nat ?t = Some (k, unat c)"
    note sound = decode_nat_sound [OF d]
    then have "length (take k ?t) = k" by metis
    then have "k \<le> n" using assms by simp
    with sound show "scalar_value (unat c) \<and> k = length (utf8_encode (unat c)) \<and> k \<le> n \<and>
      take k ?t = utf8_encode (unat c)" by blast
  next
    assume r: "scalar_value (unat c) \<and> k = length (utf8_encode (unat c)) \<and> k \<le> n \<and>
      take k ?t = utf8_encode (unat c)"
    then have "?t = utf8_encode (unat c) @ drop k ?t" by (metis append_take_drop_id)
    then show "decode_nat ?t = Some (k, unat c)" using decode_nat_complete r by metis
  qed
  also have "\<dots> \<longleftrightarrow> scalar_value (unat c) \<and> k = length (utf8_encode (unat c)) \<and> k \<le> n \<and>
      map unat (take k s) = utf8_encode (unat c)"
    by (cases "k \<le> n") (simp_all add: take_map min.absorb1)
  finally show ?thesis .
qed

theorem utf8_decode_one_correct_witness:
  "utf8_decode_one (Some [0xE2, 0x82, 0xAC, 0x21]) 4 True = Some (3, 0x20AC) \<and>
   utf8_decode_one (Some [0xC0, 0x80]) 2 True = None"
proof -
  have "scalar_value (unat (0x20AC::u32))" "length (utf8_encode (unat (0x20AC::u32))) = 3"
    "map unat (take 3 [0xE2, 0x82, 0xAC, 0x21 :: u8]) = utf8_encode (unat (0x20AC::u32))" by code_simp+
  moreover have "utf8_decode_one (Some [0xC0, 0x80]) 2 True = None" by code_simp
  ultimately show ?thesis
    using utf8_decode_one_correct [of 4 "[0xE2, 0x82, 0xAC, 0x21]" 3 "0x20AC"] by simp
qed

end
