(* ===== verification/Path.thy ===== *)
theory Path
  imports Cstring
begin

text \<open>
  Paths (\<^verbatim>\<open>src/fs/path_norm.c\<close>, \<^verbatim>\<open>src/fs/path.c\<close> and the mount labels of \<^verbatim>\<open>src/fs/fs.c\<close>): the two
  normalisers, joining, and the resolution of a path to the current mount, an explicit mount, the
  device name space or the user name space. The mount table and the drive list are the part of the
  kernel's state the resolver reads.
\<close>

text \<open>What a call can do: return a value, return its error code, or run into behaviour that C
  leaves undefined (a write past an object, a signed overflow).\<close>

datatype 'a outcome = Done 'a | Fail | Undef

section \<open>Normalisation in place\<close>

definition is_sep :: "char \<Rightarrow> bool" where
  "is_sep c = (c = CHR ''/'')"

lemma drop_segment_less:
  assumes "q = dropWhile is_sep p" and "q \<noteq> []"
  shows "length (dropWhile (\<lambda>c. \<not> is_sep c) q) < length p"
proof -
  obtain c q' where q: "q = c # q'" using assms(2) by (cases q) auto
  have "\<not> is_sep c" using assms(1) hd_dropWhile [of is_sep p] q by fastforce
  then have "length (dropWhile (\<lambda>c. \<not> is_sep c) q) < length q"
    by (simp add: q length_dropWhile_le le_imp_less_Suc)
  also have "length q \<le> length p" using assms(1) by (simp add: length_dropWhile_le)
  finally show ?thesis .
qed

text \<open>The scan for segments. A segment is pushed, dropped or pops the one before it; the stack
  holds 64 segments and further ones are dropped.\<close>

definition push_segment :: "cstr list \<Rightarrow> cstr \<Rightarrow> cstr list" where
  "push_segment segs seg =
     (if seg = ''.'' then segs
      else if seg = ''..'' then butlast segs
      else if length segs < 64 then segs @ [seg]
      else segs)"

function segment_scan :: "cstr list \<Rightarrow> cstr \<Rightarrow> cstr list" where
  "segment_scan segs p =
     (let q = dropWhile is_sep p
      in if q = [] then segs
         else segment_scan (push_segment segs (takeWhile (\<lambda>c. \<not> is_sep c) q))
                (dropWhile (\<lambda>c. \<not> is_sep c) q))"
  by pat_completeness auto
termination
  by (relation "measure (\<lambda>(segs, p). length p)") (auto intro: drop_segment_less)

declare segment_scan.simps [simp del]

text \<open>Writing into the 256-byte result on the stack. \<open>None\<close> is a write past it.\<close>

definition put_at :: "nat \<Rightarrow> cstr \<Rightarrow> char list \<Rightarrow> char list option" where
  "put_at i s out =
     (if i + length s \<le> length out then Some (take i out @ s @ drop (i + length s) out) else None)"

fun rebuild :: "cstr list \<Rightarrow> nat \<Rightarrow> char list \<Rightarrow> (nat \<times> char list) option" where
  "rebuild [] oi out = Some (oi, out)"
| "rebuild (seg # segs) oi out =
     Option.bind
       (if oi > 0 \<and> out ! (oi - 1) \<noteq> CHR ''/''
        then map_option (Pair (oi + 1)) (put_at oi ''/'' out) else Some (oi, out))
       (\<lambda>(oi, out).
          if oi + length seg \<ge> 256 then Some (oi, out)
          else Option.bind (put_at oi (seg @ [NUL]) out) (\<lambda>out. rebuild segs (oi + length seg) out))"

text \<open>\<open>junk\<close> is the content of the uninitialised stack buffer, \<open>path\<close> the object that holds the
  path; a path that is neither absolute nor virtual is left alone.\<close>

definition path_normalize_inplace :: "char list \<Rightarrow> char list \<Rightarrow> char list option" where
  "path_normalize_inplace junk path =
     (let s = cstr_of path;
          is_virtual = (chr_at s = CHR ''$'' \<and> chr_at (tl s) = CHR ''/'');
          prefix_len = (if is_virtual then 2 else 0)
      in if \<not> (is_virtual \<or> chr_at s = CHR ''/'') then Some path
         else
           let segs = segment_scan [] (drop prefix_len s);
               pre = (if is_virtual then ''$/'' else ''/'')
           in Option.bind (put_at 0 pre junk) (\<lambda>out.
              Option.bind (rebuild segs (length pre) out) (\<lambda>(oi, out).
                let out = (if oi > length pre \<and> out ! (oi - 1) = CHR ''/''
                           then out[oi - 1 := NUL] else out)
                in Option.bind (strncpy path (cstr_of out) 255) (\<lambda>path. put_at 255 [NUL] path))))"

section \<open>Normalisation and joining in \<^verbatim>\<open>path.c\<close>\<close>

text \<open>The loop of \<^verbatim>\<open>normalize_path\<close> over the segments: it stops for good once 64 parts are held.\<close>

function part_scan :: "cstr list \<Rightarrow> cstr \<Rightarrow> cstr list" where
  "part_scan parts p =
     (let q = dropWhile is_sep p
      in if q = [] \<or> length parts \<ge> 64 then parts
         else
           let seg = takeWhile (\<lambda>c. \<not> is_sep c) q;
               parts' = (if seg = ''.'' then parts
                         else if seg = ''..'' then butlast parts
                         else parts @ [seg])
           in part_scan parts' (dropWhile (\<lambda>c. \<not> is_sep c) q))"
  by pat_completeness auto
termination
  by (relation "measure (\<lambda>(parts, p). length p)") (auto intro: drop_segment_less)

declare part_scan.simps [simp del]

fun join_parts :: "bool \<Rightarrow> nat \<Rightarrow> cstr list \<Rightarrow> char list \<Rightarrow> char list option" where
  "join_parts is_absolute i [] temp = Some temp"
| "join_parts is_absolute i (part # parts) temp =
     Option.bind
       (if (i > 0 \<or> is_absolute) \<and> cstr_of temp \<noteq> [] \<and> last (cstr_of temp) \<noteq> CHR ''/''
        then strcat temp ''/'' else Some temp)
       (\<lambda>temp. Option.bind (strcat temp part) (join_parts is_absolute (Suc i) parts))"

text \<open>The string that \<^verbatim>\<open>normalize_path\<close> leaves in its argument. \<open>junk\<close> is the uninitialised
  temporary of 256 bytes.\<close>

definition normalize_path :: "char list \<Rightarrow> cstr \<Rightarrow> cstr option" where
  "normalize_path junk path =
     (if path = [] then Some []
      else
        let is_absolute = (chr_at path = CHR ''/'');
            parts = part_scan [] path
        in Option.bind (strcpy junk (if is_absolute then ''/'' else [])) (\<lambda>temp.
           Option.bind (join_parts is_absolute 0 parts temp) (\<lambda>temp.
             Some (if cstr_of temp = [] then (if is_absolute then ''/'' else ''.'') else cstr_of temp))))"

text \<open>\<open>result\<close> is the object written, of at least 256 bytes.\<close>

definition join_path :: "cstr \<Rightarrow> cstr \<Rightarrow> char list \<Rightarrow> char list option" where
  "join_path base component result =
     (let base_len = strlen base
      in if base_len \<ge> 255
         then Option.bind (put_at 0 [NUL] result) (\<lambda>r.
              Option.bind (strncpy r base 255) (put_at 255 [NUL]))
         else Option.bind (put_at 0 [NUL] result) (\<lambda>r.
              Option.bind (strcpy r base) (\<lambda>r.
              Option.bind
                (if base_len > 0 \<and> r ! (base_len - 1) \<noteq> CHR ''/''
                 then put_at base_len [CHR ''/'', NUL] r else Some r)
                (\<lambda>r. strncat r component (255 - strlen (cstr_of r))))))"

section \<open>Drive names\<close>

definition ascii_tolower :: "char \<Rightarrow> char" where
  "ascii_tolower c =
     (if byte_of CHR ''A'' \<le> byte_of c \<and> byte_of c \<le> byte_of CHR ''Z''
      then char_of (nat (byte_of c + 32)) else c)"

fun str_ieq :: "cstr \<Rightarrow> cstr \<Rightarrow> bool" where
  "str_ieq (a # s) (b # t) = (ascii_tolower a = ascii_tolower b \<and> str_ieq s t)"
| "str_ieq s t = (s = [] \<and> t = [])"

definition name_char :: "char \<Rightarrow> bool" where
  "name_char c =
     (byte_of CHR ''A'' \<le> byte_of c \<and> byte_of c \<le> byte_of CHR ''Z'' \<or>
      byte_of CHR ''a'' \<le> byte_of c \<and> byte_of c \<le> byte_of CHR ''z'' \<or>
      is_digit c \<or> c = CHR ''-'' \<or> c = CHR ''_'')"

fun sanitize_loop :: "cstr \<Rightarrow> cstr \<Rightarrow> nat \<Rightarrow> cstr" where
  "sanitize_loop [] out out_sz = out"
| "sanitize_loop (c # s) out out_sz =
     (if length out + 1 < out_sz then
        (if c \<noteq> CHR '' '' \<and> c \<noteq> CHR 0x09 \<and> name_char c then sanitize_loop s (out @ [c]) out_sz
         else if out = [] \<or> last out = CHR ''-'' then sanitize_loop s out out_sz
         else sanitize_loop s (out @ ''-'') out_sz)
      else out)"

definition sanitize_drive_name :: "cstr \<Rightarrow> nat \<Rightarrow> cstr" where
  "sanitize_drive_name model out_sz =
     rev (dropWhile (\<lambda>c. c = CHR ''-'') (rev (sanitize_loop model [] out_sz)))"

text \<open>A character of a string by its index, the terminator behind the end.\<close>

definition char_at :: "cstr \<Rightarrow> nat \<Rightarrow> char" where
  "char_at s i = (if i < length s then s ! i else NUL)"

definition vdrive_prefix :: "cstr \<Rightarrow> bool" where
  "vdrive_prefix s =
     ((char_at s 0 = CHR ''v'' \<or> char_at s 0 = CHR ''V'') \<and>
      (char_at s 1 = CHR ''d'' \<or> char_at s 1 = CHR ''D'') \<and>
      (char_at s 2 = CHR ''r'' \<or> char_at s 2 = CHR ''R'') \<and>
      (char_at s 3 = CHR ''i'' \<or> char_at s 3 = CHR ''I'') \<and>
      (char_at s 4 = CHR ''v'' \<or> char_at s 4 = CHR ''V'') \<and>
      (char_at s 5 = CHR ''e'' \<or> char_at s 5 = CHR ''E''))"

text \<open>The digits of a drive number up to a dash or the end: the number, whether there was a digit,
  and the string that is left. Another character is \<open>Fail\<close>, an overflow of \<^verbatim>\<open>int\<close> is \<open>Undef\<close>.\<close>

fun drive_number :: "cstr \<Rightarrow> int \<Rightarrow> bool \<Rightarrow> (int \<times> bool \<times> cstr) outcome" where
  "drive_number [] n ok = Done (n, ok, [])"
| "drive_number (c # s) n ok =
     (if c = CHR ''-'' then Done (n, ok, c # s)
      else if \<not> is_digit c then Fail
      else
        let n' = n * 10 + (byte_of c - byte_of CHR ''0'')
        in if fits_int n' then drive_number s n' True else Undef)"

text \<open>A partition suffix \<^verbatim>\<open>-P<digit>\<close> that ends the name, or no suffix.\<close>

definition part_suffix :: "cstr \<Rightarrow> int option" where
  "part_suffix s =
     (if s = [] then Some 0
      else if (char_at s 1 = CHR ''p'' \<or> char_at s 1 = CHR ''P'') \<and> is_digit (char_at s 2) \<and> length s = 3
      then Some (byte_of (char_at s 2) - byte_of CHR ''0'')
      else None)"

definition parse_vdrive :: "cstr \<Rightarrow> (int \<times> int) outcome" where
  "parse_vdrive name =
     (case drive_number (drop 6 name) 0 False of
        Done (n, ok, r) \<Rightarrow>
          if \<not> ok then Fail
          else (case part_suffix r of None \<Rightarrow> Fail | Some p \<Rightarrow> Done (n, p))
      | Fail \<Rightarrow> Fail
      | Undef \<Rightarrow> Undef)"

fun legacy_scan :: "cstr \<Rightarrow> (int \<times> int) outcome" where
  "legacy_scan [] = Fail"
| "legacy_scan (c # s) =
     (if c = CHR ''-'' \<and> vdrive_prefix s then
        (case parse_vdrive s of Done r \<Rightarrow> Done r | Undef \<Rightarrow> Undef | Fail \<Rightarrow> legacy_scan s)
      else legacy_scan s)"

text \<open>The drives: their number and the model string of a drive that is present.\<close>

record drives =
  drive_count :: nat
  drive_model :: "nat \<Rightarrow> cstr option"

definition devvfs_parse_drive :: "drives \<Rightarrow> cstr \<Rightarrow> (int \<times> int) outcome" where
  "devvfs_parse_drive ds name =
     (if name = [] then Fail
      else if vdrive_prefix name then parse_vdrive name
      else case legacy_scan name of
             Done r \<Rightarrow> Done r
           | Undef \<Rightarrow> Undef
           | Fail \<Rightarrow>
               (case find (\<lambda>i. case drive_model ds i of
                     None \<Rightarrow> False
                   | Some model \<Rightarrow>
                       let san = sanitize_drive_name model 64 in san \<noteq> [] \<and> str_ieq san name)
                   [0..<drive_count ds] of
                  Some i \<Rightarrow> Done (int i, 0)
                | None \<Rightarrow> Fail))"

section \<open>The mount table\<close>

record mount_entry =
  in_use :: bool
  vdrive_id :: int
  partition_lba :: u32
  partition_index :: int
  mount_valid :: bool

abbreviation MAX_MOUNTS :: nat where "MAX_MOUNTS \<equiv> 26"

type_synonym mount_table = "mount_entry list"

text \<open>A pointer to a mount is its slot.\<close>

definition slot_used :: "mount_table \<Rightarrow> int \<Rightarrow> bool" where
  "slot_used mt slot = (\<not> (slot < 0 \<or> slot \<ge> int MAX_MOUNTS \<or> \<not> in_use (mt ! nat slot)))"

definition fs_get_mount :: "mount_table \<Rightarrow> int \<Rightarrow> nat option" where
  "fs_get_mount mt slot = (if slot_used mt slot then Some (nat slot) else None)"

definition fs_get_mount_info :: "mount_table \<Rightarrow> int \<Rightarrow> (int \<times> u32) option" where
  "fs_get_mount_info mt slot =
     (if slot_used mt slot
      then Some (vdrive_id (mt ! nat slot), partition_lba (mt ! nat slot)) else None)"

definition fs_get_mount_partition_index :: "mount_table \<Rightarrow> int \<Rightarrow> int" where
  "fs_get_mount_partition_index mt slot =
     (if slot_used mt slot then partition_index (mt ! nat slot) else 0)"

text \<open>The label of a mount. The number of the partition is printed through a buffer of eight bytes.\<close>

definition fs_get_mount_label :: "mount_table \<Rightarrow> int \<Rightarrow> char list \<Rightarrow> nat \<Rightarrow> char list outcome" where
  "fs_get_mount_label mt slot out out_size =
     (if out_size = 0 then Fail
      else if \<not> slot_used mt slot then Fail
      else
        let e = mt ! nat slot;
            cat = (\<lambda>s out. strncat out s
              (unat (of_nat out_size - of_nat (strlen (cstr_of out)) - 1 :: u64)));
            pstr = itoa (word_of_int (partition_index e)) 10;
            r = Option.bind (strcpy out ''vDrive'')
                  (\<lambda>out. Option.bind (cat (itoa (word_of_int (vdrive_id e)) 10) out)
                  (\<lambda>out. if partition_index e > 0
                         then if length pstr < 8 then Option.bind (cat ''-P'' out) (cat pstr) else None
                         else Some out))
        in case r of None \<Rightarrow> Undef | Some out \<Rightarrow> Done out)"

section \<open>Resolution\<close>

datatype fs_route = FS_ROUTE_CURRENT | FS_ROUTE_DEVVFS | FS_ROUTE_MOUNT | FS_ROUTE_USERLAND

record fs_path_resolved =
  route :: fs_route
  mount_slot :: int
  mount :: "nat option"
  rel_path :: "char list"
  devvfs_kind :: int
  devvfs_drive :: int

definition blank_resolved :: fs_path_resolved where
  "blank_resolved = \<lparr>route = FS_ROUTE_CURRENT, mount_slot = -1, mount = None,
     rel_path = replicate 256 NUL, devvfs_kind = 0, devvfs_drive = -1\<rparr>"

definition mount_ok :: "mount_table \<Rightarrow> nat option \<Rightarrow> bool" where
  "mount_ok mt m = (case m of None \<Rightarrow> False | Some i \<Rightarrow> mount_valid (mt ! i))"

text \<open>The relative path \<^verbatim>\<open>/\<close> followed by the strings given, each appended with a limit of 254.\<close>

definition rel_append :: "cstr list \<Rightarrow> char list option" where
  "rel_append ss =
     fold (\<lambda>s buf. Option.bind buf (\<lambda>b. strncat b s 254)) ss
       (Some (CHR ''/'' # replicate 255 NUL))"

definition with_rel :: "cstr list \<Rightarrow> fs_path_resolved \<Rightarrow> fs_path_resolved outcome" where
  "with_rel ss out = (case rel_append ss of None \<Rightarrow> Undef | Some b \<Rightarrow> Done (out\<lparr>rel_path := b\<rparr>))"

definition is_blank :: "char \<Rightarrow> bool" where
  "is_blank c = (c = CHR '' '' \<or> c = CHR 0x09 \<or> c = CHR 0x0D \<or> c = CHR 0x0A)"

text \<open>The first component, at most 63 characters of it, and what follows it.\<close>

definition first_component :: "cstr \<Rightarrow> cstr \<times> cstr" where
  "first_component p =
     (let comp = take 63 (takeWhile (\<lambda>c. \<not> is_sep c) p)
      in (comp, dropWhile is_sep (drop (length comp) p)))"

definition resolve_mnt ::
  "mount_table \<Rightarrow> drives \<Rightarrow> cstr \<Rightarrow> fs_path_resolved outcome" where
  "resolve_mnt mt ds rest =
     (if rest = [] then Done (blank_resolved\<lparr>route := FS_ROUTE_DEVVFS, devvfs_kind := 1\<rparr>)
      else
        let (drv, sub) = first_component rest
        in case devvfs_parse_drive ds drv of
             Fail \<Rightarrow> Fail
           | Undef \<Rightarrow> Undef
           | Done (vdid, want_part) \<Rightarrow>
               (case find (\<lambda>slot. case fs_get_mount_info mt (int slot) of
                     None \<Rightarrow> False
                   | Some (v, lba) \<Rightarrow> v = vdid \<and>
                       (want_part > 0 \<longrightarrow> fs_get_mount_partition_index mt (int slot) = want_part))
                   [0..<26] of
                  None \<Rightarrow> Fail
                | Some slot \<Rightarrow>
                    (case with_rel (if sub = [] then [] else [sub])
                        (blank_resolved\<lparr>route := FS_ROUTE_MOUNT, mount_slot := int slot,
                           mount := fs_get_mount mt (int slot), devvfs_drive := vdid\<rparr>) of
                       Done out \<Rightarrow> if mount_ok mt (mount out) then Done out else Fail
                     | Fail \<Rightarrow> Fail
                     | Undef \<Rightarrow> Undef)))"

definition fs_resolve_path ::
  "mount_table \<Rightarrow> drives \<Rightarrow> int \<Rightarrow> cstr \<Rightarrow> fs_path_resolved outcome" where
  "fs_resolve_path mt ds current_slot path0 =
     (let path = dropWhile is_blank path0
      in if path = [] then Fail
         else if \<not> (char_at path 0 = CHR ''$'' \<and> char_at path 1 = CHR ''/'') then
           (case Option.bind (strncpy (replicate 256 NUL) path 255) (put_at 255 [NUL]) of
              None \<Rightarrow> Undef
            | Some b \<Rightarrow>
                let out = blank_resolved\<lparr>route := FS_ROUTE_CURRENT, mount_slot := current_slot,
                      mount := fs_get_mount mt current_slot, rel_path := b\<rparr>
                in if mount_ok mt (mount out) then Done out else Fail)
         else
           let p = dropWhile is_sep (drop 2 path)
           in if p = [] then with_rel [] (blank_resolved\<lparr>route := FS_ROUTE_DEVVFS\<rparr>)
              else
                let (comp, rest) = first_component p
                in if comp = [] then Fail
                   else if str_ieq comp ''mnt'' then resolve_mnt mt ds rest
                   else if str_ieq comp ''dev'' then
                     with_rel (if rest = [] then [] else [rest])
                       (blank_resolved\<lparr>route := FS_ROUTE_DEVVFS, devvfs_kind := 2\<rparr>)
                   else if str_ieq comp ''user'' then
                     with_rel (if rest = [] then [''user''] else [''user'', ''/'', rest])
                       (blank_resolved\<lparr>route := FS_ROUTE_USERLAND\<rparr>)
                   else Fail)"

end
