(* ===== verification/Path_Correct.thy ===== *)
theory Path_Correct
  imports Path Cstring_Props
begin

text \<open>The properties of path normalisation, mount labels and path resolution.\<close>

section \<open>Segments\<close>

function segments :: "cstr \<Rightarrow> cstr list" where
  "segments p =
     (let q = dropWhile is_sep p
      in if q = [] then []
         else takeWhile (\<lambda>c. \<not> is_sep c) q # segments (dropWhile (\<lambda>c. \<not> is_sep c) q))"
  by pat_completeness auto
termination
  by (relation "measure length") (auto intro: drop_segment_less)

declare segments.simps [simp del]

lemma segments_Nil [simp]: "segments [] = []"
  by (subst segments.simps) simp

lemma segment_scan_foldl: "segment_scan segs p = foldl push_segment segs (segments p)"
proof (induction segs p rule: segment_scan.induct)
  case (1 segs p)
  then show ?case
    by (subst segment_scan.simps, subst segments.simps) (simp add: Let_def)
qed

definition plain :: "cstr \<Rightarrow> bool" where
  "plain seg = (seg \<noteq> [] \<and> list_all (\<lambda>c. \<not> is_sep c) seg \<and> seg \<noteq> ''.'' \<and> seg \<noteq> ''..'')"

text \<open>The segments with a slash between them.\<close>

fun join :: "cstr list \<Rightarrow> cstr" where
  "join [] = []"
| "join [seg] = seg"
| "join (seg # segs) = seg @ ''/'' @ join segs"

lemma join_Cons: "segs \<noteq> [] \<Longrightarrow> join (seg # segs) = seg @ ''/'' @ join segs"
  by (cases segs) auto

lemma segments_slash: "segments (CHR ''/'' # p) = segments p"
  by (subst (1 2) segments.simps) (simp add: is_sep_def)

lemma segments_seg:
  assumes "seg \<noteq> []" and "list_all (\<lambda>c. \<not> is_sep c) seg" and "r = [] \<or> is_sep (hd r)"
  shows "segments (seg @ r) = seg # segments r"
proof -
  have d: "dropWhile is_sep (seg @ r) = seg @ r" using assms(1,2) by (cases seg) auto
  have t: "takeWhile (\<lambda>c. \<not> is_sep c) (seg @ r) = seg" "dropWhile (\<lambda>c. \<not> is_sep c) (seg @ r) = r"
    using assms(2,3) by (cases r; auto simp: takeWhile_append dropWhile_append list_all_iff)+
  show ?thesis using assms(1) d t by (subst segments.simps) simp
qed

lemma segments_join: "list_all plain segs \<Longrightarrow> segments (join segs) = segs"
proof (induction segs rule: join.induct)
  case 1
  then show ?case by simp
next
  case (2 seg)
  then show ?case using segments_seg [of seg "[]"] by (simp add: plain_def)
next
  case (3 seg v va)
  then show ?case
    using segments_seg [of seg "''/'' @ join (v # va)"] segments_slash [of "join (v # va)"]
    by (simp add: plain_def is_sep_def)
qed

lemma segments_nonempty: "seg \<in> set (segments p) \<Longrightarrow> seg \<noteq> [] \<and> list_all (\<lambda>c. \<not> is_sep c) seg"
proof (induction p rule: segments.induct)
  case (1 p)
  show ?case
  proof (cases "dropWhile is_sep p")
    case Nil
    then show ?thesis using 1(2) by (subst (asm) segments.simps) simp
  next
    case (Cons c q)
    then have "\<not> is_sep c" using hd_dropWhile [of is_sep p] by fastforce
    then have "takeWhile (\<lambda>c. \<not> is_sep c) (c # q) \<noteq> []" by simp
    moreover have "list_all (\<lambda>c. \<not> is_sep c) (takeWhile (\<lambda>c. \<not> is_sep c) (c # q))"
      by (auto simp: list_all_iff dest: set_takeWhileD)
    ultimately show ?thesis
      using 1 Cons by (subst (asm) (2) segments.simps) (auto simp: Let_def)
  qed
qed

lemma push_segment_plain:
  assumes "list_all plain segs" and "length segs \<le> 64" and "seg \<noteq> []" "list_all (\<lambda>c. \<not> is_sep c) seg"
  shows "list_all plain (push_segment segs seg) \<and> length (push_segment segs seg) \<le> 64"
  using assms by (auto simp: push_segment_def plain_def list_all_iff dest: in_set_butlastD)

lemma foldl_push_plain:
  assumes "list_all plain segs" and "length segs \<le> 64"
    and "\<forall>seg\<in>set ts. seg \<noteq> [] \<and> list_all (\<lambda>c. \<not> is_sep c) seg"
  shows "list_all plain (foldl push_segment segs ts) \<and> length (foldl push_segment segs ts) \<le> 64"
  using assms
proof (induction ts arbitrary: segs)
  case (Cons t ts)
  then show ?case using push_segment_plain [of segs t] by simp
qed simp

lemma segment_scan_plain:
  "list_all plain (segment_scan [] p) \<and> length (segment_scan [] p) \<le> 64"
  unfolding segment_scan_foldl
  by (rule foldl_push_plain) (use segments_nonempty in auto)

lemma foldl_push_id:
  assumes "list_all plain ts" and "length segs + length ts \<le> 64"
  shows "foldl push_segment segs ts = segs @ ts"
  using assms by (induction ts arbitrary: segs) (auto simp: push_segment_def plain_def)

text \<open>Scanning the joined segments gives them back.\<close>

lemma segment_scan_join:
  assumes "list_all plain segs" and "length segs \<le> 64"
  shows "segment_scan [] (join segs) = segs" "segment_scan [] (CHR ''/'' # join segs) = segs"
  using assms foldl_push_id [of segs "[]"]
  by (simp_all add: segment_scan_foldl segments_join segments_slash)

section \<open>The place a path names\<close>

text \<open>The reference for both normalisers, without the code's scan. A path is cut at every slash and the empty
  pieces are dropped. The names are then followed from the root of a directory tree: a place is the list of the
  directory names above it, the nearest one first; \<^verbatim>\<open>.\<close> stays, \<^verbatim>\<open>..\<close> goes to the directory above (the root is above
  itself) and any other name goes down. \<open>canonical\<close> is the place as names from the root.\<close>

fun pieces :: "cstr \<Rightarrow> cstr list" where
  "pieces [] = [[]]"
| "pieces (c # s) = (if c = CHR ''/'' then [] # pieces s else (c # hd (pieces s)) # tl (pieces s))"

definition names :: "cstr \<Rightarrow> cstr list" where
  "names s = filter (\<lambda>n. n \<noteq> []) (pieces s)"

fun go :: "cstr \<Rightarrow> cstr list \<Rightarrow> cstr list" where
  "go n place = (if n = ''.'' then place else if n = ''..'' then tl place else n # place)"

declare go.simps [simp del]

definition follow :: "cstr list \<Rightarrow> cstr list" where
  "follow ns = fold go ns []"

definition canonical :: "cstr \<Rightarrow> cstr list" where
  "canonical s = rev (follow (names s))"

text \<open>Both normalisers hold 64 names. \<open>shallow\<close> says that a place has fewer than 64 names above it when
  the next name of the path is followed.\<close>

definition shallow :: "cstr list \<Rightarrow> bool" where
  "shallow ns = (\<forall>i < length ns. length (follow (take i ns)) < 64)"

lemma pieces_nonempty [simp]: "pieces s \<noteq> []"
  by (cases s) auto

lemma pieces_append: "list_all (\<lambda>c. \<not> is_sep c) a \<Longrightarrow> pieces (a @ s) = (a @ hd (pieces s)) # tl (pieces s)"
  by (induction a) (auto simp: is_sep_def)

lemma names_slash [simp]: "names (CHR ''/'' # s) = names s"
  by (simp add: names_def)

lemma names_skip: "names (dropWhile is_sep s) = names s"
  by (induction s) (auto simp: is_sep_def)

lemma names_first:
  assumes "a \<noteq> []" "list_all (\<lambda>c. \<not> is_sep c) a" "r = [] \<or> is_sep (hd r)"
  shows "names (a @ r) = a # names r"
proof (cases r)
  case Nil
  then show ?thesis using assms(1) pieces_append [OF assms(2), of "[]"] by (simp add: names_def)
next
  case (Cons c r')
  then have "c = CHR ''/''" using assms(3) by (simp add: is_sep_def)
  then show ?thesis using assms(1) pieces_append [OF assms(2), of r] Cons by (simp add: names_def)
qed

lemma segments_names: "segments p = names p"
proof (induction p rule: segments.induct)
  case (1 p)
  let ?q = "dropWhile is_sep p" and ?a = "takeWhile (\<lambda>c. \<not> is_sep c) (dropWhile is_sep p)"
    and ?r = "dropWhile (\<lambda>c. \<not> is_sep c) (dropWhile is_sep p)"
  show ?case
  proof (cases "?q = []")
    case True
    then have "names p = names []" using names_skip [of p] by metis
    then show ?thesis using True segments.simps [of p] by (simp add: names_def)
  next
    case False
    have "\<not> is_sep (hd ?q)" using hd_dropWhile [OF False] .
    then have a: "?a \<noteq> []" using False by (cases ?q) auto
    have r: "?r = [] \<or> is_sep (hd ?r)" using hd_dropWhile [of "\<lambda>c. \<not> is_sep c" ?q] by blast
    have "names p = names (?a @ ?r)" using names_skip [of p] by simp
    also have "\<dots> = ?a # names ?r" by (rule names_first [OF a _ r]) (auto simp: list_all_iff dest: set_takeWhileD)
    also have "\<dots> = ?a # segments ?r" using "1.IH" [OF refl False] by simp
    also have "\<dots> = segments p" using False segments.simps [of p] by (simp only: Let_def if_False)
    finally show ?thesis by simp
  qed
qed

lemma push_go: "length place < 64 \<Longrightarrow> push_segment (rev place) n = rev (go n place)"
  by (cases place) (simp_all add: push_segment_def go.simps)

lemma follow_snoc: "follow (ns @ [n]) = go n (follow ns)"
  by (simp add: follow_def)

lemma shallow_take: "shallow ns \<Longrightarrow> shallow (take i ns)"
  by (simp add: shallow_def min_def)

lemma follow_length: "length (follow ns) \<le> length ns"
proof (induction ns rule: rev_induct)
  case (snoc n ns)
  have "length (go n place) \<le> Suc (length place)" for place by (cases place) (simp_all add: go.simps)
  from this [of "follow ns"] show ?case using snoc.IH by (simp add: follow_snoc)
qed (simp add: follow_def)

lemma shallow_few:
  assumes "length ns \<le> 64"
  shows "shallow ns"
  unfolding shallow_def
proof (intro allI impI)
  fix i
  assume "i < length ns"
  then show "length (follow (take i ns)) < 64" using follow_length [of "take i ns"] assms by simp
qed

lemma foldl_push_follow: "shallow ns \<Longrightarrow> foldl push_segment [] ns = rev (follow ns)"
proof (induction ns rule: rev_induct)
  case (snoc n ns)
  have "shallow ns" using shallow_take [OF snoc.prems, of "length ns"] by simp
  moreover have "length (follow ns) < 64" using snoc.prems by (auto simp: shallow_def dest: spec [of _ "length ns"])
  ultimately show ?case using snoc.IH push_go by (simp add: follow_snoc)
qed (simp add: follow_def)

section \<open>Rebuilding the path\<close>

lemma put_at_text:
  assumes "length pre = i" and "length out = 256" and "take i out = pre" and "i + length s \<le> 256"
  obtains out' where "put_at i s out = Some out'" "length out' = 256" "take (i + length s) out' = pre @ s"
proof
  show "put_at i s out = Some (take i out @ s @ drop (i + length s) out)"
    using assms by (simp add: put_at_def)
qed (use assms in auto)

text \<open>What the loop appends: the separator if the text does not end in one, and the joined segments.\<close>

lemma rebuild_text:
  assumes "length out = 256" and "take oi out = pre" and "length pre = oi" and "pre \<noteq> []"
    and "sep = (if last pre = CHR ''/'' then [] else ''/'')"
    and "segs \<noteq> []" and "list_all plain segs"
    and "length (pre @ sep @ join segs) \<le> 255"
  shows "\<exists>out'. rebuild segs oi out = Some (length (pre @ sep @ join segs), out') \<and> length out' = 256 \<and>
    take (Suc (length (pre @ sep @ join segs))) out' = pre @ sep @ join segs @ [NUL]"
  using assms
proof (induction segs arbitrary: oi out pre sep)
  case (Cons seg segs)
  let ?pre = "pre @ sep"
  have oi: "oi > 0" and nth: "out ! (oi - 1) = last pre"
    using Cons.prems by (auto simp: last_conv_nth)
  obtain out1 where out1: "(if oi > 0 \<and> out ! (oi - 1) \<noteq> CHR ''/''
        then map_option (Pair (oi + 1)) (put_at oi ''/'' out) else Some (oi, out))
      = Some (length ?pre, out1)" "length out1 = 256" "take (length ?pre) out1 = ?pre"
  proof (cases "last pre = CHR ''/''")
    case True
    then show thesis using that [of out] Cons.prems nth by simp
  next
    case False
    have "oi + length ''/'' \<le> 256" using Cons.prems by (auto simp: join_Cons split: if_splits)
    from put_at_text [OF Cons.prems(3,1,2) this] obtain o' where
      "put_at oi ''/'' out = Some o'" "length o' = 256" "take (oi + 1) o' = pre @ ''/''" by auto
    then show thesis using that [of o'] False oi nth Cons.prems(3,5) by simp
  qed
  have fit: "length ?pre + length seg \<le> 255"
    using Cons.prems(8) by (cases segs) auto
  then have "length ?pre + length (seg @ [NUL]) \<le> 256" by simp
  from put_at_text [OF refl out1(2,3) this] obtain out2 where out2:
    "put_at (length ?pre) (seg @ [NUL]) out1 = Some out2" "length out2 = 256"
    "take (length ?pre + length (seg @ [NUL])) out2 = ?pre @ seg @ [NUL]" by blast
  have step: "rebuild (seg # segs) oi out = rebuild segs (length ?pre + length seg) out2"
    using out1(1) out2(1) fit by simp
  show ?case
  proof (cases "segs = []")
    case True
    then show ?thesis using step out2 by (simp add: add.assoc)
  next
    case False
    have t2: "take (length ?pre + length seg) out2 = ?pre @ seg"
      using arg_cong [OF out2(3), of "take (length ?pre + length seg)"] by (simp add: min_def)
    have plain: "plain seg" "list_all plain segs" using Cons.prems(7) by simp_all
    have nl: "last (?pre @ seg) \<noteq> CHR ''/''" "?pre @ seg \<noteq> []"
      using plain(1) by (auto simp: plain_def is_sep_def list_all_iff)
    have len: "length ((?pre @ seg) @ ''/'' @ join segs) \<le> 255"
      using Cons.prems(8) False by (simp add: join_Cons)
    from Cons.IH [OF out2(2) t2 _ nl(2) _ False plain(2) len] nl(1) show ?thesis
      using step False by (simp add: join_Cons)
  qed
qed simp

section \<open>Normalisation\<close>

text \<open>The prefix of a path that is normalised, and the normal form.\<close>

definition root_prefix :: "cstr \<Rightarrow> cstr option" where
  "root_prefix s =
     (if chr_at s = CHR ''$'' \<and> chr_at (tl s) = CHR ''/'' then Some ''$/''
      else if chr_at s = CHR ''/'' then Some ''/'' else None)"

definition normal_segments :: "cstr \<Rightarrow> cstr list" where
  "normal_segments s =
     segment_scan [] (drop (if chr_at s = CHR ''$'' \<and> chr_at (tl s) = CHR ''/'' then 2 else 0) s)"

lemma root_prefix_cases:
  assumes "root_prefix s = Some pre"
  shows "pre = ''/'' \<or> pre = ''$/''" and "pre \<noteq> []" and "last pre = CHR ''/''" and "length pre \<le> 2"
  using assms by (auto simp: root_prefix_def split: if_splits)

lemma path_normalize_code:
  assumes "root_prefix (cstr_of path) = Some pre"
  shows "path_normalize_inplace junk path =
    Option.bind (put_at 0 pre junk) (\<lambda>out.
      Option.bind (rebuild (normal_segments (cstr_of path)) (length pre) out) (\<lambda>(oi, out).
        let out = (if oi > length pre \<and> out ! (oi - 1) = CHR ''/'' then out[oi - 1 := NUL] else out)
        in Option.bind (strncpy path (cstr_of out) 255) (\<lambda>path. put_at 255 [NUL] path)))"
  using assms
  by (auto simp: path_normalize_inplace_def root_prefix_def normal_segments_def Let_def split: if_splits)

lemma last_join_plain:
  assumes "segs \<noteq> []" and "list_all plain segs"
  shows "join segs \<noteq> [] \<and> last (join segs) \<noteq> CHR ''/''"
  using assms by (induction segs rule: join.induct) (auto simp: plain_def is_sep_def list_all_iff)

lemma NUL_free_scan:
  assumes "NUL \<notin> set p" and "seg \<in> set (segments p)"
  shows "NUL \<notin> set seg"
  using assms
proof (induction p rule: segments.induct)
  case (1 p)
  let ?q = "dropWhile is_sep p"
  have sub: "set (takeWhile f ?q) \<subseteq> set p" "set (dropWhile f ?q) \<subseteq> set p" for f
    by (meson order_trans set_dropWhileD set_takeWhileD subsetI)+
  show ?case
  proof (cases "?q = []")
    case True
    then show ?thesis using "1.prems"(2) by (subst (asm) segments.simps) simp
  next
    case False
    then have "seg = takeWhile (\<lambda>c. \<not> is_sep c) ?q \<or> seg \<in> set (segments (dropWhile (\<lambda>c. \<not> is_sep c) ?q))"
      using "1.prems"(2) segments.simps [of p] by (simp only: Let_def if_False set_simps insert_iff)
    then show ?thesis using "1.IH" [OF refl False] "1.prems"(1) sub by blast
  qed
qed

lemma NUL_free_foldl:
  assumes "\<forall>t\<in>set segs \<union> set ts. NUL \<notin> set t"
  shows "\<forall>t\<in>set (foldl push_segment segs ts). NUL \<notin> set t"
  using assms
proof (induction ts arbitrary: segs)
  case (Cons t ts)
  have "\<forall>u\<in>set (push_segment segs t) \<union> set ts. NUL \<notin> set u"
    using Cons.prems by (auto simp: push_segment_def dest: in_set_butlastD)
  then show ?case using Cons.IH by simp
qed simp

lemma NUL_free_join: "\<forall>t\<in>set segs. NUL \<notin> set t \<Longrightarrow> NUL \<notin> set (join segs)"
  by (induction segs rule: join.induct) auto

lemma NUL_free_cstr: "NUL \<notin> set (cstr_of b)"
  by (auto simp: cstr_of_def dest: set_takeWhileD)

lemma NUL_free_normal: "NUL \<notin> set s \<Longrightarrow> NUL \<notin> set (join (normal_segments s))"
proof -
  assume "NUL \<notin> set s"
  then have "NUL \<notin> set (drop k s)" for k by (meson in_set_dropD)
  then have "\<forall>t\<in>set [] \<union> set (segments (drop k s)). NUL \<notin> set t" for k
    using NUL_free_scan by auto
  then show ?thesis
    unfolding normal_segments_def segment_scan_foldl by (intro NUL_free_join NUL_free_foldl)
qed

lemma normal_segments_plain: "list_all plain (normal_segments s) \<and> length (normal_segments s) \<le> 64"
  unfolding normal_segments_def by (rule segment_scan_plain)

lemma path_normalize_text:
  assumes pre: "root_prefix (cstr_of path) = Some pre" and junk: "length junk = 256"
    and path: "256 \<le> length path" and ne: "normal_segments (cstr_of path) \<noteq> []"
    and fit: "length (pre @ join (normal_segments (cstr_of path))) \<le> 255"
  shows "\<exists>path'. path_normalize_inplace junk path = Some path' \<and> length path' = length path \<and>
    cstr_of path' = pre @ join (normal_segments (cstr_of path))"
proof -
  let ?segs = "normal_segments (cstr_of path)" and ?txt = "pre @ join (normal_segments (cstr_of path))"
  note rp = root_prefix_cases [OF pre]
  have "0 + length pre \<le> 256" using rp(4) by simp
  from put_at_text [of "[]" 0 junk pre, OF _ junk _ this] obtain out1 where
    out1: "put_at 0 pre junk = Some out1" "length out1 = 256" "take (length pre) out1 = pre" by auto
  have plain: "list_all plain ?segs" using normal_segments_plain by blast
  from rebuild_text [OF out1(2,3) refl rp(2) refl ne plain] rp(3) fit obtain out2 where
    out2: "rebuild ?segs (length pre) out1 = Some (length ?txt, out2)" "length out2 = 256"
      "take (Suc (length ?txt)) out2 = ?txt @ [NUL]" by auto
  have free: "NUL \<notin> set ?txt"
    using NUL_free_normal [OF NUL_free_cstr] rp(1) by auto
  have o2: "out2 = ?txt @ NUL # drop (Suc (length ?txt)) out2"
    using out2(3) append_take_drop_id [of "Suc (length ?txt)" out2] by (metis append.assoc append_Cons append_Nil)
  then have c2: "cstr_of out2 = ?txt" using cstr_of_append_NUL [OF free] by metis
  have "out2 ! (length ?txt - 1) = last ?txt"
    using o2 last_join_plain [OF ne plain]
    by (metis append_is_Nil_conv diff_less last_conv_nth length_greater_0_conv nth_append zero_less_one)
  then have nl: "out2 ! (length ?txt - 1) \<noteq> CHR ''/''"
    using last_join_plain [OF ne plain] by simp
  have cp: "strncpy path ?txt 255 = Some (take 255 ?txt @ replicate (255 - length ?txt) NUL @ drop 255 path)"
    using path by (intro strncpy_eq) simp
  let ?p1 = "?txt @ replicate (255 - length ?txt) NUL @ drop 255 path"
  have p1: "strncpy path ?txt 255 = Some ?p1" using cp fit by simp
  have "put_at 255 [NUL] ?p1 = Some (take 255 ?p1 @ NUL # drop 256 ?p1)"
    using path fit by (simp add: put_at_def)
  moreover have "take 255 ?p1 = ?txt @ replicate (255 - length ?txt) NUL" using fit by simp
  ultimately have p2: "put_at 255 [NUL] ?p1 = Some (?txt @ replicate (255 - length ?txt) NUL @ NUL # drop 256 path)"
    using fit path by simp
  have "path_normalize_inplace junk path = Some (?txt @ replicate (255 - length ?txt) NUL @ NUL # drop 256 path)"
    unfolding path_normalize_code [OF pre] using out1(1) out2(1) nl c2 p1 p2 by (simp add: Let_def)
  moreover have "cstr_of (?txt @ replicate (255 - length ?txt) NUL @ NUL # drop 256 path) = ?txt"
    using free by (cases "255 - length ?txt") (simp_all add: cstr_of_append_NUL [of "?txt", simplified])
  moreover have "length (?txt @ replicate (255 - length ?txt) NUL @ NUL # drop 256 path) = length path"
    using fit path by simp
  ultimately show ?thesis by blast
qed

lemma normal_form_fixpoint:
  assumes "root_prefix s = Some pre"
  shows "root_prefix (pre @ join (normal_segments s)) = Some pre"
    and "normal_segments (pre @ join (normal_segments s)) = normal_segments s"
  using root_prefix_cases(1) [OF assms] segment_scan_join [of "normal_segments s"] normal_segments_plain [of s]
  by (auto simp: root_prefix_def normal_segments_def [of "CHR ''/'' # _"] normal_segments_def [of "CHR ''$'' # _"])

lemma normal_segments_canonical:
  assumes "root_prefix s = Some pre" "shallow (names (drop (length pre) s))"
  shows "normal_segments s = canonical (drop (length pre) s)"
proof -
  have "normal_segments s = segment_scan [] (drop (length pre) s)"
  proof (cases "pre = ''/''")
    case True
    then obtain s' where "s = CHR ''/'' # s'" using assms(1) by (cases s) (auto simp: root_prefix_def split: if_splits)
    then show ?thesis using True by (simp add: normal_segments_def segment_scan_foldl segments_slash)
  next
    case False
    then show ?thesis using assms(1) by (auto simp: root_prefix_def normal_segments_def numeral_2_eq_2 split: if_splits)
  qed
  then show ?thesis using foldl_push_follow [OF assms(2)] by (simp add: segment_scan_foldl segments_names canonical_def)
qed

text \<open>C13. \<^verbatim>\<open>path_normalize_inplace\<close> on an absolute or virtual path leaves the canonical path of the place it
  names: the prefix, and the names from the root to the place with one slash between two. The path must not name
  the root itself, fewer than 64 names may be open whenever a further one is followed, and the result must fit into
  255 characters. No byte outside the objects is written, and normalising the result again changes nothing.\<close>

theorem path_normalize_correct:
  assumes pre: "root_prefix (cstr_of path) = Some pre" and junk: "length junk = 256"
    and path: "256 \<le> length path" and ns: "ns = canonical (drop (length pre) (cstr_of path))" and ne: "ns \<noteq> []"
    and sh: "shallow (names (drop (length pre) (cstr_of path)))" and fit: "length (pre @ join ns) \<le> 255"
  shows "\<exists>path' path''. path_normalize_inplace junk path = Some path' \<and>
    length path' = length path \<and> cstr_of path' = pre @ join ns \<and>
    path_normalize_inplace junk path' = Some path'' \<and> cstr_of path'' = cstr_of path'"
proof -
  have n: "normal_segments (cstr_of path) = ns" using normal_segments_canonical [OF pre sh] ns by simp
  obtain path' where p': "path_normalize_inplace junk path = Some path'" "length path' = length path"
      "cstr_of path' = pre @ join ns"
    using path_normalize_text [OF pre junk path] n ne fit by auto
  note fp = normal_form_fixpoint [OF pre, unfolded n, folded p'(3)]
  obtain path'' where "path_normalize_inplace junk path' = Some path''"
      "cstr_of path'' = pre @ join (normal_segments (cstr_of path'))"
    using path_normalize_text [OF fp(1) junk] p'(2) path ne fit unfolding fp(2) by auto
  then show ?thesis using p' unfolding fp(2) by auto
qed

theorem path_normalize_correct_witness:
  "\<exists>path' path''. path_normalize_inplace (replicate 256 (CHR ''x''))
      (''$/mnt//a/./b/../c'' @ replicate 240 NUL) = Some path' \<and>
    cstr_of path' = ''$/mnt/a/c'' \<and>
    path_normalize_inplace (replicate 256 (CHR ''x'')) path' = Some path'' \<and> cstr_of path'' = cstr_of path'"
proof -
  let ?path = "''$/mnt//a/./b/../c'' @ replicate 240 NUL"
  have c: "cstr_of ?path = ''$/mnt//a/./b/../c''" by code_simp
  have s: "[''mnt'', ''a'', ''c''] = canonical (drop (length ''$/'') (cstr_of ?path))" unfolding c by code_simp
  have d: "shallow (names (drop (length ''$/'') (cstr_of ?path)))" unfolding c by (rule shallow_few) code_simp
  have p: "root_prefix (cstr_of ?path) = Some ''$/''" unfolding c by code_simp
  show ?thesis using path_normalize_correct [OF p _ _ s _ d, of "replicate 256 (CHR ''x'')"] by auto
qed

text \<open>C35. When no segment remains, the string \<^verbatim>\<open>path_normalize_inplace\<close> builds is not
  terminated: the path becomes the prefix followed by whatever the uninitialised stack buffer held.\<close>

theorem path_normalize_root_leaks:
  assumes pre: "root_prefix (cstr_of path) = Some pre" and junk: "length junk = 256"
    and path: "length path = 256" and root: "normal_segments (cstr_of path) = []"
  shows "\<exists>path'. path_normalize_inplace junk path = Some path' \<and>
    cstr_of path' = take 255 (pre @ cstr_of (drop (length pre) junk))"
proof -
  note rp = root_prefix_cases [OF pre]
  let ?out = "pre @ drop (length pre) junk"
  have o: "put_at 0 pre junk = Some ?out" using rp(4) junk by (simp add: put_at_def)
  have free: "NUL \<notin> set pre" using rp(1) by auto
  then have c: "cstr_of ?out = pre @ cstr_of (drop (length pre) junk)"
    unfolding cstr_of_def by (intro takeWhile_append2) auto
  let ?t = "take 255 (cstr_of ?out)"
  let ?p = "?t @ replicate (255 - length (cstr_of ?out)) NUL @ drop 255 path"
  have "strncpy path (cstr_of ?out) 255 = Some ?p"
    using path by (intro strncpy_eq) simp
  moreover have "put_at 255 [NUL] ?p = Some (?t @ replicate (255 - length (cstr_of ?out)) NUL @ [NUL])"
    using path by (auto simp: put_at_def)
  moreover have "cstr_of (?t @ replicate (255 - length (cstr_of ?out)) NUL @ [NUL]) = ?t"
  proof -
    have "NUL \<notin> set ?t" using NUL_free_cstr in_set_takeD by metis
    then show ?thesis
      by (cases "255 - length (cstr_of ?out)") (simp_all add: cstr_of_append_NUL)
  qed
  ultimately show ?thesis
    unfolding path_normalize_code [OF pre] root using o c by simp
qed

theorem path_normalize_root_leaks_witness:
  "\<exists>path'. path_normalize_inplace (''stale data'' @ replicate 246 NUL) (''/'' @ replicate 255 NUL) = Some path' \<and>
    cstr_of path' = ''/tale data''"
proof -
  have c: "cstr_of (''/'' @ replicate 255 NUL) = ''/''" by code_simp
  have "root_prefix (cstr_of (''/'' @ replicate 255 NUL)) = Some ''/''"
    "normal_segments (cstr_of (''/'' @ replicate 255 NUL)) = []" unfolding c by code_simp+
  from path_normalize_root_leaks [OF this(1) _ _ this(2), of "''stale data'' @ replicate 246 NUL"]
  have "\<exists>path'. path_normalize_inplace (''stale data'' @ replicate 246 NUL) (''/'' @ replicate 255 NUL) = Some path' \<and>
    cstr_of path' = take 255 (''/'' @ cstr_of (drop 1 (''stale data'' @ replicate 246 NUL)))"
    by simp
  moreover have "take 255 (''/'' @ cstr_of (drop 1 (''stale data'' @ replicate 246 NUL))) = ''/tale data''"
    by code_simp
  ultimately show ?thesis by (simp only:)
qed

section \<open>\<^verbatim>\<open>normalize_path\<close>\<close>

lemma part_scan_foldl:
  assumes "\<forall>i < length (segments p). length (foldl push_segment parts (take i (segments p))) < 64"
  shows "part_scan parts p = foldl push_segment parts (segments p)"
  using assms
proof (induction parts p rule: part_scan.induct)
  case (1 parts p)
  let ?q = "dropWhile is_sep p"
  show ?case
  proof (cases "?q = []")
    case True
    then show ?thesis
      by (subst part_scan.simps, subst segments.simps) simp
  next
    case False
    let ?seg = "takeWhile (\<lambda>c. \<not> is_sep c) ?q" and ?r = "dropWhile (\<lambda>c. \<not> is_sep c) ?q"
    have segs: "segments p = ?seg # segments ?r"
      using False segments.simps [of p] by (simp only: Let_def if_False)
    have n64: "\<not> length parts \<ge> 64" using spec [OF "1.prems", of 0] segs by simp
    let ?parts = "if ?seg = ''.'' then parts else if ?seg = ''..'' then butlast parts else parts @ [?seg]"
    have push: "push_segment parts ?seg = ?parts" using n64 by (simp add: push_segment_def)
    have rest: "\<forall>i < length (segments ?r). length (foldl push_segment ?parts (take i (segments ?r))) < 64"
    proof (intro allI impI)
      fix i
      assume "i < length (segments ?r)"
      then show "length (foldl push_segment ?parts (take i (segments ?r))) < 64"
        using spec [OF "1.prems", of "Suc i"] unfolding segs push [symmetric] by simp
    qed
    have "part_scan parts p = part_scan ?parts ?r"
      using False n64 part_scan.simps [of parts p] by (simp only: Let_def if_False HOL.simp_thms)
    also have "\<dots> = foldl push_segment ?parts (segments ?r)"
      by (rule "1.IH" [OF refl _ refl refl rest]) (use False n64 in auto)
    finally show ?thesis using segs push by simp
  qed
qed

lemma part_scan_canonical:
  assumes "shallow (names s)"
  shows "part_scan [] s = canonical s"
proof -
  have "\<forall>i < length (segments s). length (foldl push_segment [] (take i (segments s))) < 64"
    using assms foldl_push_follow [OF shallow_take [OF assms]] by (simp add: segments_names shallow_def)
  then show ?thesis using part_scan_foldl foldl_push_follow [OF assms] by (simp add: segments_names canonical_def)
qed

lemma canonical_parts:
  assumes "shallow (names s)"
  shows "list_all plain (canonical s)" "NUL \<notin> set s \<Longrightarrow> \<forall>t \<in> set (canonical s). NUL \<notin> set t"
proof -
  have c: "canonical s = foldl push_segment [] (segments s)" using foldl_push_follow [OF assms] by (simp add: segments_names canonical_def)
  have "list_all plain (foldl push_segment [] (segments s)) \<and> length (foldl push_segment [] (segments s)) \<le> 64"
    by (rule foldl_push_plain) (use segments_nonempty in auto)
  then show "list_all plain (canonical s)" unfolding c by blast
  show "\<forall>t \<in> set (canonical s). NUL \<notin> set t" if "NUL \<notin> set s"
    unfolding c by (rule NUL_free_foldl) (use NUL_free_scan [OF that] in auto)
qed

lemma join_parts_text:
  assumes "length (a @ NUL # d) = 256" and "NUL \<notin> set a" and "i > 0 \<or> is_abs \<or> a = []"
    and "sep = (if a = [] \<or> last a = CHR ''/'' then [] else ''/'')"
    and "parts \<noteq> []" and "list_all plain parts" and "\<forall>t\<in>set parts. NUL \<notin> set t"
    and "length (a @ sep @ join parts) \<le> 255"
  shows "\<exists>d'. join_parts is_abs i parts (a @ NUL # d) = Some ((a @ sep @ join parts) @ NUL # d')"
  using assms
proof (induction parts arbitrary: i a d sep)
  case (Cons part parts)
  have ca: "cstr_of (a @ NUL # d) = a" using Cons.prems(2) by (rule cstr_of_append_NUL)
  obtain d1 where d1: "(if (i > 0 \<or> is_abs) \<and> a \<noteq> [] \<and> last a \<noteq> CHR ''/''
        then strcat (a @ NUL # d) ''/'' else Some (a @ NUL # d)) = Some ((a @ sep) @ NUL # d1)"
      "length ((a @ sep) @ NUL # d1) = 256"
  proof (cases "a = [] \<or> last a = CHR ''/''")
    case True
    then show thesis using that [of d] Cons.prems(1,4) by auto
  next
    case False
    then have "1 \<le> length d" using Cons.prems(1,4,8) by (auto simp: join_Cons)
    then show thesis
      using that [of "drop 1 d"] False Cons.prems(1,3,4) strcat_eq [OF Cons.prems(2), of d "''/''"] by auto
  qed
  have free: "NUL \<notin> set (a @ sep)" "NUL \<notin> set part" using Cons.prems(2,4,7) by auto
  have "length part \<le> length d1"
    using Cons.prems(8) d1(2) by (cases parts) auto
  then have cat: "strcat ((a @ sep) @ NUL # d1) part = Some ((a @ sep @ part) @ NUL # drop (length part) d1)"
    using strcat_eq [OF free(1), of d1 part] by simp
  have step: "join_parts is_abs i (part # parts) (a @ NUL # d) =
      join_parts is_abs (Suc i) parts ((a @ sep @ part) @ NUL # drop (length part) d1)"
    using d1(1) cat ca by simp
  show ?case
  proof (cases "parts = []")
    case True
    then show ?thesis using step by auto
  next
    case False
    have pl: "plain part" "list_all plain parts" using Cons.prems(6) by simp_all
    have last: "last (a @ sep @ part) \<noteq> CHR ''/''" "a @ sep @ part \<noteq> []"
      using pl(1) by (auto simp: plain_def is_sep_def list_all_iff)
    have len: "length ((a @ sep @ part) @ NUL # drop (length part) d1) = 256"
      using d1(2) \<open>length part \<le> length d1\<close> by simp
    have fr: "NUL \<notin> set (a @ sep @ part)" using free by auto
    have "length ((a @ sep @ part) @ ''/'' @ join parts) \<le> 255"
      using Cons.prems(8) False by (simp add: join_Cons)
    from Cons.IH [OF len fr _ _ False pl(2) _ this] Cons.prems(7) last
    show ?thesis using step False by (simp add: join_Cons)
  qed
qed simp

text \<open>C28. \<^verbatim>\<open>normalize_path\<close> on a path, absolute or relative, on which fewer than 64 names are open whenever a
  further one is followed and whose result fits into 255 characters, leaves the canonical path of the place it names: the names to the place
  with one slash between two, behind a slash if the path was absolute. A place without names is \<^verbatim>\<open>/\<close> or \<^verbatim>\<open>.\<close>. A relative
  path is read as if it started at the root: a \<^verbatim>\<open>..\<close> that leads above the start is lost.\<close>

theorem normalize_path_correct:
  assumes ne: "s \<noteq> []" and free: "NUL \<notin> set s" and junk: "length junk = 256" and sh: "shallow (names s)"
    and pre: "pre = (if hd s = CHR ''/'' then ''/'' else [])" and fit: "length (pre @ join (canonical s)) \<le> 255"
  shows "normalize_path junk s =
    Some (if canonical s = [] then (if hd s = CHR ''/'' then ''/'' else ''.'') else pre @ join (canonical s))"
proof -
  note parts = canonical_parts [OF sh]
  have pre_cases: "pre = [] \<or> pre = ''/''" using pre by simp
  have abs: "chr_at s = CHR ''/'' \<longleftrightarrow> hd s = CHR ''/''" using ne by (cases s) auto
  have sc: "strcpy junk pre = Some (pre @ NUL # drop (Suc (length pre)) junk)"
    using junk pre_cases by (auto simp: strcpy_eq numeral_2_eq_2)
  have np: "normalize_path junk s = Option.bind (join_parts (hd s = CHR ''/'') 0 (canonical s) (pre @ NUL # drop (Suc (length pre)) junk))
      (\<lambda>temp. Some (if cstr_of temp = [] then (if hd s = CHR ''/'' then ''/'' else ''.'') else cstr_of temp))"
    using ne sc pre abs part_scan_canonical [OF sh] by (simp add: normalize_path_def Let_def)
  have freep: "NUL \<notin> set pre" using pre_cases by auto
  show ?thesis
  proof (cases "canonical s = []")
    case True
    then show ?thesis using np cstr_of_append_NUL [OF freep, of "drop (Suc (length pre)) junk"] pre by auto
  next
    case False
    have len: "length (pre @ NUL # drop (Suc (length pre)) junk) = 256" using junk pre_cases by auto
    have sep: "0 < (0::nat) \<or> hd s = CHR ''/'' \<or> pre = []" "[] = (if pre = [] \<or> last pre = CHR ''/'' then [] else ''/'')"
      using pre by auto
    obtain d' where d': "join_parts (hd s = CHR ''/'') 0 (canonical s) (pre @ NUL # drop (Suc (length pre)) junk) =
        Some ((pre @ join (canonical s)) @ NUL # d')"
      using join_parts_text [OF len freep sep False parts(1) parts(2) [OF free]] fit by auto
    have "cstr_of ((pre @ join (canonical s)) @ NUL # d') = pre @ join (canonical s)"
      using NUL_free_join [OF parts(2) [OF free]] freep by (intro cstr_of_append_NUL) auto
    moreover have "join (canonical s) \<noteq> []" using last_join_plain [OF False parts(1)] by simp
    ultimately show ?thesis using np d' False by simp
  qed
qed

theorem normalize_path_correct_witness:
  "normalize_path (replicate 256 NUL) ''/usr//bin/../lib/.'' = Some ''/usr/lib'' \<and>
   normalize_path (replicate 256 NUL) ''/..'' = Some ''/'' \<and>
   normalize_path (replicate 256 NUL) ''../a/./b'' = Some ''a/b''"
proof -
  have "canonical ''/usr//bin/../lib/.'' = [''usr'', ''lib'']" "canonical ''/..'' = []" "canonical ''../a/./b'' = [''a'', ''b'']"
    by code_simp+
  moreover have "shallow (names ''/usr//bin/../lib/.'')" "shallow (names ''/..'')" "shallow (names ''../a/./b'')"
    by (rule shallow_few, code_simp)+
  ultimately show ?thesis
    using normalize_path_correct [of "''/usr//bin/../lib/.''" "replicate 256 NUL" "''/''"]
      normalize_path_correct [of "''/..''" "replicate 256 NUL" "''/''"]
      normalize_path_correct [of "''../a/./b''" "replicate 256 NUL" "[]"] by simp
qed

end
