(* ===== verification/Resolve_Correct.thy ===== *)
theory Resolve_Correct
  imports Path Cstring_Props
begin

text \<open>The properties of mount labels and of path resolution.\<close>

section \<open>Relative paths\<close>

lemma rel_append_Nil [simp]: "rel_append [] = Some (''/'' @ NUL # replicate 254 NUL)"
proof -
  have "replicate 255 NUL = NUL # replicate 254 NUL" by (simp add: numeral_eq_Suc)
  then show ?thesis by (simp add: rel_append_def)
qed

lemma rel_append_one:
  assumes "NUL \<notin> set sub"
  shows "\<exists>b. rel_append [sub] = Some b \<and> length b = 256 \<and> cstr_of b = ''/'' @ take 254 sub"
proof -
  let ?t = "take 254 sub"
  have "rel_append [sub] = strncat (''/'' @ NUL # replicate 254 NUL) sub 254"
    using rel_append_Nil by (simp add: rel_append_def)
  also have "\<dots> = Some (''/'' @ ?t @ NUL # drop (length ?t) (replicate 254 NUL))"
    by (subst strncat_eq) (simp_all add: Let_def)
  finally have r: "rel_append [sub] = Some ((''/'' @ ?t) @ NUL # drop (length ?t) (replicate 254 NUL))"
    by simp
  moreover have "NUL \<notin> set (''/'' @ ?t)" using assms by (auto dest: in_set_takeD)
  from cstr_of_append_NUL [OF this]
  have "cstr_of ((''/'' @ ?t) @ NUL # drop (length ?t) (replicate 254 NUL)) = ''/'' @ ?t" .
  moreover have "length ((''/'' @ ?t) @ NUL # drop (length ?t) (replicate 254 NUL)) = 256" by simp
  ultimately show ?thesis by (intro exI conjI)
qed

lemma rel_append_user:
  "rel_append [''user''] = Some (''/user'' @ NUL # replicate 250 NUL)"
  "rel_append [''user'', ''/''] = Some (''/user/'' @ NUL # replicate 249 NUL)"
proof -
  have "strncat (''/'' @ NUL # replicate 254 NUL) ''user'' 254 = Some (''/user'' @ NUL # replicate 250 NUL)"
    by (subst strncat_eq) (simp_all add: Let_def)
  then show 1: "rel_append [''user''] = Some (''/user'' @ NUL # replicate 250 NUL)"
    using rel_append_Nil by (simp add: rel_append_def)
  have "strncat (''/user'' @ NUL # replicate 250 NUL) ''/'' 254 = Some (''/user/'' @ NUL # replicate 249 NUL)"
    by (subst strncat_eq) (simp_all add: Let_def)
  then show "rel_append [''user'', ''/''] = Some (''/user/'' @ NUL # replicate 249 NUL)"
    using 1 by (simp add: rel_append_def)
qed

lemma rel_append_user_rest:
  "rel_append [''user'', ''/'', rest] =
    (if length rest < 250 then Some (''/user/'' @ rest @ NUL # replicate (249 - length rest) NUL) else None)"
proof -
  have "rel_append [''user'', ''/'', rest] = strncat (''/user/'' @ NUL # replicate 249 NUL) rest 254"
    using rel_append_user(2) by (simp add: rel_append_def)
  then show ?thesis by (subst (asm) strncat_eq) (auto simp: Let_def)
qed

lemma first_component_plain:
  assumes "list_all (\<lambda>c. \<not> is_sep c) co" and "length co \<le> 63" and "r = [] \<or> is_sep (hd r)"
  shows "first_component (co @ r) = (co, dropWhile is_sep r)"
proof -
  have "takeWhile (\<lambda>c. \<not> is_sep c) (co @ r) = co"
    using assms(1,3) by (cases r) (auto simp: takeWhile_append list_all_iff)
  then show ?thesis using assms(2) by (simp add: first_component_def)
qed

lemma resolve_virtual:
  assumes "c \<noteq> CHR ''/''"
  shows "fs_resolve_path mt ds cs (''$/'' @ c # p) =
    (let (comp, rest) = first_component (c # p)
     in if comp = [] then Fail
        else if str_ieq comp ''mnt'' then resolve_mnt mt ds rest
        else if str_ieq comp ''dev'' then
          with_rel (if rest = [] then [] else [rest])
            (blank_resolved\<lparr>route := FS_ROUTE_DEVVFS, devvfs_kind := 2\<rparr>)
        else if str_ieq comp ''user'' then
          with_rel (if rest = [] then [''user''] else [''user'', ''/'', rest])
            (blank_resolved\<lparr>route := FS_ROUTE_USERLAND\<rparr>)
        else Fail)"
  using assms by (simp add: fs_resolve_path_def is_blank_def is_sep_def char_at_def Let_def)

text \<open>C34. A path \<^verbatim>\<open>$/user/<rest>\<close> is resolved to the user name space with the relative
  path \<^verbatim>\<open>/user/<rest>\<close> as long as \<open>rest\<close> has fewer than 250 characters; a longer one makes the last
  \<^verbatim>\<open>strncat\<close> write past the 256 bytes of \<^verbatim>\<open>rel_path\<close>, because its limit does not count what the buffer
  already holds.\<close>

theorem resolve_user_overflow:
  assumes "rest \<noteq> []" and "hd rest \<noteq> CHR ''/''" and "NUL \<notin> set rest"
  shows "fs_resolve_path mt ds cs (''$/user/'' @ rest) =
    (if length rest < 250
     then Done (blank_resolved\<lparr>route := FS_ROUTE_USERLAND,
       rel_path := ''/user/'' @ rest @ NUL # replicate (249 - length rest) NUL\<rparr>)
     else Undef)"
proof -
  have "first_component (''user'' @ (''/'' @ rest)) = (''user'', rest)"
    using assms(1,2) by (subst first_component_plain) (auto simp: is_sep_def neq_Nil_conv)
  moreover have "\<not> str_ieq ''user'' ''mnt''" "\<not> str_ieq ''user'' ''dev''" "str_ieq ''user'' ''user''"
    by code_simp+
  ultimately show ?thesis
    using resolve_virtual [of "CHR ''u''" mt ds cs "''ser/'' @ rest"] assms(1)
    by (simp add: with_rel_def rel_append_user_rest)
qed

theorem resolve_user_overflow_witness:
  "fs_resolve_path [] \<lparr>drive_count = 0, drive_model = Map.empty\<rparr> 0 (''$/user/'' @ replicate 250 (CHR ''a'')) = Undef"
  using resolve_user_overflow [of "replicate 250 (CHR ''a'')"] by simp

section \<open>Mount labels\<close>

lemma drive_number_digits:
  assumes "\<forall>c\<in>set xs. is_digit c" and "r = [] \<or> hd r = CHR ''-''" and "fits_int n"
  shows "drive_number (xs @ r) n ok =
    (case atoi_loop xs n of None \<Rightarrow> Undef | Some m \<Rightarrow> Done (m, ok \<or> xs \<noteq> [], r))"
  using assms
proof (induction xs arbitrary: n ok)
  case Nil
  then show ?case by (cases r) auto
next
  case (Cons c xs)
  then have "is_digit c" by simp
  moreover from this have "c \<noteq> CHR ''-''" by (auto simp: is_digit_iff byte_of_def)
  ultimately show ?case
    using Cons.IH [of "n * 10 + (byte_of c - byte_of CHR ''0'')" True] Cons.prems
    by (auto simp: Let_def split: option.splits)
qed

definition number_text :: "nat \<Rightarrow> cstr" where
  "number_text v = rev (emit_digits digits36 10 v)"

lemma number_text_digits: "\<forall>c\<in>set (number_text v). is_digit c" "number_text v \<noteq> []"
  using emit_digits_decimal [of v] by (auto simp: number_text_def)

lemma number_text_plain:
  "c \<in> set (number_text v) \<Longrightarrow> \<not> is_sep c \<and> c \<noteq> NUL"
  using number_text_digits(1) [of v] by (auto simp: is_sep_def is_digit_iff byte_of_def)

lemma itoa_number_text:
  assumes "0 \<le> v" and "v < 2 ^ 31"
  shows "itoa (word_of_int v) 10 = number_text (nat v)"
proof -
  have "word_of_int v = (of_nat (nat v) :: u32)" using assms(1) by simp
  moreover have "unat (of_nat (nat v) :: u32) = nat v"
    using assms by (simp only: unat_of_nat) (simp add: take_bit_nat_eq_self nat_less_iff)
  ultimately have "sint (word_of_int v :: u32) = v"
    using assms by (simp only: sint_32) (simp add: nat_less_iff)
  then show ?thesis using assms(1) by (simp add: itoa_decimal number_text_def)
qed

lemma emit_digits_length:
  "v < 10 ^ k \<Longrightarrow> 0 < k \<Longrightarrow> length (emit_digits digits36 10 v) \<le> k"
proof (induction k arbitrary: v)
  case (Suc k)
  show ?case
  proof (cases "v div 10 = 0")
    case True
    then show ?thesis by (simp add: emit_digits.simps [of _ _ v])
  next
    case False
    then have "v div 10 < 10 ^ k" using Suc.prems(1) by (simp add: less_mult_imp_div_less mult.commute)
    moreover have "0 < k" using False Suc.prems(1) by (cases k) auto
    ultimately show ?thesis using Suc.IH by (simp add: emit_digits.simps [of _ _ v])
  qed
qed simp

text \<open>The text of a label.\<close>

definition label_text :: "mount_entry \<Rightarrow> cstr" where
  "label_text e = ''vDrive'' @ number_text (nat (vdrive_id e)) @
     (if partition_index e > 0 then ''-P'' @ number_text (nat (partition_index e)) else [])"

definition label_ok :: "mount_entry \<Rightarrow> bool" where
  "label_ok e = (0 \<le> vdrive_id e \<and> vdrive_id e < 2 ^ 31 \<and> 0 \<le> partition_index e \<and> partition_index e \<le> 9)"

lemma number_text_digit:
  assumes "d < 10"
  shows "number_text d = [digits36 ! d]"
  using assms by (simp add: number_text_def emit_digits.simps [of _ _ d])

lemma label_parts:
  assumes "label_ok e"
  shows "length (label_text e) \<le> 19" "list_all (\<lambda>c. \<not> is_sep c) (label_text e)" "NUL \<notin> set (label_text e)"
proof -
  have "nat (vdrive_id e) < 10 ^ 10" using assms by (simp add: label_ok_def nat_less_iff)
  then have "length (number_text (nat (vdrive_id e))) \<le> 10"
    using emit_digits_length [of _ 10] by (simp add: number_text_def)
  moreover have "partition_index e > 0 \<Longrightarrow> length (number_text (nat (partition_index e))) = 1"
    using assms number_text_digit [of "nat (partition_index e)"] by (simp add: label_ok_def nat_less_iff)
  ultimately show "length (label_text e) \<le> 19" by (simp add: label_text_def)
  show "list_all (\<lambda>c. \<not> is_sep c) (label_text e)"
    using number_text_plain by (auto simp: label_text_def list_all_iff is_sep_def)
  show "NUL \<notin> set (label_text e)"
    using number_text_plain by (auto simp: label_text_def)
qed

lemma parse_label:
  assumes "label_ok e"
  shows "devvfs_parse_drive ds (label_text e) = Done (vdrive_id e, partition_index e)"
proof -
  let ?v = "nat (vdrive_id e)" and ?p = "nat (partition_index e)"
  let ?r = "if partition_index e > 0 then ''-P'' @ number_text ?p else []"
  have "?v < 2 ^ 31" using assms by (auto simp: label_ok_def)
  then have "atoi_loop (number_text ?v) 0 = Some (int ?v)"
    unfolding number_text_def by (rule atoi_loop_digits)
  then have num: "drive_number (number_text ?v @ ?r) 0 False = Done (int ?v, True, ?r)"
    using drive_number_digits [OF number_text_digits(1) _, of ?r 0 ?v False] number_text_digits(2)
    by (simp add: fits_int_def)
  have suffix: "part_suffix ?r = Some (partition_index e)"
  proof (cases "partition_index e > 0")
    case True
    then have "?p < 10" using assms by (simp add: label_ok_def nat_less_iff)
    then have t: "number_text ?p = [digits36 ! ?p]" and b: "byte_of (digits36 ! ?p) = 48 + int ?p"
      by (rule number_text_digit, rule decimal_digit)
    then have "is_digit (digits36 ! ?p)" using \<open>?p < 10\<close> unfolding is_digit_iff by linarith
    then show ?thesis using True t b by (simp add: part_suffix_def char_at_def byte_of_def)
  next
    case False
    then show ?thesis using assms by (simp add: part_suffix_def label_ok_def)
  qed
  have "vdrive_prefix (label_text e)" by (simp add: vdrive_prefix_def label_text_def char_at_def)
  moreover have "drop 6 (label_text e) = number_text ?v @ ?r" by (simp add: label_text_def)
  ultimately show ?thesis
    using num suffix assms
    by (simp add: devvfs_parse_drive_def parse_vdrive_def label_ok_def) (simp add: label_text_def)
qed

lemma strncat_fits:
  assumes "NUL \<notin> set a" and "length s \<le> n" and "length s \<le> length d"
  shows "strncat (a @ NUL # d) s n = Some ((a @ s) @ NUL # drop (length s) d)"
  using strncat_eq [OF assms(1), of d s n] assms(2,3) by simp

lemma label_room:
  assumes "NUL \<notin> set a" and "length (a @ NUL # d) = n" and "n < 2 ^ 64"
  shows "unat (of_nat n - of_nat (strlen (cstr_of (a @ NUL # d))) - 1 :: u64) = length d"
proof -
  have "of_nat n - of_nat (strlen (cstr_of (a @ NUL # d))) - 1 = (of_nat (length d) :: u64)"
    using assms(2) cstr_of_append_NUL [OF assms(1)] by auto
  then show ?thesis
    using assms(2,3) by (simp only: unat_of_nat) (simp add: take_bit_nat_eq_self)
qed

lemma mount_label_text:
  assumes used: "slot_used mt slot" and ok: "label_ok (mt ! nat slot)" and out: "32 \<le> length out" "length out < 2 ^ 64"
  shows "\<exists>buf. fs_get_mount_label mt slot out (length out) = Done buf \<and>
    cstr_of buf = label_text (mt ! nat slot)"
proof -
  let ?e = "mt ! nat slot" and ?n = "length out"
  let ?v = "number_text (nat (vdrive_id ?e))" and ?p = "number_text (nat (partition_index ?e))"
  have v: "itoa (word_of_int (vdrive_id ?e)) 10 = ?v"
    using ok by (intro itoa_number_text) (simp_all add: label_ok_def)
  have p: "itoa (word_of_int (partition_index ?e)) 10 = ?p"
    using ok by (intro itoa_number_text) (simp_all add: label_ok_def)
  have fv: "NUL \<notin> set ?v" "NUL \<notin> set ?p" using number_text_plain by auto
  have lv: "length ?v \<le> 10" using label_parts(1) [OF ok] emit_digits_length [of _ 10] ok
    by (simp add: number_text_def label_ok_def nat_less_iff)
  have lp: "length ?p = 1"
    using number_text_digit [of "nat (partition_index ?e)"] ok by (simp add: label_ok_def nat_less_iff)
  let ?cat = "\<lambda>s o'. strncat o' s (unat (of_nat ?n - of_nat (strlen (cstr_of o')) - 1 :: u64))"
  have cat: "?cat s (a @ NUL # d) = Some ((a @ s) @ NUL # drop (length s) d)"
    if "NUL \<notin> set a" "length s \<le> length d" "length (a @ NUL # d) = ?n" for a s d
    using that by (simp only: label_room [OF that(1,3) out(2)]) (rule strncat_fits, simp_all)
  define d0 where "d0 = drop (Suc (length ''vDrive'')) out"
  have c0: "strcpy out ''vDrive'' = Some (''vDrive'' @ NUL # d0)"
    using out(1) by (simp add: strcpy_eq d0_def)
  have l0: "length (''vDrive'' @ NUL # d0) = ?n" using out(1) by (simp add: d0_def)
  define d1 where "d1 = drop (length ?v) d0"
  have c1: "?cat ?v (''vDrive'' @ NUL # d0) = Some ((''vDrive'' @ ?v) @ NUL # d1)"
    unfolding d1_def by (rule cat) (use lv l0 out(1) in auto)
  have l1: "length ((''vDrive'' @ ?v) @ NUL # d1) = ?n" using l0 lv out(1) by (simp add: d1_def)
  have c2: "?cat ''-P'' ((''vDrive'' @ ?v) @ NUL # d1) = Some ((''vDrive'' @ ?v @ ''-P'') @ NUL # drop 2 d1)"
    using cat [of "''vDrive'' @ ?v" "''-P''" d1] fv l1 lv out(1) by (simp add: numeral_2_eq_2)
  have l2: "length ((''vDrive'' @ ?v @ ''-P'') @ NUL # drop 2 d1) = ?n" using l1 lv out(1) by simp
  have c3: "?cat ?p ((''vDrive'' @ ?v @ ''-P'') @ NUL # drop 2 d1) =
      Some (((''vDrive'' @ ?v @ ''-P'') @ ?p) @ NUL # drop (length ?p) (drop 2 d1))"
    by (rule cat [OF _ _ l2]) (use fv l2 lv lp out(1) in auto)
  have n0: "?n \<noteq> 0" using out(1) by linarith
  show ?thesis
  proof (cases "partition_index ?e > 0")
    case True
    have "fs_get_mount_label mt slot out ?n =
        Done ((''vDrive'' @ ?v @ ''-P'' @ ?p) @ NUL # drop (length ?p) (drop 2 d1))"
      using used n0 c0 c1 c2 c3 True lp by (simp add: fs_get_mount_label_def Let_def v p)
    moreover have "cstr_of ((''vDrive'' @ ?v @ ''-P'' @ ?p) @ NUL # drop (length ?p) (drop 2 d1)) = label_text ?e"
      using True fv by (subst cstr_of_append_NUL) (auto simp: label_text_def)
    ultimately show ?thesis by blast
  next
    case False
    have "fs_get_mount_label mt slot out ?n = Done ((''vDrive'' @ ?v) @ NUL # d1)"
      using used n0 c0 c1 False by (simp add: fs_get_mount_label_def Let_def v p)
    moreover have "cstr_of ((''vDrive'' @ ?v) @ NUL # d1) = label_text ?e"
      using False fv by (subst cstr_of_append_NUL) (auto simp: label_text_def)
    ultimately show ?thesis by blast
  qed
qed

text \<open>The mounts a label stands for: those of the drive, and of the partition if the label has one. A mount with
  partition number 0 has a label without a partition.\<close>

definition answers :: "mount_entry \<Rightarrow> mount_entry \<Rightarrow> bool" where
  "answers e e' \<longleftrightarrow> in_use e' \<and> vdrive_id e' = vdrive_id e \<and> (partition_index e > 0 \<longrightarrow> partition_index e' = partition_index e)"

text \<open>C21. What the label of a mount leads to. For a mount in use whose drive number is not negative and whose
  partition number has at most one digit, \<^verbatim>\<open>fs_get_mount_label\<close> with a buffer of 32 bytes or more produces a name.
  For a \<^verbatim>\<open>sub\<close> of 1 to 254 characters that does not start with a slash, the path \<^verbatim>\<open>$/mnt/<label>/<sub>\<close> is resolved
  to the lowest slot in use with the same drive and, if the partition number is not 0, the same partition: with the
  relative path \<^verbatim>\<open>/<sub>\<close> if the mount in that slot is valid, and with an error if it is not. For partition
  number 0 this can be the slot of another partition of the drive.\<close>

theorem mount_label_resolves:
  assumes used: "slot_used mt slot" and ok: "label_ok (mt ! nat slot)"
    and out: "32 \<le> length out" "length out < 2 ^ 64"
    and sub: "NUL \<notin> set sub" "sub \<noteq> []" "hd sub \<noteq> CHR ''/''" "length sub \<le> 254"
  shows "\<exists>buf i. fs_get_mount_label mt slot out (length out) = Done buf \<and>
    i \<le> nat slot \<and> answers (mt ! nat slot) (mt ! i) \<and> (\<forall>j<i. \<not> answers (mt ! nat slot) (mt ! j)) \<and>
    (if mount_valid (mt ! i) then
       \<exists>res. fs_resolve_path mt ds cs (''$/mnt/'' @ cstr_of buf @ ''/'' @ sub) = Done res \<and>
         route res = FS_ROUTE_MOUNT \<and> mount_slot res = int i \<and> mount res = Some i \<and> cstr_of (rel_path res) = ''/'' @ sub
     else fs_resolve_path mt ds cs (''$/mnt/'' @ cstr_of buf @ ''/'' @ sub) = Fail)"
proof -
  let ?e = "mt ! nat slot"
  let ?lab = "label_text ?e"
  let ?P = "\<lambda>i. case fs_get_mount_info mt (int i) of None \<Rightarrow> False
      | Some (v, lba) \<Rightarrow> v = vdrive_id ?e \<and>
          (partition_index ?e > 0 \<longrightarrow> fs_get_mount_partition_index mt (int i) = partition_index ?e)"
  obtain buf where buf: "fs_get_mount_label mt slot out (length out) = Done buf" "cstr_of buf = ?lab"
    using mount_label_text [OF used ok out] by blast
  have slot: "0 \<le> slot" "slot < 26" using used by (auto simp: slot_used_def)
  have P: "?P i \<longleftrightarrow> answers ?e (mt ! i)" if "i < 26" for i
    using that by (auto simp: answers_def slot_used_def fs_get_mount_info_def fs_get_mount_partition_index_def)
  have "?P (nat slot)" using P [of "nat slot"] used slot by (auto simp: answers_def slot_used_def)
  then obtain i where i: "find ?P [0..<26] = Some i" "i \<le> nat slot" "i < 26" "?P i" "\<forall>j<i. \<not> ?P j"
    using slot by (cases "find ?P [0..<26]")
      (auto simp: find_upt_None_iff find_upt_Some_iff not_less [symmetric] dest: spec [of _ "nat slot"])
  have ans: "answers ?e (mt ! i)" "\<forall>j<i. \<not> answers ?e (mt ! j)" using P i(3-5) by auto
  then have iu: "slot_used mt (int i)" using i(3) by (simp add: answers_def slot_used_def)
  obtain b where b: "rel_append [sub] = Some b" "cstr_of b = ''/'' @ sub"
    using rel_append_one [OF sub(1)] sub(4) by auto
  let ?res = "blank_resolved\<lparr>route := FS_ROUTE_MOUNT, mount_slot := int i, mount := Some i,
      devvfs_drive := vdrive_id ?e, rel_path := b\<rparr>"
  note lp = label_parts [OF ok]
  have fc: "first_component (?lab @ (''/'' @ sub)) = (?lab, sub)"
    using lp sub(2,3) by (subst first_component_plain) (auto simp: is_sep_def neq_Nil_conv)
  have "resolve_mnt mt ds (?lab @ ''/'' @ sub) = (if mount_valid (mt ! i) then Done ?res else Fail)"
    using fc parse_label [OF ok, of ds] i(1) b(1) sub(2) iu
    by (simp add: resolve_mnt_def with_rel_def fs_get_mount_def mount_ok_def)
  moreover have "first_component (''mnt'' @ (''/'' @ ?lab @ ''/'' @ sub)) = (''mnt'', ?lab @ ''/'' @ sub)"
    by (subst first_component_plain) (auto simp: is_sep_def label_text_def)
  moreover have "str_ieq ''mnt'' ''mnt''" by code_simp
  ultimately have "fs_resolve_path mt ds cs (''$/mnt/'' @ ?lab @ ''/'' @ sub) = (if mount_valid (mt ! i) then Done ?res else Fail)"
    using resolve_virtual [of "CHR ''m''" mt ds cs "''nt/'' @ ?lab @ ''/'' @ sub"] by simp
  then show ?thesis
    using buf b(2) i(2) ans by (intro exI [of _ buf] exI [of _ i]) auto
qed

text \<open>Two mounts of one drive: the label of the second leads to it.\<close>

definition two_mounts :: mount_table where
  "two_mounts = \<lparr>in_use = True, vdrive_id = 3, partition_lba = 0, partition_index = 1, mount_valid = True\<rparr> #
     \<lparr>in_use = True, vdrive_id = 3, partition_lba = 2048, partition_index = 2, mount_valid = True\<rparr> #
     replicate 24 \<lparr>in_use = False, vdrive_id = 0, partition_lba = 0, partition_index = 0, mount_valid = False\<rparr>"

theorem mount_label_resolves_witness:
  "\<exists>buf res. fs_get_mount_label two_mounts 1 (replicate 32 NUL) 32 = Done buf \<and>
    fs_resolve_path two_mounts \<lparr>drive_count = 0, drive_model = Map.empty\<rparr> 0 (''$/mnt/'' @ cstr_of buf @ ''/'' @ ''etc/motd'') = Done res \<and>
    route res = FS_ROUTE_MOUNT \<and> cstr_of (rel_path res) = ''/etc/motd'' \<and> mount_slot res = 1"
proof -
  have "slot_used two_mounts 1" "label_ok (two_mounts ! nat 1)" by (simp_all add: two_mounts_def slot_used_def label_ok_def)
  from mount_label_resolves [OF this, of "replicate 32 NUL" "''etc/motd''" "\<lparr>drive_count = 0, drive_model = Map.empty\<rparr>" 0]
  obtain buf i where i: "fs_get_mount_label two_mounts 1 (replicate 32 NUL) 32 = Done buf" "i \<le> 1" "answers (two_mounts ! 1) (two_mounts ! i)"
    and r: "if mount_valid (two_mounts ! i) then
       \<exists>res. fs_resolve_path two_mounts \<lparr>drive_count = 0, drive_model = Map.empty\<rparr> 0 (''$/mnt/'' @ cstr_of buf @ ''/'' @ ''etc/motd'') = Done res \<and>
         route res = FS_ROUTE_MOUNT \<and> mount_slot res = int i \<and> mount res = Some i \<and> cstr_of (rel_path res) = ''/'' @ ''etc/motd''
     else fs_resolve_path two_mounts \<lparr>drive_count = 0, drive_model = Map.empty\<rparr> 0 (''$/mnt/'' @ cstr_of buf @ ''/'' @ ''etc/motd'') = Fail"
    by auto
  have "\<not> answers (two_mounts ! 1) (two_mounts ! 0)" by (simp add: answers_def two_mounts_def)
  then have "i = 1" using i(2,3) by (cases i) auto
  then show ?thesis using i(1) r by (simp add: two_mounts_def) blast
qed

section \<open>Every result\<close>

lemma append_upto_shape: "append_upto d s n = Some d' \<Longrightarrow> length d' = length d \<and> NUL \<in> set d'"
  by (induction d s n arbitrary: d' rule: append_upto.induct) auto

lemma strncat_shape: "strncat d s n = Some d' \<Longrightarrow> length d' = length d \<and> NUL \<in> set d'"
proof (induction d s n arbitrary: d' rule: strncat.induct)
  case (2 x d s n)
  then show ?case by (auto split: if_splits dest: append_upto_shape)
qed simp

lemma rel_append_shape:
  assumes "rel_append ss = Some b"
  shows "length b = 256 \<and> NUL \<in> set b"
proof -
  have "fold (\<lambda>s buf. Option.bind buf (\<lambda>b. strncat b s 254)) ss (Some b0) = Some b \<Longrightarrow>
      length b0 = 256 \<Longrightarrow> NUL \<in> set b0 \<Longrightarrow> length b = 256 \<and> NUL \<in> set b" for b0
  proof (induction ss arbitrary: b0)
    case (Cons s ss)
    have none: "fold (\<lambda>s buf. Option.bind buf (\<lambda>b. strncat b s 254)) ss None = None"
      by (induction ss) auto
    obtain b1 where "strncat b0 s 254 = Some b1" using Cons.prems(1) none by (cases "strncat b0 s 254") auto
    then show ?case using Cons.IH [of b1] Cons.prems strncat_shape [of b0 s 254 b1] by simp
  qed simp
  from this [of "CHR ''/'' # replicate 255 NUL"] assms show ?thesis by (simp add: rel_append_def)
qed

lemma with_rel_shape:
  assumes "with_rel ss out = Done res"
  shows "length (rel_path res) = 256 \<and> NUL \<in> set (rel_path res)"
    and "route res = route out \<and> mount_slot res = mount_slot out \<and> mount res = mount out"
  using assms rel_append_shape [of ss] by (auto simp: with_rel_def split: option.splits)

definition resolved_ok :: "mount_table \<Rightarrow> fs_path_resolved \<Rightarrow> bool" where
  "resolved_ok mt res = (length (rel_path res) = 256 \<and> NUL \<in> set (rel_path res) \<and>
     (route res = FS_ROUTE_CURRENT \<or> route res = FS_ROUTE_MOUNT \<longrightarrow>
        slot_used mt (mount_slot res) \<and> mount res = Some (nat (mount_slot res)) \<and>
        mount_valid (mt ! nat (mount_slot res))))"

lemma resolve_mnt_ok:
  assumes "resolve_mnt mt ds rest = Done res"
  shows "resolved_ok mt res"
proof (cases "rest = []")
  case True
  then show ?thesis using assms by (auto simp: resolve_mnt_def resolved_ok_def blank_resolved_def)
next
  case False
  obtain drv sub where fc: "first_component rest = (drv, sub)" by fastforce
  obtain v w where pd: "devvfs_parse_drive ds drv = Done (v, w)"
    using assms False fc by (auto simp: resolve_mnt_def split: outcome.splits)
  obtain i where f: "find (\<lambda>slot. case fs_get_mount_info mt (int slot) of None \<Rightarrow> False
      | Some (v', lba) \<Rightarrow> v' = v \<and> (w > 0 \<longrightarrow> fs_get_mount_partition_index mt (int slot) = w)) [0..<26] = Some i"
    using assms False fc pd by (auto simp: resolve_mnt_def split: option.splits)
  let ?out = "blank_resolved\<lparr>route := FS_ROUTE_MOUNT, mount_slot := int i,
      mount := fs_get_mount mt (int i), devvfs_drive := v\<rparr>"
  have r: "with_rel (if sub = [] then [] else [sub]) ?out = Done res" and m: "mount_ok mt (mount res)"
    using assms False fc pd f by (auto simp: resolve_mnt_def split: outcome.splits if_splits)
  note shape = with_rel_shape [OF r]
  have "mount_slot res = int i" "mount res = fs_get_mount mt (int i)" using shape(2) by simp_all
  then show ?thesis
    using shape(1) m by (auto simp: resolved_ok_def mount_ok_def fs_get_mount_def split: if_splits)
qed

text \<open>C10. Whatever the path, a successful resolution leaves a terminated string in the 256
  bytes of \<^verbatim>\<open>rel_path\<close>, and when the route is the current mount or an explicit mount, the slot it
  names is in use, the mount pointer is that slot's and the mount is valid.\<close>

theorem resolve_result_valid:
  assumes "fs_resolve_path mt ds cs path = Done res"
  shows "length (rel_path res) = 256 \<and> NUL \<in> set (rel_path res) \<and>
    (route res = FS_ROUTE_CURRENT \<or> route res = FS_ROUTE_MOUNT \<longrightarrow>
       slot_used mt (mount_slot res) \<and> mount res = Some (nat (mount_slot res)) \<and>
       mount_valid (mt ! nat (mount_slot res)))"
proof -
  define p where "p = dropWhile is_blank path"
  define q where "q = dropWhile is_sep (drop 2 p)"
  note run = assms [unfolded fs_resolve_path_def, folded p_def, simplified Let_def, folded q_def]
  have ne: "p \<noteq> []" using run by auto
  show ?thesis
  proof (cases "char_at p 0 = CHR ''$'' \<and> char_at p 1 = CHR ''/''")
    case False
    obtain b where b: "Option.bind (strncpy (replicate 256 NUL) p 255) (put_at 255 [NUL]) = Some b"
      using run ne False by (auto split: option.splits)
    then have "length b = 256 \<and> NUL \<in> set b"
      by (auto simp: strncpy_eq put_at_def split: if_splits)
    then show ?thesis
      using run ne False b
      by (auto simp: mount_ok_def fs_get_mount_def split: option.splits if_splits)
  next
    case True
    note virt = run True ne
    show ?thesis
    proof (cases "q = []")
      case q: True
      then have "with_rel [] (blank_resolved\<lparr>route := FS_ROUTE_DEVVFS\<rparr>) = Done res"
        using virt by simp
      from with_rel_shape [OF this] show ?thesis by simp
    next
      case q: False
      obtain co rest where fc: "first_component q = (co, rest)" by fastforce
      consider "resolve_mnt mt ds rest = Done res"
        | ss where "with_rel ss (blank_resolved\<lparr>route := FS_ROUTE_DEVVFS, devvfs_kind := 2\<rparr>) = Done res"
        | ss where "with_rel ss (blank_resolved\<lparr>route := FS_ROUTE_USERLAND\<rparr>) = Done res"
        using virt q fc by (auto split: if_splits)
      then show ?thesis
      proof cases
        case 1
        then show ?thesis using resolve_mnt_ok unfolding resolved_ok_def by blast
      next
        case 2
        from with_rel_shape [OF 2] show ?thesis by simp
      next
        case 3
        from with_rel_shape [OF 3] show ?thesis by simp
      qed
    qed
  qed
qed

theorem resolve_result_valid_witness:
  "\<exists>res. fs_resolve_path [\<lparr>in_use = True, vdrive_id = 0, partition_lba = 0, partition_index = 0, mount_valid = True\<rparr>]
      \<lparr>drive_count = 0, drive_model = Map.empty\<rparr> 0 '' /boot/kernel.cfg'' = Done res \<and>
    length (rel_path res) = 256 \<and> NUL \<in> set (rel_path res)"
proof -
  let ?r = "fs_resolve_path [\<lparr>in_use = True, vdrive_id = 0, partition_lba = 0, partition_index = 0, mount_valid = True\<rparr>]
      \<lparr>drive_count = 0, drive_model = Map.empty\<rparr> 0 '' /boot/kernel.cfg''"
  have "?r \<noteq> Fail" "?r \<noteq> Undef"
    by (simp_all add: fs_resolve_path_def is_blank_def char_at_def strncpy_eq put_at_def mount_ok_def
        fs_get_mount_def slot_used_def Let_def)
  then obtain res where "?r = Done res" by (cases ?r) auto
  from resolve_result_valid [OF this] this show ?thesis by blast
qed

end
