(* ===== verification/Hvfs_Cache.thy ===== *)
theory Hvfs_Cache
  imports Cstring
begin

text \<open>
  The read cache of \<^verbatim>\<open>src/fs/hvfs_cache.c\<close> and the file reader \<^verbatim>\<open>src/fs/hvfs.c\<close> that uses it: a
  fixed table of 128 whole-file buffers with reference counts, and eviction of the least recently
  used entry without references. Pointers are 64-bit words with 0 for NULL, a C string is the list
  of its characters (\<^verbatim>\<open>None\<close> for a null pointer). \<^verbatim>\<open>kfree\<close> is code of the kernel heap: the state
  carries the list of the buffers it was given. The mount check, \<^verbatim>\<open>fs_stat\<close>, \<^verbatim>\<open>kmalloc\<close> and
  \<^verbatim>\<open>fs_read_file\<close> enter \<^verbatim>\<open>hvfs_read\<close> by what they return.
\<close>

section \<open>State\<close>

datatype hvfs_cache_mode = HVFS_CACHE_32M | HVFS_CACHE_128M | HVFS_CACHE_UNLIMITED

record hvfs_cache_entry =
  e_in_use :: bool
  e_mount_slot :: int
  e_path :: cstr
  e_buf :: u64
  e_size :: u64
  e_refcnt :: u32
  e_last_use :: u64

abbreviation HVFS_CACHE_MAX_ENTRIES :: nat where "HVFS_CACHE_MAX_ENTRIES \<equiv> 128"

definition zero_entry :: hvfs_cache_entry where
  "zero_entry = \<lparr>e_in_use = False, e_mount_slot = 0, e_path = [], e_buf = 0, e_size = 0, e_refcnt = 0, e_last_use = 0\<rparr>"

record hvfs_state =
  g_cache :: "hvfs_cache_entry list"
  g_mode :: hvfs_cache_mode
  g_use_counter :: u64
  g_hits :: u64
  g_misses :: u64
  kfreed :: "u64 list"

definition hvfs_boot :: hvfs_state where
  "hvfs_boot = \<lparr>g_cache = replicate HVFS_CACHE_MAX_ENTRIES zero_entry, g_mode = HVFS_CACHE_128M, g_use_counter = 1,
     g_hits = 0, g_misses = 0, kfreed = []\<rparr>"

section \<open>Operations\<close>

fun cap_bytes :: "hvfs_cache_mode \<Rightarrow> u64" where
  "cap_bytes HVFS_CACHE_32M = 32 * 1024 * 1024"
| "cap_bytes HVFS_CACHE_128M = 128 * 1024 * 1024"
| "cap_bytes HVFS_CACHE_UNLIMITED = - 1"

text \<open>The sum wraps at 64 bits, as the accumulator of the code does.\<close>

definition hvfs_cache_bytes_used :: "hvfs_state \<Rightarrow> u64" where
  "hvfs_cache_bytes_used s = sum_list (map (\<lambda>e. if e_in_use e then e_size e else 0) (g_cache s))"

definition hvfs_cache_hits :: "hvfs_state \<Rightarrow> u64" where
  "hvfs_cache_hits s = g_hits s"

definition hvfs_cache_misses :: "hvfs_state \<Rightarrow> u64" where
  "hvfs_cache_misses s = g_misses s"

definition hvfs_cache_set_mode :: "hvfs_cache_mode \<Rightarrow> hvfs_state \<Rightarrow> hvfs_state" where
  "hvfs_cache_set_mode mode s = s\<lparr>g_mode := mode\<rparr>"

definition hvfs_cache_get_mode :: "hvfs_state \<Rightarrow> hvfs_cache_mode" where
  "hvfs_cache_get_mode s = g_mode s"

definition cache_match :: "int \<Rightarrow> cstr \<Rightarrow> hvfs_cache_entry \<Rightarrow> bool" where
  "cache_match slot path e = (e_in_use e \<and> e_mount_slot e = slot \<and> strcmp (e_path e) path = 0)"

text \<open>The first index whose entry satisfies a test; the loops of the file return at it.\<close>

definition first_entry :: "(hvfs_cache_entry \<Rightarrow> bool) \<Rightarrow> hvfs_state \<Rightarrow> nat option" where
  "first_entry P s = find (\<lambda>i. P (g_cache s ! i)) [0..<HVFS_CACHE_MAX_ENTRIES]"

text \<open>The result is the return value with what \<^verbatim>\<open>*outbuf\<close> and \<^verbatim>\<open>*out_size\<close> receive.\<close>

definition hvfs_cache_lookup :: "int \<Rightarrow> cstr option \<Rightarrow> hvfs_state \<Rightarrow> (bool \<times> u64 \<times> u64) \<times> hvfs_state" where
  "hvfs_cache_lookup slot path s =
    (if path = None \<or> path = Some [] then ((False, 0, 0), s)
     else case first_entry (cache_match slot (the path)) s of
       Some i \<Rightarrow>
         let e = g_cache s ! i
         in ((True, e_buf e, e_size e),
             s\<lparr>g_cache := (g_cache s)[i := e\<lparr>e_refcnt := e_refcnt e + 1, e_last_use := g_use_counter s\<rparr>],
               g_use_counter := g_use_counter s + 1, g_hits := g_hits s + 1\<rparr>)
     | None \<Rightarrow> ((False, 0, 0), s\<lparr>g_misses := g_misses s + 1\<rparr>))"

definition find_free_slot :: "hvfs_state \<Rightarrow> nat option" where
  "find_free_slot s = first_entry (\<lambda>e. \<not> e_in_use e) s"

fun lru_scan :: "hvfs_cache_entry list \<Rightarrow> nat \<Rightarrow> nat option \<Rightarrow> u64 \<Rightarrow> nat option" where
  "lru_scan [] i best best_use = best"
| "lru_scan (e # es) i best best_use =
    (if \<not> e_in_use e then lru_scan es (i + 1) best best_use
     else if e_refcnt e \<noteq> 0 then lru_scan es (i + 1) best best_use
     else if e_last_use e < best_use then lru_scan es (i + 1) (Some i) (e_last_use e)
     else lru_scan es (i + 1) best best_use)"

definition find_lru_evictable :: "hvfs_state \<Rightarrow> nat option" where
  "find_lru_evictable s = lru_scan (g_cache s) 0 None (- 1)"

definition evict_one :: "nat \<Rightarrow> hvfs_state \<Rightarrow> hvfs_state" where
  "evict_one i s =
    (let e = g_cache s ! i
     in if \<not> e_in_use e then s
        else if e_refcnt e \<noteq> 0 then s
        else s\<lparr>kfreed := (if e_buf e \<noteq> 0 then kfreed s @ [e_buf e] else kfreed s),
               g_cache := (g_cache s)[i := zero_entry]\<rparr>)"

definition entries_used :: "hvfs_state \<Rightarrow> nat" where
  "entries_used s = length (filter e_in_use (g_cache s))"

lemma lru_scan_Some:
  assumes "lru_scan es i best b = Some k" "best \<noteq> Some k"
  shows "i \<le> k \<and> k < i + length es \<and> e_in_use (es ! (k - i)) \<and> e_refcnt (es ! (k - i)) = 0"
  using assms
proof (induction es i best b rule: lru_scan.induct)
  case (2 e es i best b)
  have step: "i + 1 \<le> k \<and> k < i + 1 + length es \<and> e_in_use (es ! (k - (i + 1))) \<and> e_refcnt (es ! (k - (i + 1))) = 0 \<Longrightarrow> ?case"
    by (auto simp: nth_Cons')
  show ?case
  proof (cases "e_in_use e \<and> e_refcnt e = 0 \<and> e_last_use e < b")
    case True
    show ?thesis
    proof (cases "k = i")
      case True
      then show ?thesis using \<open>e_in_use e \<and> _\<close> by simp
    next
      case False
      then show ?thesis using True 2 step by simp
    qed
  next
    case False
    then show ?thesis using 2 step by (auto split: if_splits)
  qed
qed simp

lemma find_lru_SomeD:
  "find_lru_evictable s = Some k \<Longrightarrow> k < length (g_cache s) \<and> e_in_use (g_cache s ! k) \<and> e_refcnt (g_cache s ! k) = 0"
  using lru_scan_Some [of "g_cache s" 0 None "- 1" k] by (simp add: find_lru_evictable_def)

lemma evict_one_less:
  assumes "find_lru_evictable s = Some k"
  shows "entries_used (evict_one k s) < entries_used s"
proof -
  have k: "k < length (g_cache s)" "e_in_use (g_cache s ! k)" "e_refcnt (g_cache s ! k) = 0"
    using find_lru_SomeD [OF assms] by auto
  have "filter e_in_use ((g_cache s)[k := zero_entry]) =
      filter e_in_use (take k (g_cache s)) @ filter e_in_use (drop (Suc k) (g_cache s))"
    using k(1) by (simp add: upd_conv_take_nth_drop zero_entry_def)
  moreover have "filter e_in_use (g_cache s) =
      filter e_in_use (take k (g_cache s)) @ g_cache s ! k # filter e_in_use (drop (Suc k) (g_cache s))"
    by (subst id_take_nth_drop [OF k(1)]) (simp add: k(2))
  ultimately show ?thesis using k by (simp add: entries_used_def evict_one_def Let_def)
qed

text \<open>The eviction loop of \<^verbatim>\<open>hvfs_cache_store\<close>; it ends because every round frees an entry. The flag is
  False when the function returns 0 from inside the loop.\<close>

function make_room :: "u64 \<Rightarrow> u64 \<Rightarrow> hvfs_state \<Rightarrow> bool \<times> hvfs_state" where
  "make_room cap sz s =
    (if hvfs_cache_bytes_used s + sz > cap
     then case find_lru_evictable s of None \<Rightarrow> (False, s) | Some ev \<Rightarrow> make_room cap sz (evict_one ev s)
     else (True, s))"
  by pat_completeness auto
termination by (relation "measure (\<lambda>(_, _, s). entries_used s)") (auto intro: evict_one_less)

declare make_room.simps [simp del]

definition free_slot_or_evict :: "hvfs_state \<Rightarrow> nat option \<times> hvfs_state" where
  "free_slot_or_evict s =
    (case find_free_slot s of
       Some slot \<Rightarrow> (Some slot, s)
     | None \<Rightarrow>
        (case find_lru_evictable s of
           None \<Rightarrow> (None, s)
         | Some ev \<Rightarrow> let s' = evict_one ev s in (find_free_slot s', s')))"

definition hvfs_cache_store :: "int \<Rightarrow> cstr option \<Rightarrow> u64 \<Rightarrow> u64 \<Rightarrow> hvfs_state \<Rightarrow> bool \<times> hvfs_state" where
  "hvfs_cache_store slot path buf sz s =
    (if path = None \<or> path = Some [] \<or> buf = 0 then (False, s)
     else let cap = cap_bytes (g_mode s)
     in if cap \<noteq> - 1 \<and> sz > cap then (False, s)
     else let (ok, s1) = (if cap \<noteq> - 1 then make_room cap sz s else (True, s))
     in if \<not> ok then (False, s1)
     else case free_slot_or_evict s1 of
       (None, s2) \<Rightarrow> (False, s2)
     | (Some i, s2) \<Rightarrow>
         (True, s2\<lparr>g_cache := (g_cache s2)[i := \<lparr>e_in_use = True, e_mount_slot = slot, e_path = take 255 (the path),
                       e_buf = buf, e_size = sz, e_refcnt = 1, e_last_use = g_use_counter s2\<rparr>],
                  g_use_counter := g_use_counter s2 + 1\<rparr>))"

definition hvfs_cache_release :: "u64 \<Rightarrow> hvfs_state \<Rightarrow> bool \<times> hvfs_state" where
  "hvfs_cache_release buf s =
    (if buf = 0 then (False, s)
     else case first_entry (\<lambda>e. e_in_use e \<and> e_buf e = buf) s of
       None \<Rightarrow> (False, s)
     | Some i \<Rightarrow>
         let e = g_cache s ! i
         in (True, s\<lparr>g_cache := (g_cache s)[i := e\<lparr>e_refcnt := (if e_refcnt e > 0 then e_refcnt e - 1 else e_refcnt e),
                                                   e_last_use := g_use_counter s\<rparr>],
                     g_use_counter := g_use_counter s + 1\<rparr>))"

section \<open>The reader\<close>

text \<open>What the filesystem and the heap answer to one \<^verbatim>\<open>hvfs_read\<close>: whether the mount is valid, the size
  and directory flag of \<^verbatim>\<open>fs_stat\<close> (None when it fails), the pointer of \<^verbatim>\<open>kmalloc\<close> and the return
  value and byte count of \<^verbatim>\<open>fs_read_file\<close>.\<close>

record fs_answers =
  mount_is_valid :: bool
  stat_info :: "(u64 \<times> bool) option"
  kmalloc_ptr :: u64
  read_result :: int
  bytes_read :: u64

definition hvfs_read :: "fs_answers \<Rightarrow> int \<Rightarrow> cstr option \<Rightarrow> bool \<Rightarrow> hvfs_state \<Rightarrow> (int \<times> u64 \<times> u64) \<times> hvfs_state" where
  "hvfs_read fs drvmnt path outbuf_null s =
    (if \<not> mount_is_valid fs then ((-1, 0, 0), s)
     else if path = None \<or> path = Some [] \<or> outbuf_null then ((-1, 0, 0), s)
     else case stat_info fs of
       None \<Rightarrow> ((1, 0, 0), s)
     | Some (fsize, is_dir) \<Rightarrow>
        if is_dir then ((2, 0, 0), s)
        else case hvfs_cache_lookup drvmnt path s of
          ((True, cbuf, csz), s1) \<Rightarrow> ((0, cbuf, csz), s1)
        | ((False, _, _), s1) \<Rightarrow>
           if kmalloc_ptr fs = 0 then ((-3, 0, 0), s1)
           else if read_result fs \<noteq> 0 \<or> bytes_read fs \<noteq> fsize
             then ((-4, 0, 0), s1\<lparr>kfreed := kfreed s1 @ [kmalloc_ptr fs]\<rparr>)
           else let (_, s2) = hvfs_cache_store drvmnt path (kmalloc_ptr fs) (bytes_read fs) s1
                in ((0, kmalloc_ptr fs, bytes_read fs), s2))"

definition hvfs_free :: "u64 \<Rightarrow> hvfs_state \<Rightarrow> hvfs_state" where
  "hvfs_free buf s =
    (if buf = 0 then s
     else case hvfs_cache_release buf s of
       (True, s') \<Rightarrow> s'
     | (False, s') \<Rightarrow> s'\<lparr>kfreed := kfreed s' @ [buf]\<rparr>)"

end
