(* ===== verification/Hvfs_Correct.thy ===== *)
theory Hvfs_Correct
  imports Hvfs_Cache Cstring_Props "HOL-Library.Multiset"
begin

text \<open>
  Correctness of the read cache. A step relation adds the buffers the clients hold to the state of
  the cache; the invariant ties each reference count to them. On top of it: buffers in use are never
  released and none is lost, when a file is stored, and what a second read of a file returns.
\<close>

section \<open>Evictions\<close>

text \<open>\<^verbatim>\<open>evicts s fr s'\<close>: \<^verbatim>\<open>s'\<close> arises from \<^verbatim>\<open>s\<close> by evictions that release the buffers \<^verbatim>\<open>fr\<close>.\<close>

inductive evicts :: "hvfs_state \<Rightarrow> u64 list \<Rightarrow> hvfs_state \<Rightarrow> bool" where
  refl: "evicts s [] s"
| step: "find_lru_evictable s = Some k \<Longrightarrow> e_buf (g_cache s ! k) \<noteq> 0 \<Longrightarrow> evicts (evict_one k s) fr s' \<Longrightarrow>
    evicts s (e_buf (g_cache s ! k) # fr) s'"

definition cached :: "hvfs_state \<Rightarrow> u64 set" where
  "cached s = e_buf ` {e \<in> set (g_cache s). e_in_use e}"

definition cache_inv :: "hvfs_state \<Rightarrow> u64 multiset \<Rightarrow> bool" where
  "cache_inv s held = (length (g_cache s) = 128 \<and> 0 \<notin># held \<and>
     (\<forall>i<128. e_in_use (g_cache s ! i) \<longrightarrow> e_buf (g_cache s ! i) \<noteq> 0 \<and>
        unat (e_refcnt (g_cache s ! i)) = count held (e_buf (g_cache s ! i))) \<and>
     (\<forall>i<128. \<forall>j<128. e_in_use (g_cache s ! i) \<longrightarrow> e_in_use (g_cache s ! j) \<longrightarrow>
        e_buf (g_cache s ! i) = e_buf (g_cache s ! j) \<longrightarrow> i = j))"

lemma cached_iff:
  "length (g_cache s) = 128 \<Longrightarrow> b \<in> cached s \<longleftrightarrow> (\<exists>i<128. e_in_use (g_cache s ! i) \<and> e_buf (g_cache s ! i) = b)"
  by (auto simp: cached_def in_set_conv_nth image_iff)

lemma evict_one_cache:
  assumes "find_lru_evictable s = Some k" "e_buf (g_cache s ! k) \<noteq> 0"
  shows "g_cache (evict_one k s) = (g_cache s)[k := zero_entry]"
    and "kfreed (evict_one k s) = kfreed s @ [e_buf (g_cache s ! k)]"
    and "g_mode (evict_one k s) = g_mode s" "g_use_counter (evict_one k s) = g_use_counter s"
  using assms find_lru_SomeD [OF assms(1)] by (simp_all add: evict_one_def Let_def)

lemma zero_entry_simps [simp]: "\<not> e_in_use zero_entry" "e_last_use zero_entry = 0"
  by (simp_all add: zero_entry_def)

lemma evict_inv:
  assumes inv: "cache_inv s held" and k: "find_lru_evictable s = Some k"
  shows "cache_inv (evict_one k s) held" and "e_buf (g_cache s ! k) \<noteq> 0" and "e_buf (g_cache s ! k) \<notin># held"
    and "cached (evict_one k s) = cached s - {e_buf (g_cache s ! k)}" and "e_buf (g_cache s ! k) \<in> cached s"
proof -
  have k': "k < 128" "e_in_use (g_cache s ! k)" "e_refcnt (g_cache s ! k) = 0"
    using find_lru_SomeD [OF k] inv by (auto simp: cache_inv_def)
  have len: "length (g_cache s) = 128" using inv by (simp add: cache_inv_def)
  show nz: "e_buf (g_cache s ! k) \<noteq> 0" using inv k' by (simp add: cache_inv_def)
  note ev = evict_one_cache [OF k nz]
  have uniq: "\<And>i. i < 128 \<Longrightarrow> e_in_use (g_cache s ! i) \<Longrightarrow> e_buf (g_cache s ! i) = e_buf (g_cache s ! k) \<Longrightarrow> i = k"
    using inv k' unfolding cache_inv_def by blast
  have len': "length (g_cache (evict_one k s)) = 128" using len by (simp add: ev)
  have nth: "\<And>i. i < 128 \<Longrightarrow> g_cache (evict_one k s) ! i = (if i = k then zero_entry else g_cache s ! i)"
    using len by (simp add: ev nth_list_update)
  show "cache_inv (evict_one k s) held"
    using inv len' unfolding cache_inv_def by (auto simp: nth)
  have "unat (e_refcnt (g_cache s ! k)) = count held (e_buf (g_cache s ! k))"
    using inv k'(1,2) unfolding cache_inv_def by blast
  then show "e_buf (g_cache s ! k) \<notin># held" using k'(3) by (simp add: count_eq_zero_iff)
  show "e_buf (g_cache s ! k) \<in> cached s" using k' len by (auto simp: cached_iff)
  show "cached (evict_one k s) = cached s - {e_buf (g_cache s ! k)}"
  proof (intro set_eqI)
    fix b
    show "b \<in> cached (evict_one k s) \<longleftrightarrow> b \<in> cached s - {e_buf (g_cache s ! k)}"
      unfolding cached_iff [OF len'] Diff_iff cached_iff [OF len]
      using uniq nth zero_entry_simps(1) by (metis singletonD singletonI)
  qed
qed

lemma evicts_inv:
  assumes "evicts s fr s'" "cache_inv s held"
  shows "cache_inv s' held \<and> kfreed s' = kfreed s @ fr \<and> distinct fr \<and> set fr \<subseteq> cached s \<and>
    set fr \<inter> set_mset held = {} \<and> cached s' = cached s - set fr"
  using assms
proof (induction rule: evicts.induct)
  case (step s k fr s')
  note ev = evict_inv [OF step.prems step.hyps(1)]
  show ?case
    using step.IH [OF ev(1)] ev evict_one_cache [OF step.hyps(1,2)] by auto
qed simp

lemma evicts_single:
  "find_lru_evictable s = Some k \<Longrightarrow> e_buf (g_cache s ! k) \<noteq> 0 \<Longrightarrow> evicts s [e_buf (g_cache s ! k)] (evict_one k s)"
  by (rule evicts.step [OF _ _ evicts.refl])

lemma evicts_trans: "evicts s fr s' \<Longrightarrow> evicts s' fr' s'' \<Longrightarrow> evicts s (fr @ fr') s''"
  by (induction rule: evicts.induct) (auto intro: evicts.intros)

lemma evicts_mode: "evicts s fr s' \<Longrightarrow> g_mode s' = g_mode s \<and> g_use_counter s' = g_use_counter s"
  by (induction rule: evicts.induct) (auto simp: evict_one_cache)

lemma make_room_evicts: "cache_inv s held \<Longrightarrow> \<exists>fr. evicts s fr (snd (make_room cap sz s))"
proof (induction cap sz s rule: make_room.induct)
  case (1 cap sz s)
  show ?case
  proof (cases "hvfs_cache_bytes_used s + sz > cap \<and> find_lru_evictable s \<noteq> None")
    case True
    then obtain k where k: "find_lru_evictable s = Some k" by auto
    note ev = evict_inv [OF 1(2) k]
    obtain fr where "evicts (evict_one k s) fr (snd (make_room cap sz (evict_one k s)))"
      using 1(1) [of k] True k ev(1) by auto
    then show ?thesis
      using True k evicts.step [OF k ev(2)] by (auto simp: make_room.simps [of cap sz s])
  next
    case False
    then show ?thesis by (auto simp: make_room.simps [of cap sz s] intro: evicts.refl)
  qed
qed

lemma first_entry_SomeD:
  "first_entry P s = Some i \<Longrightarrow> i < 128 \<and> P (g_cache s ! i) \<and> (\<forall>j<i. \<not> P (g_cache s ! j))"
  by (auto simp: first_entry_def find_upt_Some_iff)

lemma first_entry_NoneD: "first_entry P s = None \<Longrightarrow> i < 128 \<Longrightarrow> \<not> P (g_cache s ! i)"
  by (auto simp: first_entry_def find_upt_None_iff)

lemma free_slot_evicts:
  assumes "cache_inv s held" "free_slot_or_evict s = (r, s')"
  shows "\<exists>fr. evicts s fr s'" and "r = Some i \<Longrightarrow> i < 128 \<and> \<not> e_in_use (g_cache s' ! i)"
proof -
  show "\<exists>fr. evicts s fr s'"
  proof (cases "find_lru_evictable s")
    case None
    then show ?thesis using assms by (auto simp: free_slot_or_evict_def split: option.splits intro: evicts.refl)
  next
    case (Some k)
    then show ?thesis
      using assms evicts_single [OF Some evict_inv(2) [OF assms(1) Some]]
      by (auto simp: free_slot_or_evict_def Let_def split: option.splits intro: evicts.refl)
  qed
  show "r = Some i \<Longrightarrow> i < 128 \<and> \<not> e_in_use (g_cache s' ! i)"
    using assms by (auto simp: free_slot_or_evict_def find_free_slot_def Let_def split: option.splits
        dest: first_entry_SomeD)
qed

section \<open>Single operations\<close>

lemma store_cases:
  assumes "cache_inv s held" "hvfs_cache_store slot path buf sz s = (ok, s')"
  obtains fr where "evicts s fr s'" "\<not> ok"
  | fr s2 i where "evicts s fr s2" "ok" "path \<noteq> None" "i < 128" "\<not> e_in_use (g_cache s2 ! i)"
      "s' = s2\<lparr>g_cache := (g_cache s2)[i := \<lparr>e_in_use = True, e_mount_slot = slot, e_path = take 255 (the path),
                    e_buf = buf, e_size = sz, e_refcnt = 1, e_last_use = g_use_counter s2\<rparr>],
               g_use_counter := g_use_counter s2 + 1\<rparr>"
proof (cases "path = None \<or> path = Some [] \<or> buf = 0 \<or> (cap_bytes (g_mode s) \<noteq> - 1 \<and> sz > cap_bytes (g_mode s))")
  case True
  then have "hvfs_cache_store slot path buf sz s = (False, s)" unfolding hvfs_cache_store_def Let_def by auto
  then have "s' = s" "\<not> ok" using assms(2) by auto
  then show ?thesis using that(1) [of "[]"] evicts.refl [of s] by simp
next
  case False
  obtain r s1 where r: "(if cap_bytes (g_mode s) \<noteq> - 1 then make_room (cap_bytes (g_mode s)) sz s else (True, s)) = (r, s1)"
    by fastforce
  obtain fr where fr: "evicts s fr s1"
  proof (cases "cap_bytes (g_mode s) \<noteq> - 1")
    case True
    obtain fr where "evicts s fr (snd (make_room (cap_bytes (g_mode s)) sz s))"
      using make_room_evicts [OF assms(1)] by blast
    then show ?thesis using that r True by simp
  next
    case False
    then show ?thesis using that [of "[]"] r evicts.refl [of s] by simp
  qed
  obtain j s2 where j: "free_slot_or_evict s1 = (j, s2)" by fastforce
  have inv1: "cache_inv s1 held" using evicts_inv [OF fr assms(1)] by blast
  obtain fr' where fr': "evicts s1 fr' s2" using free_slot_evicts(1) [OF inv1 j] by blast
  have run: "hvfs_cache_store slot path buf sz s =
     (if \<not> r then (False, s1) else case (j, s2) of (None, s2) \<Rightarrow> (False, s2) | (Some i, s2) \<Rightarrow>
        (True, s2\<lparr>g_cache := (g_cache s2)[i := \<lparr>e_in_use = True, e_mount_slot = slot, e_path = take 255 (the path),
                    e_buf = buf, e_size = sz, e_refcnt = 1, e_last_use = g_use_counter s2\<rparr>],
               g_use_counter := g_use_counter s2 + 1\<rparr>))"
    unfolding hvfs_cache_store_def Let_def r using False by (auto simp: j)
  show ?thesis
  proof (cases r)
    case False
    then show ?thesis using that(1) [of fr] fr run assms(2) by simp
  next
    case True
    show ?thesis
    proof (cases j)
      case None
      then show ?thesis using that(1) [of "fr @ fr'"] evicts_trans [OF fr fr'] run True assms(2) by simp
    next
      case (Some i)
      then show ?thesis
        using that(2) [OF evicts_trans [OF fr fr'], of i] run True assms(2) False free_slot_evicts(2) [OF inv1 j Some]
        by simp
    qed
  qed
qed

lemma inv_other_count:
  assumes "cache_inv s held" "\<And>b. b \<in> cached s \<Longrightarrow> count held' b = count held b" "0 \<notin># held'"
  shows "cache_inv s held'"
proof -
  have len: "length (g_cache s) = 128" using assms(1) by (simp add: cache_inv_def)
  have "\<And>i. i < 128 \<Longrightarrow> e_in_use (g_cache s ! i) \<Longrightarrow> count held' (e_buf (g_cache s ! i)) = count held (e_buf (g_cache s ! i))"
    using assms(2) cached_iff [OF len] by blast
  then show ?thesis using assms(1,3) unfolding cache_inv_def by simp
qed

lemma inv_update_entry:
  assumes inv: "cache_inv s held" and i: "i < 128" "e_in_use (g_cache s ! i)"
    and e: "e_in_use e" "e_buf e = e_buf (g_cache s ! i)" "unat (e_refcnt e) = count held' (e_buf e)"
    and o: "\<And>b. b \<noteq> e_buf e \<Longrightarrow> count held' b = count held b" "0 \<notin># held'"
    and s': "g_cache s' = (g_cache s)[i := e]"
  shows "cache_inv s' held'" and "cached s' = cached s"
proof -
  have len: "length (g_cache s) = 128" "length (g_cache s') = 128" using inv s' by (simp_all add: cache_inv_def)
  have nth: "\<And>j. j < 128 \<Longrightarrow> g_cache s' ! j = (if j = i then e else g_cache s ! j)"
    using len by (simp add: s' nth_list_update)
  have ne: "\<And>j. j < 128 \<Longrightarrow> e_in_use (g_cache s ! j) \<Longrightarrow> j \<noteq> i \<Longrightarrow> e_buf (g_cache s ! j) \<noteq> e_buf e"
    using inv i e(2) unfolding cache_inv_def by metis
  show "cached s' = cached s"
    by (intro set_eqI) (unfold cached_iff [OF len(1)] cached_iff [OF len(2)], metis nth e(1,2) i)
  have c: "e_buf (g_cache s' ! j) \<noteq> 0 \<and> unat (e_refcnt (g_cache s' ! j)) = count held' (e_buf (g_cache s' ! j))"
    if "j < 128" "e_in_use (g_cache s' ! j)" for j
  proof (cases "j = i")
    case True
    then show ?thesis using inv i e nth [OF i(1)] unfolding cache_inv_def by metis
  next
    case False
    have "e_in_use (g_cache s ! j)" using nth [OF that(1)] that(2) False by simp
    then show ?thesis
      using inv ne [OF that(1) _ False] o(1) nth [OF that(1)] False that(1) unfolding cache_inv_def by simp
  qed
  have d: "j = k" if "j < 128" "k < 128" "e_in_use (g_cache s' ! j)" "e_in_use (g_cache s' ! k)"
      "e_buf (g_cache s' ! j) = e_buf (g_cache s' ! k)" for j k
    using that ne [of j] ne [of k] inv unfolding cache_inv_def by (auto simp: nth split: if_splits)
  show "cache_inv s' held'" using c d o(2) len(2) unfolding cache_inv_def by blast
qed

lemma inv_insert_entry:
  assumes inv: "cache_inv s held" and i: "i < 128" "\<not> e_in_use (g_cache s ! i)"
    and e: "e_in_use e" "e_buf e \<notin> cached s" "e_buf e \<noteq> 0" "unat (e_refcnt e) = count held (e_buf e)"
    and s': "g_cache s' = (g_cache s)[i := e]"
  shows "cache_inv s' held" and "cached s' = insert (e_buf e) (cached s)"
proof -
  have len: "length (g_cache s) = 128" "length (g_cache s') = 128" using inv s' by (simp_all add: cache_inv_def)
  have nth: "\<And>j. j < 128 \<Longrightarrow> g_cache s' ! j = (if j = i then e else g_cache s ! j)"
    using len by (simp add: s' nth_list_update)
  have ne: "\<And>j. j < 128 \<Longrightarrow> e_in_use (g_cache s ! j) \<Longrightarrow> e_buf (g_cache s ! j) \<noteq> e_buf e"
    using e(2) cached_iff [OF len(1)] by metis
  show "cached s' = insert (e_buf e) (cached s)"
    by (intro set_eqI) (unfold cached_iff [OF len(1)] cached_iff [OF len(2)] insert_iff, metis nth e(1) i)
  have d: "j = k" if "j < 128" "k < 128" "e_in_use (g_cache s' ! j)" "e_in_use (g_cache s' ! k)"
      "e_buf (g_cache s' ! j) = e_buf (g_cache s' ! k)" for j k
    using that ne [of j] ne [of k] inv unfolding cache_inv_def by (auto simp: nth split: if_splits)
  have c: "e_buf (g_cache s' ! j) \<noteq> 0 \<and> unat (e_refcnt (g_cache s' ! j)) = count held (e_buf (g_cache s' ! j))"
    if "j < 128" "e_in_use (g_cache s' ! j)" for j
    using that inv e(3,4) unfolding cache_inv_def by (auto simp: nth split: if_splits)
  show "cache_inv s' held" using c d inv len(2) unfolding cache_inv_def by blast
qed

section \<open>Steps of the reader and its clients\<close>

text \<open>One call, with the buffers the clients hold: a successful read gives its caller one more
  reference, a client frees only what it holds, \<^verbatim>\<open>kmalloc\<close> does not return a buffer that is cached or
  held, and fewer than \<^verbatim>\<open>2 ^ 32 - 1\<close> references are outstanding.\<close>

inductive hvfs_step :: "hvfs_state \<Rightarrow> u64 multiset \<Rightarrow> hvfs_state \<Rightarrow> u64 multiset \<Rightarrow> bool" where
  read: "hvfs_read fs m path nul s = ((r, b, n), s') \<Longrightarrow> kmalloc_ptr fs \<notin> cached s \<union> set_mset held \<Longrightarrow>
    size held < 2 ^ 32 - 1 \<Longrightarrow> hvfs_step s held s' (if r = 0 then add_mset b held else held)"
| free: "b \<in># held \<Longrightarrow> hvfs_step s held (hvfs_free b s) (held - {#b#})"
| mode: "hvfs_step s held (hvfs_cache_set_mode md s) held"

inductive hvfs_reach :: "hvfs_state \<Rightarrow> u64 multiset \<Rightarrow> bool" where
  boot: "hvfs_reach hvfs_boot {#}"
| step: "hvfs_reach s held \<Longrightarrow> hvfs_step s held s' held' \<Longrightarrow> hvfs_reach s' held'"

text \<open>What one step keeps: the invariant, that a buffer outside the cache has one holder, and the buffers that are cached or held before are so after
  or are released, once, and then neither cached nor held.\<close>

definition held_once :: "hvfs_state \<Rightarrow> u64 multiset \<Rightarrow> bool" where
  "held_once s held = (\<forall>b. b \<notin> cached s \<longrightarrow> count held b \<le> 1)"

definition step_ok :: "hvfs_state \<Rightarrow> u64 multiset \<Rightarrow> hvfs_state \<Rightarrow> u64 multiset \<Rightarrow> bool" where
  "step_ok s held s' held' = (cache_inv s' held' \<and> held_once s' held' \<and>
     (\<exists>fr. kfreed s' = kfreed s @ fr \<and> distinct fr \<and> set fr \<inter> (cached s' \<union> set_mset held') = {} \<and>
        cached s \<union> set_mset held \<subseteq> cached s' \<union> set_mset held' \<union> set fr))"

lemma step_okI:
  "cache_inv s' held' \<Longrightarrow> held_once s' held' \<Longrightarrow> kfreed s' = kfreed s @ fr \<Longrightarrow> distinct fr \<Longrightarrow>
    set fr \<inter> (cached s' \<union> set_mset held') = {} \<Longrightarrow>
    cached s \<union> set_mset held \<subseteq> cached s' \<union> set_mset held' \<union> set fr \<Longrightarrow> step_ok s held s' held'"
  unfolding step_ok_def by blast

lemma cache_inv_cong: "g_cache s' = g_cache s \<Longrightarrow> cache_inv s' held = cache_inv s held"
  by (simp add: cache_inv_def)

lemma cached_cong: "g_cache s' = g_cache s \<Longrightarrow> cached s' = cached s"
  by (simp add: cached_def)

lemma inv_cong:
  assumes "g_cache s' = g_cache s" "cache_inv s held" "held_once s held"
  shows "cached s' = cached s" "cache_inv s' held" "held_once s' held"
  using assms(2,3) cached_cong [OF assms(1)] cache_inv_cong [OF assms(1)] by (simp_all add: held_once_def)

lemma step_ok_same: "cache_inv s held \<Longrightarrow> held_once s held \<Longrightarrow> g_cache s' = g_cache s \<Longrightarrow> kfreed s' = kfreed s \<Longrightarrow> step_ok s held s' held"
  by (rule step_okI [of _ _ _ "[]"]) (simp_all add: cache_inv_cong [of s' s] cached_cong [of s' s] held_once_def)

lemma count_less_word:
  assumes "size held < 2 ^ 32 - 1" "unat (x :: u32) = count held b"
  shows "unat (x + 1) = Suc (count held b)"
proof -
  have "count held b \<le> size held" by (rule count_le_size)
  then have "unat x + 1 < 2 ^ 32" using assms by simp
  then show ?thesis using assms(2) by (simp add: unat_word_ariths)
qed

lemma lookup_hit_ok:
  assumes inv: "cache_inv s held" "held_once s held" and sz: "size held < 2 ^ 32 - 1"
    and hit: "hvfs_cache_lookup m path s = ((True, b, n), s')"
  shows "step_ok s held s' (add_mset b held)"
proof -
  obtain i where i: "path \<noteq> None" "path \<noteq> Some []" "first_entry (cache_match m (the path)) s = Some i"
    using hit by (auto simp: hvfs_cache_lookup_def split: if_splits option.splits)
  let ?e = "g_cache s ! i"
  have b: "b = e_buf ?e" and
    s': "s' = s\<lparr>g_cache := (g_cache s)[i := ?e\<lparr>e_refcnt := e_refcnt ?e + 1, e_last_use := g_use_counter s\<rparr>],
      g_use_counter := g_use_counter s + 1, g_hits := g_hits s + 1\<rparr>"
    using hit i by (auto simp: hvfs_cache_lookup_def Let_def)
  have use: "i < 128" "e_in_use ?e" using first_entry_SomeD [OF i(3)] by (auto simp: cache_match_def)
  have rc: "unat (e_refcnt ?e) = count held b" "b \<noteq> 0" using inv(1) use b unfolding cache_inv_def by auto
  have zero: "0 \<notin># held" using inv(1) by (simp add: cache_inv_def)
  have upd: "cache_inv s' (add_mset b held)" "cached s' = cached s"
    by (rule inv_update_entry [OF inv(1) use, where held' = "add_mset b held" and
          e = "?e\<lparr>e_refcnt := e_refcnt ?e + 1, e_last_use := g_use_counter s\<rparr>"];
        use use b rc zero count_less_word [OF sz rc(1)] s' in auto)+
  have "b \<in> cached s" using cached_iff [of s b] inv(1) use b unfolding cache_inv_def by blast
  then have once: "held_once s' (add_mset b held)" using inv(2) by (auto simp: held_once_def upd(2))
  show ?thesis by (rule step_okI [OF upd(1) once, of _ "[]"]) (use s' upd(2) in auto)
qed

lemma lookup_miss: "hvfs_cache_lookup m path s = ((False, b, n), s') \<Longrightarrow> g_cache s' = g_cache s \<and> kfreed s' = kfreed s \<and> g_mode s' = g_mode s"
  by (auto simp: hvfs_cache_lookup_def Let_def split: if_splits option.splits)

lemma store_ok:
  assumes inv: "cache_inv s held" and once: "held_once s held" and fresh: "b \<noteq> 0" "b \<notin> cached s" "b \<notin># held"
    and store: "hvfs_cache_store m path b n s = (ok, s')"
  shows "step_ok s held s' (add_mset b held)"
proof -
  have new: "cache_inv s0 (add_mset b held)" if "cache_inv s0 held" "cached s0 \<subseteq> cached s" for s0
    by (rule inv_other_count [OF that(1)]) (use that fresh in \<open>auto simp: cache_inv_def\<close>)
  have "count held b = 0" using fresh(3) by (simp add: count_eq_zero_iff)
  then have once': "count (add_mset b held) x \<le> 1" if "set fr \<inter> set_mset held = {}" "x \<notin> cached s - set fr" for fr x
    using that once count_eq_zero_iff [of held x] by (cases "x \<in> set fr") (auto simp: held_once_def)
  from inv store show ?thesis
  proof (cases rule: store_cases)
    case (1 fr)
    note ev = evicts_inv [OF 1(1) inv]
    have once': "x \<notin> cached s - set fr \<Longrightarrow> count (add_mset b held) x \<le> 1" for x
      using once' [of fr x] ev by blast
    show ?thesis by (rule step_okI [of _ _ _ fr]) (use ev new [of s'] fresh once' in \<open>auto simp: held_once_def\<close>)
  next
    case (2 fr s2 i)
    note ev = evicts_inv [OF 2(1) inv]
    have once': "x \<notin> cached s - set fr \<Longrightarrow> count (add_mset b held) x \<le> 1" for x
      using once' [of fr x] ev by blast
    have inv2: "cache_inv s2 (add_mset b held)" using new ev by blast
    have ins: "cache_inv s' (add_mset b held)" "cached s' = insert b (cached s2)"
      by (rule inv_insert_entry [OF inv2 2(4,5), of "\<lparr>e_in_use = True, e_mount_slot = m, e_path = take 255 (the path),
                    e_buf = b, e_size = n, e_refcnt = 1, e_last_use = g_use_counter s2\<rparr>", simplified];
          use 2 ev fresh in \<open>auto simp: not_in_iff\<close>)+
    show ?thesis by (rule step_okI [OF ins(1), of _ fr]) (use ev 2 ins fresh once' in \<open>auto simp: held_once_def\<close>)
  qed
qed

lemma release_miss:
  assumes inv: "cache_inv s held" and rel: "hvfs_cache_release b s = (False, s')" and b: "b \<noteq> 0"
  shows "s' = s" and "b \<notin> cached s"
proof -
  have none: "first_entry (\<lambda>e. e_in_use e \<and> e_buf e = b) s = None" and "s' = s"
    using rel b by (auto simp: hvfs_cache_release_def Let_def split: option.splits)
  then show "s' = s" by simp
  show "b \<notin> cached s"
    using first_entry_NoneD [OF none] cached_iff [of s b] inv by (auto simp: cache_inv_def)
qed

lemma release_hit_ok:
  assumes inv: "cache_inv s held" and once: "held_once s held" and held: "b \<in># held" and rel: "hvfs_cache_release b s = (True, s')"
  shows "step_ok s held s' (held - {#b#})"
proof -
  obtain i where i: "first_entry (\<lambda>e. e_in_use e \<and> e_buf e = b) s = Some i"
    using rel by (auto simp: hvfs_cache_release_def split: if_splits option.splits)
  let ?e = "g_cache s ! i"
  let ?e' = "?e\<lparr>e_refcnt := (if e_refcnt ?e > 0 then e_refcnt ?e - 1 else e_refcnt ?e), e_last_use := g_use_counter s\<rparr>"
  have s': "s' = s\<lparr>g_cache := (g_cache s)[i := ?e'], g_use_counter := g_use_counter s + 1\<rparr>"
    using rel i by (auto simp: hvfs_cache_release_def Let_def split: if_splits)
  have use: "i < 128" "e_in_use ?e" and b: "e_buf ?e = b" using first_entry_SomeD [OF i] by auto
  have rc: "unat (e_refcnt ?e) = count held b" using inv use b unfolding cache_inv_def by auto
  have pos: "e_refcnt ?e > 0" using rc held by (metis count_greater_zero_iff unat_gt_0 word_neq_0_conv)
  have dec: "unat (e_refcnt ?e - 1) = count held b - 1" using rc pos by (metis unat_minus_one word_neq_0_conv)
  have zero: "0 \<notin># held - {#b#}" using inv by (auto simp: cache_inv_def dest: in_diffD)
  have upd: "cache_inv s' (held - {#b#})" "cached s' = cached s"
    by (rule inv_update_entry [OF inv use, where held' = "held - {#b#}" and e = ?e'];
        use use b dec pos zero s' in auto)+
  have "b \<in> cached s" using cached_iff [of s b] inv use b unfolding cache_inv_def by blast
  moreover have "set_mset held \<subseteq> insert b (set_mset (held - {#b#}))"
    by (metis add_mset_remove_trivial_If order.refl set_mset_add_mset_insert subset_insertI)
  moreover have "held_once s' (held - {#b#})" using once upd(2) by (auto simp: held_once_def le_diff_conv intro: le_SucI)
  ultimately show ?thesis
    by (intro step_okI [OF upd(1), of _ "[]"]) (use s' upd(2) in auto)
qed

lemma free_ok:
  assumes inv: "cache_inv s held" and once: "held_once s held" and held: "b \<in># held"
  shows "step_ok s held (hvfs_free b s) (held - {#b#})"
proof -
  have nz: "b \<noteq> 0" using inv held by (auto simp: cache_inv_def)
  obtain r s' where r: "hvfs_cache_release b s = (r, s')" by fastforce
  show ?thesis
  proof (cases r)
    case True
    then show ?thesis using release_hit_ok [OF inv once held, of s'] r nz by (simp add: hvfs_free_def)
  next
    case False
    then have "hvfs_cache_release b s = (False, s')" using r by simp
    note miss = release_miss [OF inv this nz]
    let ?s = "s\<lparr>kfreed := kfreed s @ [b]\<rparr>"
    have eq: "hvfs_free b s = ?s" using r False miss(1) nz by (simp add: hvfs_free_def)
    have same: "cached ?s = cached s" by (simp add: cached_def)
    have one: "b \<notin># held - {#b#}" using once miss(2) by (auto simp: held_once_def not_in_iff)
    have "cache_inv s (held - {#b#})"
      by (rule inv_other_count [OF inv]) (use miss(2) inv in \<open>auto simp: cache_inv_def dest: in_diffD\<close>)
    then have "cache_inv ?s (held - {#b#})" by (simp add: cache_inv_cong [of ?s s])
    moreover have "held_once ?s (held - {#b#})" using once by (auto simp: held_once_def same le_diff_conv intro: le_SucI)
    moreover have "set_mset held \<subseteq> insert b (set_mset (held - {#b#}))"
      by (metis add_mset_remove_trivial_If order.refl set_mset_add_mset_insert subset_insertI)
    ultimately show ?thesis
      unfolding eq by (rule_tac step_okI [of _ _ _ "[b]"]) (use one miss(2) same in auto)
  qed
qed

text \<open>The ways a read can go, over the cache operations.\<close>

lemma hvfs_read_cases:
  assumes "hvfs_read fs m path nul s = ((r, b, n), s')"
  obtains "s' = s" "r \<noteq> 0"
  | "hvfs_cache_lookup m path s = ((True, b, n), s')" "r = 0"
  | c k s1 where "hvfs_cache_lookup m path s = ((False, c, k), s1)" "r \<noteq> 0" "s' = s1"
  | c k s1 where "hvfs_cache_lookup m path s = ((False, c, k), s1)" "r \<noteq> 0" "kmalloc_ptr fs \<noteq> 0"
      "s' = s1\<lparr>kfreed := kfreed s1 @ [kmalloc_ptr fs]\<rparr>"
  | c k s1 ok where "hvfs_cache_lookup m path s = ((False, c, k), s1)" "r = 0" "kmalloc_ptr fs \<noteq> 0"
      "b = kmalloc_ptr fs" "n = bytes_read fs" "hvfs_cache_store m path b n s1 = (ok, s')"
proof -
  obtain h c k s1 where l: "hvfs_cache_lookup m path s = ((h, c, k), s1)" by (metis prod.exhaust)
  show ?thesis
  proof (cases "\<not> mount_is_valid fs \<or> path = None \<or> path = Some [] \<or> nul \<or> stat_info fs = None \<or> snd (the (stat_info fs))")
    case True
    then show ?thesis using assms that(1) by (auto simp: hvfs_read_def split: if_splits option.splits)
  next
    case False
    then obtain sz where sz: "stat_info fs = Some (sz, False)" by (cases "stat_info fs") auto
    show ?thesis
    proof (cases h)
      case True
      then show ?thesis using assms that(2) False sz l by (auto simp: hvfs_read_def)
    next
      case miss: False
      note run = assms [unfolded hvfs_read_def] False sz l miss
      show ?thesis
      proof (cases "kmalloc_ptr fs = 0 \<or> read_result fs \<noteq> 0 \<or> bytes_read fs \<noteq> sz")
        case True
        then show ?thesis using run that(3,4) [of c k s1] by (auto split: if_splits)
      next
        case False
        then show ?thesis using run that(5) [of c k s1] by (auto split: prod.splits)
      qed
    qed
  qed
qed

lemma read_ok:
  assumes inv: "cache_inv s held" "held_once s held" and fresh: "kmalloc_ptr fs \<notin> cached s \<union> set_mset held"
    and sz: "size held < 2 ^ 32 - 1" and read: "hvfs_read fs m path nul s = ((r, b, n), s')"
  shows "step_ok s held s' (if r = 0 then add_mset b held else held)"
  using read
proof (cases rule: hvfs_read_cases)
  case 1
  then show ?thesis using step_ok_same [OF inv] by simp
next
  case 2
  then show ?thesis using lookup_hit_ok [OF inv sz] by simp
next
  case (3 c k s1)
  then show ?thesis using step_ok_same [OF inv, of s1] lookup_miss [of m path s c k s1] by simp
next
  case (4 c k s1)
  note same = lookup_miss [OF 4(1)]
  have g: "g_cache s' = g_cache s" using same 4(4) by simp
  note c = inv_cong [OF g inv]
  have "step_ok s held s' held"
    by (rule step_okI [OF c(2,3), of _ "[kmalloc_ptr fs]"]) (use c(1) 4(4) same fresh in auto)
  then show ?thesis using 4(2) by simp
next
  case (5 c k s1 ok)
  note same = lookup_miss [OF 5(1)]
  then have g: "g_cache s1 = g_cache s" by simp
  note c = inv_cong [OF g inv]
  have "step_ok s1 held s' (add_mset b held)"
    using store_ok [OF c(2,3) _ _ _ 5(6)] 5(3,4) fresh c(1) by simp
  then show ?thesis using 5(2) c(1) same by (simp add: step_ok_def)
qed

lemma hvfs_step_ok:
  assumes "cache_inv s held" "held_once s held" "hvfs_step s held s' held'"
  shows "step_ok s held s' held'"
  using assms(3)
proof cases
  case (read fs m path nul r b n)
  then show ?thesis using read_ok [OF assms(1,2)] by simp
next
  case (free b)
  then show ?thesis using free_ok [OF assms(1,2)] by simp
next
  case (mode md)
  then show ?thesis using step_ok_same [OF assms(1,2), of s'] by (simp add: hvfs_cache_set_mode_def)
qed

lemma hvfs_reach_inv: "hvfs_reach s held \<Longrightarrow> cache_inv s held \<and> held_once s held"
proof (induction rule: hvfs_reach.induct)
  case boot
  then show ?case by (simp add: cache_inv_def held_once_def hvfs_boot_def)
next
  case (step s held s' held')
  then show ?case using hvfs_step_ok [of s held s' held'] by (simp add: step_ok_def)
qed

text \<open>C4. After any sequence of reads, frees and mode changes, a further call releases each
  buffer at most once, releases no buffer that a client still holds or the cache still lists, and
  loses none: what was held or cached before is held, cached or released after. This holds as long as
  \<^verbatim>\<open>kmalloc\<close> returns no buffer in use and clients free what they hold.\<close>

theorem hvfs_buffers_safe:
  assumes "hvfs_reach s held" and "hvfs_step s held s' held'"
  shows "\<exists>fr. kfreed s' = kfreed s @ fr \<and> distinct fr \<and> set fr \<inter> (cached s' \<union> set_mset held') = {} \<and>
      cached s \<union> set_mset held \<subseteq> cached s' \<union> set_mset held' \<union> set fr"
  using hvfs_step_ok [OF _ _ assms(2)] hvfs_reach_inv [OF assms(1)] unfolding step_ok_def by blast

section \<open>When a file is stored\<close>

definition used_bytes :: "hvfs_state \<Rightarrow> nat" where
  "used_bytes s = sum_list (map (\<lambda>e. if e_in_use e then unat (e_size e) else 0) (g_cache s))"

definition pinned_entry :: "hvfs_cache_entry \<Rightarrow> bool" where
  "pinned_entry e = (e_in_use e \<and> e_refcnt e \<noteq> 0)"

definition pinned_bytes :: "hvfs_state \<Rightarrow> nat" where
  "pinned_bytes s = sum_list (map (\<lambda>e. if pinned_entry e then unat (e_size e) else 0) (g_cache s))"

definition use_counts_ok :: "hvfs_state \<Rightarrow> bool" where
  "use_counts_ok s = (\<forall>e\<in>set (g_cache s). e_last_use e < - 1)"

lemma unat_sum_list: "unat (sum_list (xs :: u64 list)) = sum_list (map unat xs) mod 2 ^ 64"
  by (induction xs) (simp_all add: unat_word_ariths mod_simps)

lemma bytes_used_unat:
  assumes "used_bytes s < 2 ^ 64"
  shows "unat (hvfs_cache_bytes_used s) = used_bytes s"
proof -
  have "unat (hvfs_cache_bytes_used s) = used_bytes s mod 2 ^ 64"
    unfolding hvfs_cache_bytes_used_def used_bytes_def unat_sum_list
    by (simp add: o_def if_distrib [of unat] cong: if_cong)
  then show ?thesis using assms by simp
qed

lemma zero_less_minus_one: "(0 :: u64) < - 1"
  by (simp add: word_gt_0)

lemma lru_scan_None:
  "lru_scan es i best b = None \<Longrightarrow> best = None \<and> (\<forall>e\<in>set es. e_in_use e \<longrightarrow> e_refcnt e = 0 \<longrightarrow> \<not> e_last_use e < b)"
proof (induction es i best b rule: lru_scan.induct)
  case (2 e es i best b)
  then show ?case by (cases "e_in_use e"; cases "e_refcnt e = 0"; cases "e_last_use e < b") simp_all
qed simp

lemma find_lru_NoneD:
  assumes "find_lru_evictable s = None" "use_counts_ok s" "e \<in> set (g_cache s)"
  shows "e_in_use e = pinned_entry e"
  using lru_scan_None [OF assms(1) [unfolded find_lru_evictable_def]] assms(2,3)
  by (auto simp: use_counts_ok_def pinned_entry_def)

lemma pinned_le_used: "pinned_bytes s \<le> used_bytes s"
  unfolding pinned_bytes_def used_bytes_def by (rule sum_list_mono) (auto simp: pinned_entry_def)

lemma evict_bytes:
  assumes "find_lru_evictable s = Some k"
  shows "pinned_bytes (evict_one k s) = pinned_bytes s" and "used_bytes (evict_one k s) \<le> used_bytes s"
    and "use_counts_ok s \<Longrightarrow> use_counts_ok (evict_one k s)"
    and "(\<exists>e\<in>set (g_cache (evict_one k s)). \<not> pinned_entry e)" "\<exists>e\<in>set (g_cache s). \<not> pinned_entry e"
    and "\<exists>e\<in>set (g_cache (evict_one k s)). \<not> e_in_use e"
    and "length (g_cache (evict_one k s)) = length (g_cache s)" "g_mode (evict_one k s) = g_mode s"
proof -
  have k: "k < length (g_cache s)" "e_in_use (g_cache s ! k)" "e_refcnt (g_cache s ! k) = 0"
    using find_lru_SomeD [OF assms] by auto
  have c: "g_cache (evict_one k s) = (g_cache s)[k := zero_entry]" using k by (simp add: evict_one_def Let_def)
  show "pinned_bytes (evict_one k s) = pinned_bytes s" "used_bytes (evict_one k s) \<le> used_bytes s"
    using k by (simp_all add: pinned_bytes_def used_bytes_def c map_update sum_list_update pinned_entry_def)
  show "use_counts_ok s \<Longrightarrow> use_counts_ok (evict_one k s)"
    unfolding use_counts_ok_def c
    by (metis insertE set_update_subset_insert subsetD zero_entry_simps(2) zero_less_minus_one)
  have "zero_entry \<in> set (g_cache (evict_one k s))" using k(1) c by (simp add: set_update_memI)
  then show "\<exists>e\<in>set (g_cache (evict_one k s)). \<not> e_in_use e" "\<exists>e\<in>set (g_cache (evict_one k s)). \<not> pinned_entry e"
    unfolding pinned_entry_def using zero_entry_simps(1) by blast+
  show "\<exists>e\<in>set (g_cache s). \<not> pinned_entry e" using k nth_mem [OF k(1)] by (auto simp: pinned_entry_def)
  show "length (g_cache (evict_one k s)) = length (g_cache s)" by (simp add: c)
  show "g_mode (evict_one k s) = g_mode s" by (simp add: evict_one_def Let_def)
qed

lemma make_room_spec:
  assumes "used_bytes s + unat sz < 2 ^ 64" "use_counts_ok s" "make_room cap sz s = (ok, s')"
  shows "(ok \<longleftrightarrow> pinned_bytes s + unat sz \<le> unat cap) \<and> (ok \<longrightarrow> used_bytes s' + unat sz \<le> unat cap) \<and>
    pinned_bytes s' = pinned_bytes s \<and> used_bytes s' \<le> used_bytes s \<and> use_counts_ok s' \<and>
    length (g_cache s') = length (g_cache s) \<and>
    ((\<exists>e\<in>set (g_cache s'). \<not> pinned_entry e) \<longleftrightarrow> (\<exists>e\<in>set (g_cache s). \<not> pinned_entry e))"
  using assms
proof (induction cap sz s rule: make_room.induct)
  case (1 cap sz s)
  have cmp: "hvfs_cache_bytes_used s + sz > cap \<longleftrightarrow> used_bytes s + unat sz > unat cap"
    using 1(2) bytes_used_unat [of s] by (simp add: word_less_nat_alt unat_word_ariths)
  show ?case
  proof (cases "used_bytes s + unat sz > unat cap")
    case False
    then have "ok" "s' = s" using 1(4) cmp by (auto simp: make_room.simps [of cap sz s])
    then show ?thesis using False 1(3) pinned_le_used [of s] by simp
  next
    case over: True
    show ?thesis
    proof (cases "find_lru_evictable s")
      case None
      then have r: "\<not> ok" "s' = s" using 1(4) over cmp by (auto simp: make_room.simps [of cap sz s])
      have "pinned_bytes s = used_bytes s"
        unfolding pinned_bytes_def used_bytes_def
        using find_lru_NoneD [OF None 1(3)] by (auto intro!: arg_cong [where f = sum_list] map_cong)
      then show ?thesis using r over 1(3) by simp
    next
      case (Some k)
      note ev = evict_bytes [OF Some]
      have run: "make_room cap sz (evict_one k s) = (ok, s')"
        using 1(4) over cmp Some by (simp add: make_room.simps [of cap sz s])
      show ?thesis
        using 1(1) [OF _ Some _ ev(3) [OF 1(3)] run] over cmp ev 1(2) by auto
    qed
  qed
qed

lemma find_free_slot_None:
  assumes "length (g_cache s) = 128"
  shows "find_free_slot s = None \<longleftrightarrow> (\<forall>e\<in>set (g_cache s). e_in_use e)"
  unfolding find_free_slot_def first_entry_def find_upt_None_iff all_set_conv_all_nth assms by auto

lemma free_slot_spec:
  assumes len: "length (g_cache s) = 128" and ok: "use_counts_ok s" and run: "free_slot_or_evict s = (j, s')"
  shows "(j \<noteq> None \<longleftrightarrow> (\<exists>e\<in>set (g_cache s). \<not> pinned_entry e)) \<and> used_bytes s' \<le> used_bytes s \<and>
    length (g_cache s') = 128 \<and> (\<forall>i. j = Some i \<longrightarrow> i < 128 \<and> \<not> e_in_use (g_cache s' ! i))"
proof (cases "find_free_slot s")
  case (Some i)
  then have "i < 128" "\<not> e_in_use (g_cache s ! i)" unfolding find_free_slot_def by (auto dest: first_entry_SomeD)
  moreover have "j = Some i" "s' = s" using run Some by (auto simp: free_slot_or_evict_def)
  ultimately show ?thesis using len nth_mem [of i "g_cache s"] by (auto simp: pinned_entry_def)
next
  case None
  then have used: "\<forall>e\<in>set (g_cache s). e_in_use e" using find_free_slot_None [OF len] by simp
  show ?thesis
  proof (cases "find_lru_evictable s")
    case none: None
    then have "\<forall>e\<in>set (g_cache s). pinned_entry e" using find_lru_NoneD [OF none ok] used by blast
    then show ?thesis using run None none len by (auto simp: free_slot_or_evict_def)
  next
    case (Some k)
    note ev = evict_bytes [OF Some]
    have run': "j = find_free_slot (evict_one k s)" "s' = evict_one k s"
      using run None Some by (auto simp: free_slot_or_evict_def Let_def)
    have "j \<noteq> None" using find_free_slot_None [of "evict_one k s"] ev(6,7) len run'(1) by metis
    moreover have "\<And>i. j = Some i \<Longrightarrow> i < 128 \<and> \<not> e_in_use (g_cache s' ! i)"
      using run' unfolding find_free_slot_def by (auto dest: first_entry_SomeD)
    ultimately show ?thesis using ev(2,5,7) len run'(2) by auto
  qed
qed

lemma used_bytes_insert:
  assumes "length (g_cache s) = 128" "i < 128" "\<not> e_in_use (g_cache s ! i)" "e_in_use e" "g_cache s' = (g_cache s)[i := e]"
  shows "used_bytes s' = used_bytes s + unat (e_size e)"
  using assms by (simp add: used_bytes_def map_update sum_list_update)

lemma unat_minus_one_64: "unat (- 1 :: u64) = 2 ^ 64 - 1"
  by (simp add: unat_eq_nat_uint uint_word_ariths)

lemma cap_unlimited: "cap_bytes md = - 1 \<longleftrightarrow> md = HVFS_CACHE_UNLIMITED"
  by (cases md) simp_all

text \<open>C23. With a cap, a file is stored exactly when the referenced files and it fit under
  the cap together and some entry is free or unreferenced; without one, when some entry is free or
  unreferenced. A file stored under a cap leaves the cache within the cap. Hypotheses: the 128
  entries, sizes whose sum does not wrap, and use counters that have not reached their last value.\<close>

theorem hvfs_store_succeeds_iff:
  assumes len: "length (g_cache s) = 128" and nowrap: "used_bytes s + unat sz < 2 ^ 64" and uc: "use_counts_ok s"
    and args: "path \<noteq> []" "buf \<noteq> 0" and run: "hvfs_cache_store slot (Some path) buf sz s = (ok, s')"
  shows "(ok \<longleftrightarrow> (g_mode s = HVFS_CACHE_UNLIMITED \<or> pinned_bytes s + unat sz \<le> unat (cap_bytes (g_mode s))) \<and>
      (\<exists>e\<in>set (g_cache s). \<not> pinned_entry e)) \<and> (ok \<longrightarrow> used_bytes s' \<le> unat (cap_bytes (g_mode s)))"
proof -
  let ?cap = "cap_bytes (g_mode s)"
  obtain r s1 where r: "(if ?cap \<noteq> - 1 then make_room ?cap sz s else (True, s)) = (r, s1)" by fastforce
  obtain j s2 where j: "free_slot_or_evict s1 = (j, s2)" by fastforce
  have room: "(r \<longleftrightarrow> ?cap = - 1 \<or> pinned_bytes s + unat sz \<le> unat ?cap) \<and>
      (r \<longrightarrow> used_bytes s1 + unat sz \<le> unat ?cap) \<and> use_counts_ok s1 \<and> length (g_cache s1) = 128 \<and>
      ((\<exists>e\<in>set (g_cache s1). \<not> pinned_entry e) \<longleftrightarrow> (\<exists>e\<in>set (g_cache s). \<not> pinned_entry e))"
  proof (cases "?cap = - 1")
    case True
    then show ?thesis using r uc len nowrap by (simp add: unat_minus_one_64)
  next
    case False
    then have "make_room ?cap sz s = (r, s1)" using r by simp
    from make_room_spec [OF nowrap uc this] show ?thesis using False len by auto
  qed
  note slot = free_slot_spec [OF _ _ j]
  have big: "?cap \<noteq> - 1 \<and> sz > ?cap \<Longrightarrow> \<not> (?cap = - 1 \<or> pinned_bytes s + unat sz \<le> unat ?cap)"
    by (auto simp: word_less_nat_alt)
  have res: "hvfs_cache_store slot (Some path) buf sz s =
     (if ?cap \<noteq> - 1 \<and> sz > ?cap then (False, s) else if \<not> r then (False, s1)
      else case j of None \<Rightarrow> (False, s2) | Some i \<Rightarrow>
        (True, s2\<lparr>g_cache := (g_cache s2)[i := \<lparr>e_in_use = True, e_mount_slot = slot, e_path = take 255 path,
                    e_buf = buf, e_size = sz, e_refcnt = 1, e_last_use = g_use_counter s2\<rparr>],
               g_use_counter := g_use_counter s2 + 1\<rparr>))"
    unfolding hvfs_cache_store_def Let_def r using args by (auto simp: j split: option.splits)
  have ok: "ok \<longleftrightarrow> r \<and> j \<noteq> None" using res run big room by (auto split: if_splits option.splits)
  then have "ok \<longleftrightarrow> (g_mode s = HVFS_CACHE_UNLIMITED \<or> pinned_bytes s + unat sz \<le> unat ?cap) \<and>
      (\<exists>e\<in>set (g_cache s). \<not> pinned_entry e)"
    using room slot by (simp add: cap_unlimited)
  moreover have "used_bytes s' \<le> unat ?cap" if stored: ok
  proof -
    obtain i where i: "r" "j = Some i" using ok stored by auto
    have s2: "used_bytes s2 \<le> used_bytes s1" "length (g_cache s2) = 128" "i < 128" "\<not> e_in_use (g_cache s2 ! i)"
      using slot room i(2) by auto
    have "g_cache s' = (g_cache s2)[i := \<lparr>e_in_use = True, e_mount_slot = slot, e_path = take 255 path,
        e_buf = buf, e_size = sz, e_refcnt = 1, e_last_use = g_use_counter s2\<rparr>]"
      using res run i stored by (auto split: if_splits)
    from used_bytes_insert [OF s2(2-4) _ this] show ?thesis using s2(1) room i(1) by simp
  qed
  ultimately show ?thesis by blast
qed

section \<open>Reading a file again\<close>

lemma strcmp_refl: "strcmp p p = 0"
  by (induction p) simp_all

lemma evicts_entries:
  "evicts s fr s' \<Longrightarrow> i < length (g_cache s) \<Longrightarrow> g_cache s' ! i = g_cache s ! i \<or> g_cache s' ! i = zero_entry"
proof (induction arbitrary: i rule: evicts.induct)
  case (step s k fr s')
  note ev = evict_one_cache [OF step.hyps(1,2)]
  show ?case using step.IH [of i] step.prems by (cases "i = k") (auto simp: ev)
qed simp

lemma first_entryI: "i < 128 \<Longrightarrow> P (g_cache s ! i) \<Longrightarrow> (\<And>j. j < i \<Longrightarrow> \<not> P (g_cache s ! j)) \<Longrightarrow> first_entry P s = Some i"
  unfolding first_entry_def find_upt_Some_iff by auto

lemma lookup_entry:
  assumes "path \<noteq> []" "first_entry (cache_match m path) s = Some i"
  shows "fst (hvfs_cache_lookup m (Some path) s) = (True, e_buf (g_cache s ! i), e_size (g_cache s ! i))"
  using assms by (simp add: hvfs_cache_lookup_def Let_def)

lemma store_then_first:
  assumes inv: "cache_inv s held" and store: "hvfs_cache_store m (Some path) b n s = (True, s')"
    and miss: "\<And>i. i < 128 \<Longrightarrow> \<not> cache_match m (take 255 path) (g_cache s ! i)"
  obtains i where "first_entry (cache_match m (take 255 path)) s' = Some i"
    "e_buf (g_cache s' ! i) = b" "e_size (g_cache s' ! i) = n"
  using inv store
proof (cases rule: store_cases)
  case (2 fr s2 i)
  have len: "length (g_cache s) = 128" "length (g_cache s2) = 128"
    using inv evicts_inv [OF 2(1) inv] by (auto simp: cache_inv_def)
  have no: "\<not> cache_match m (take 255 path) (g_cache s2 ! j)" if "j < 128" for j
    using evicts_entries [OF 2(1), of j] miss [OF that] that len by (auto simp: cache_match_def)
  have e: "g_cache s' ! i = \<lparr>e_in_use = True, e_mount_slot = m, e_path = take 255 path, e_buf = b, e_size = n,
      e_refcnt = 1, e_last_use = g_use_counter s2\<rparr>" using 2 len by simp
  have "\<not> cache_match m (take 255 path) (g_cache s' ! j)" if "j < i" for j
    using no [of j] that 2 by simp
  with e 2(4) have "first_entry (cache_match m (take 255 path)) s' = Some i"
    by (intro first_entryI) (auto simp: cache_match_def strcmp_refl)
  then show ?thesis using that e by simp
qed simp


lemma cached_read_again:
  assumes read: "hvfs_read fs m (Some path) nul s = ((0, b, n), s1)" and short: "length path \<le> 255"
    and inv: "cache_inv s held" and fresh: "kmalloc_ptr fs \<notin> cached s" and cached: "b \<in> cached s1"
  shows "fst (hvfs_cache_lookup m (Some path) s1) = (True, b, n)"
  using read
proof (cases rule: hvfs_read_cases)
  case 2
  obtain i where ne: "path \<noteq> []" and i: "first_entry (cache_match m path) s = Some i"
    and s1: "s1 = s\<lparr>g_cache := (g_cache s)[i := (g_cache s ! i)\<lparr>e_refcnt := e_refcnt (g_cache s ! i) + 1,
      e_last_use := g_use_counter s\<rparr>], g_use_counter := g_use_counter s + 1, g_hits := g_hits s + 1\<rparr>"
    and bn: "b = e_buf (g_cache s ! i)" "n = e_size (g_cache s ! i)"
    using 2 by (auto simp: hvfs_cache_lookup_def Let_def split: if_splits option.splits)
  note f = first_entry_SomeD [OF i]
  have "length (g_cache s) = 128" using inv by (simp add: cache_inv_def)
  then have "first_entry (cache_match m path) s1 = Some i"
    using f s1 by (intro first_entryI) (auto simp: cache_match_def)
  from lookup_entry [OF ne this] show ?thesis using s1 bn f \<open>length _ = _\<close> by simp
next
  case (5 c k s0 ok)
  note same = lookup_miss [OF 5(1)]
  have ne: "path \<noteq> []" using read by (auto simp: hvfs_read_def split: if_splits)
  have inv0: "cache_inv s0 held" using inv same cache_inv_cong [of s0 s] by blast
  have ok: "ok"
  proof (rule ccontr)
    assume "\<not> ok"
    from inv0 5(6) show False
    proof (cases rule: store_cases)
      case (1 fr)
      then have "b \<in> cached s0" using evicts_inv [OF 1(1) inv0] cached by auto
      then show False using fresh 5(4) cached_cong [of s0 s] same by simp
    qed (use \<open>\<not> ok\<close> in simp)
  qed
  have "first_entry (cache_match m path) s = None"
    using 5(1) ne by (auto simp: hvfs_cache_lookup_def Let_def split: option.splits)
  then have "\<And>i. i < 128 \<Longrightarrow> \<not> cache_match m (take 255 path) (g_cache s0 ! i)"
    using same short by (auto dest: first_entry_NoneD)
  with 5(6) ok obtain i where "first_entry (cache_match m path) s1 = Some i" "e_buf (g_cache s1 ! i) = b" "e_size (g_cache s1 ! i) = n"
    using short by (auto elim: store_then_first [OF inv0])
  then show ?thesis using lookup_entry [OF ne] by simp
qed simp_all

text \<open>C37. Once a read has put a file (path of at most 255 characters) into the cache, the next
  read of that path returns the same buffer and size, whatever size the file has then: only the
  existence of the file is checked again, a changed file is not read anew.\<close>

theorem hvfs_read_again:
  assumes "hvfs_reach s held" and "hvfs_read fs m (Some path) False s = ((0, b, n), s1)"
    and "length path \<le> 255" and "kmalloc_ptr fs \<notin> cached s" and "b \<in> cached s1"
    and "mount_is_valid fs'" and "stat_info fs' = Some (new_size, False)"
  shows "fst (hvfs_read fs' m (Some path) False s1) = (0, b, n)"
proof -
  have "cache_inv s held" using hvfs_reach_inv [OF assms(1)] by simp
  from cached_read_again [OF assms(2,3) this assms(4,5)]
  obtain s2 where "hvfs_cache_lookup m (Some path) s1 = ((True, b, n), s2)" by (metis prod.collapse)
  moreover have "path \<noteq> []" using assms(2) by (auto simp: hvfs_read_def split: if_splits)
  ultimately show ?thesis using assms(6,7) by (simp add: hvfs_read_def)
qed

section \<open>Witnesses\<close>

text \<open>The first read after boot: the file \<^verbatim>\<open>/a\<close> of five bytes, in a buffer at address 4096.\<close>

definition read_a :: fs_answers where
  "read_a = \<lparr>mount_is_valid = True, stat_info = Some (5, False), kmalloc_ptr = 4096, read_result = 0, bytes_read = 5\<rparr>"

definition after_a :: "int \<Rightarrow> cstr \<Rightarrow> hvfs_state" where
  "after_a m path = hvfs_boot\<lparr>g_cache := (g_cache hvfs_boot)[0 := \<lparr>e_in_use = True, e_mount_slot = m, e_path = take 255 path,
     e_buf = 4096, e_size = 5, e_refcnt = 1, e_last_use = 1\<rparr>], g_use_counter := 2\<rparr>"

lemma boot_nth: "i < 128 \<Longrightarrow> g_cache hvfs_boot ! i = zero_entry"
  by (simp add: hvfs_boot_def)

lemma boot_first_None: "\<not> P zero_entry \<Longrightarrow> first_entry P hvfs_boot = None"
  unfolding first_entry_def find_upt_None_iff by (simp add: boot_nth)

lemma boot_free_slot: "find_free_slot (hvfs_boot\<lparr>g_misses := k\<rparr>) = Some 0"
  unfolding find_free_slot_def by (rule first_entryI) (simp_all add: boot_nth)

lemma boot_bytes: "hvfs_cache_bytes_used (hvfs_boot\<lparr>g_misses := k\<rparr>) = 0"
  by (simp add: hvfs_cache_bytes_used_def hvfs_boot_def map_replicate sum_list_replicate)

lemma boot_store:
  assumes "path \<noteq> []"
  shows "hvfs_cache_store m (Some path) 4096 5 (hvfs_boot\<lparr>g_misses := k\<rparr>) = (True, (after_a m path)\<lparr>g_misses := k\<rparr>)"
proof -
  have room: "make_room 134217728 5 (hvfs_boot\<lparr>g_misses := k\<rparr>) = (True, hvfs_boot\<lparr>g_misses := k\<rparr>)"
    by (simp add: make_room.simps boot_bytes)
  have "g_mode hvfs_boot = HVFS_CACHE_128M" "g_use_counter hvfs_boot = 1" by (simp_all add: hvfs_boot_def)
  then show ?thesis
    using assms room boot_free_slot [of k]
    by (simp add: hvfs_cache_store_def free_slot_or_evict_def after_a_def)
qed

lemma boot_read: "hvfs_read read_a m (Some ''/a'') False hvfs_boot = ((0, 4096, 5), (after_a m ''/a'')\<lparr>g_misses := 1\<rparr>)"
proof -
  have "g_misses hvfs_boot = 0" by (simp add: hvfs_boot_def)
  then have "hvfs_cache_lookup m (Some ''/a'') hvfs_boot = ((False, 0, 0), hvfs_boot\<lparr>g_misses := 1\<rparr>)"
    using boot_first_None [of "cache_match m ''/a''"] by (simp add: hvfs_cache_lookup_def cache_match_def)
  then show ?thesis using boot_store [of "''/a''" m 1] by (simp add: hvfs_read_def read_a_def)
qed

lemma boot_cached: "cached hvfs_boot = {}"
  by (simp add: cached_def hvfs_boot_def)

lemma after_a_cached: "4096 \<in> cached ((after_a m path)\<lparr>g_misses := k\<rparr>)"
  by (subst cached_iff) (auto simp: after_a_def hvfs_boot_def intro!: exI [of _ 0])

theorem hvfs_buffers_safe_witness:
  "fst (hvfs_read read_a 0 (Some ''/a'') False hvfs_boot) = (0, 4096, 5) \<and>
   (\<exists>fr. kfreed (snd (hvfs_read read_a 0 (Some ''/a'') False hvfs_boot)) = kfreed hvfs_boot @ fr \<and> distinct fr \<and>
      set fr \<inter> (cached (snd (hvfs_read read_a 0 (Some ''/a'') False hvfs_boot)) \<union> {4096}) = {})"
proof -
  have "hvfs_step hvfs_boot {#} ((after_a 0 ''/a'')\<lparr>g_misses := 1\<rparr>) (add_mset 4096 {#})"
    using hvfs_step.read [OF boot_read [of 0], of "{#}"] by (simp add: boot_cached read_a_def)
  from hvfs_buffers_safe [OF hvfs_reach.boot this] show ?thesis unfolding boot_read by auto
qed

theorem hvfs_store_succeeds_iff_witness:
  "fst (hvfs_cache_store 0 (Some ''/a'') 4096 5 (hvfs_boot\<lparr>g_misses := 0\<rparr>)) \<and>
   used_bytes ((after_a 0 ''/a'')\<lparr>g_misses := 0\<rparr>) \<le> 134217728"
proof -
  have "length (g_cache hvfs_boot) = 128" "used_bytes (hvfs_boot\<lparr>g_misses := 0\<rparr>) = 0" "use_counts_ok (hvfs_boot\<lparr>g_misses := 0\<rparr>)"
    "g_mode hvfs_boot = HVFS_CACHE_128M"
    using zero_less_minus_one
    by (simp_all add: hvfs_boot_def used_bytes_def use_counts_ok_def map_replicate sum_list_replicate)
  then show ?thesis
    using hvfs_store_succeeds_iff [OF _ _ _ _ _ boot_store [of "''/a''" 0 0]] boot_store [of "''/a''" 0 0] by simp
qed


theorem hvfs_read_again_witness:
  "fst (hvfs_read (read_a\<lparr>stat_info := Some (7000, False)\<rparr>) 0 (Some ''/a'') False
     (snd (hvfs_read read_a 0 (Some ''/a'') False hvfs_boot))) = (0, 4096, 5)"
  unfolding boot_read snd_conv
  by (rule hvfs_read_again [OF hvfs_reach.boot boot_read])
    (simp_all add: boot_cached after_a_cached, simp_all add: read_a_def)

end
