(* ===== verification/Emu6502.thy ===== *)
theory Emu6502
  imports Prelude "HOL-Library.State_Monad"
begin

unbundle bit_operations_syntax

text \<open>
  The 6502 processor core of \<^verbatim>\<open>userland/emu6502.c\<close>. The registers are a record of words of their C
  width; the memory bus is the pair of callbacks the core is initialised with, a parameter of every
  operation. A callback receives the user object and may change it; it may also look at the registers,
  since the processor is a member of the object that the machine passes as \<^verbatim>\<open>user\<close>. The C functions
  thread the processor through every call, so they are written in the state monad. The \<^verbatim>\<open>switch\<close> of
  \<^verbatim>\<open>emu6502_step\<close> is a table from opcodes to actions, in one list for each group of cases of the source;
  an action returns the cycle count. Where C leaves the order of two reads open
  (\<^verbatim>\<open>r8(..) | r8(..) << 8\<close>), the left one comes first.
\<close>

section \<open>State\<close>

record regs =
  r_pc :: u16
  r_a :: u8
  r_x :: u8
  r_y :: u8
  r_sp :: u8
  r_p :: u8
  r_cycles :: u64

record 'b bus =
  read8 :: "regs \<Rightarrow> 'b \<Rightarrow> u16 \<Rightarrow> u8 \<times> 'b"
  write8 :: "regs \<Rightarrow> 'b \<Rightarrow> u16 \<Rightarrow> u8 \<Rightarrow> 'b"

record 'b emu6502 =
  cpu :: regs
  bus_user :: 'b

type_synonym ('b, 'a) cpu = "('b emu6502, 'a) state"

abbreviation return :: "'a \<Rightarrow> ('b, 'a) cpu" where "return \<equiv> State_Monad.return"

abbreviation F_C :: u8 where "F_C \<equiv> 0x01"
abbreviation F_Z :: u8 where "F_Z \<equiv> 0x02"
abbreviation F_I :: u8 where "F_I \<equiv> 0x04"
abbreviation F_D :: u8 where "F_D \<equiv> 0x08"
abbreviation F_B :: u8 where "F_B \<equiv> 0x10"
abbreviation F_U :: u8 where "F_U \<equiv> 0x20"
abbreviation F_V :: u8 where "F_V \<equiv> 0x40"
abbreviation F_N :: u8 where "F_N \<equiv> 0x80"

text \<open>Reading a register, changing the registers, and \<^verbatim>\<open>if (b) p |= m; else p &= ~m;\<close>.\<close>

definition reg :: "(regs \<Rightarrow> 'v) \<Rightarrow> ('b, 'v) cpu" where
  "reg f = State (\<lambda>s. (f (cpu s), s))"

definition upd :: "(regs \<Rightarrow> regs) \<Rightarrow> ('b, unit) cpu" where
  "upd f = State (\<lambda>s. ((), s\<lparr>cpu := f (cpu s)\<rparr>))"

definition flag :: "u8 \<Rightarrow> bool \<Rightarrow> u8 \<Rightarrow> u8" where
  "flag m b p = (if b then p OR m else p AND NOT m)"

definition set_flag :: "u8 \<Rightarrow> bool \<Rightarrow> ('b, unit) cpu" where
  "set_flag m b = upd (\<lambda>c. c\<lparr>r_p := flag m b (r_p c)\<rparr>)"

definition flag_set :: "u8 \<Rightarrow> regs \<Rightarrow> bool" where
  "flag_set m c = (r_p c AND m \<noteq> 0)"

section \<open>Bus and stack\<close>

definition set_zn :: "u8 \<Rightarrow> ('b, unit) cpu" where
  "set_zn v = do {
     set_flag F_Z (v = 0);
     set_flag F_N (v AND 0x80 \<noteq> 0)
   }"

definition r8 :: "'b bus \<Rightarrow> u16 \<Rightarrow> ('b, u8) cpu" where
  "r8 B a = State (\<lambda>s. let (v, u) = read8 B (cpu s) (bus_user s) a in (v, s\<lparr>bus_user := u\<rparr>))"

definition w8 :: "'b bus \<Rightarrow> u16 \<Rightarrow> u8 \<Rightarrow> ('b, unit) cpu" where
  "w8 B a v = State (\<lambda>s. ((), s\<lparr>bus_user := write8 B (cpu s) (bus_user s) a v\<rparr>))"

definition stack_addr :: "u8 \<Rightarrow> u16" where
  "stack_addr sp = 0x0100 OR ucast sp"

definition push8 :: "'b bus \<Rightarrow> u8 \<Rightarrow> ('b, unit) cpu" where
  "push8 B v = do {
     sp \<leftarrow> reg r_sp;
     w8 B (stack_addr sp) v;
     upd (\<lambda>c. c\<lparr>r_sp := r_sp c - 1\<rparr>)
   }"

definition pop8 :: "'b bus \<Rightarrow> ('b, u8) cpu" where
  "pop8 B = do {
     upd (\<lambda>c. c\<lparr>r_sp := r_sp c + 1\<rparr>);
     sp \<leftarrow> reg r_sp;
     r8 B (stack_addr sp)
   }"

definition word16 :: "u8 \<Rightarrow> u8 \<Rightarrow> u16" where
  "word16 lo hi = ucast lo OR push_bit 8 (ucast hi)"

definition r16 :: "'b bus \<Rightarrow> u16 \<Rightarrow> ('b, u16) cpu" where
  "r16 B a = do {
     lo \<leftarrow> r8 B a;
     hi \<leftarrow> r8 B (a + 1);
     return (word16 lo hi)
   }"

definition r16_wrap :: "'b bus \<Rightarrow> u16 \<Rightarrow> ('b, u16) cpu" where
  "r16_wrap B a = do {
     lo \<leftarrow> r8 B a;
     hi \<leftarrow> r8 B ((a AND 0xFF00) OR ((a + 1) AND 0x00FF));
     return (word16 lo hi)
   }"

definition emu6502_init :: "'b \<Rightarrow> 'b emu6502" where
  "emu6502_init user = \<lparr>cpu = \<lparr>r_pc = 0, r_a = 0, r_x = 0, r_y = 0, r_sp = 0xFD, r_p = F_U OR F_I, r_cycles = 0\<rparr>,
     bus_user = user\<rparr>"

definition emu6502_reset :: "'b bus \<Rightarrow> ('b, unit) cpu" where
  "emu6502_reset B = do {
     upd (\<lambda>c. c\<lparr>r_p := F_U OR F_I\<rparr>);
     upd (\<lambda>c. c\<lparr>r_sp := 0xFD\<rparr>);
     pc \<leftarrow> r16 B 0xFFFC;
     upd (\<lambda>c. c\<lparr>r_pc := pc\<rparr>)
   }"

section \<open>Addressing modes\<close>

definition imm :: "('b, u16) cpu" where
  "imm = do {
     pc \<leftarrow> reg r_pc;
     upd (\<lambda>c. c\<lparr>r_pc := r_pc c + 1\<rparr>);
     return pc
   }"

definition fetch8 :: "'b bus \<Rightarrow> ('b, u8) cpu" where
  "fetch8 B = do { pc \<leftarrow> imm; r8 B pc }"

definition zp :: "'b bus \<Rightarrow> ('b, u16) cpu" where
  "zp B = do { v \<leftarrow> fetch8 B; return (ucast v) }"

definition zpx :: "'b bus \<Rightarrow> ('b, u16) cpu" where
  "zpx B = do { v \<leftarrow> fetch8 B; x \<leftarrow> reg r_x; return ((ucast v + ucast x) AND 0xFF) }"

definition zpy :: "'b bus \<Rightarrow> ('b, u16) cpu" where
  "zpy B = do { v \<leftarrow> fetch8 B; y \<leftarrow> reg r_y; return ((ucast v + ucast y) AND 0xFF) }"

definition abs16 :: "'b bus \<Rightarrow> ('b, u16) cpu" where
  "abs16 B = do {
     pc \<leftarrow> reg r_pc;
     a \<leftarrow> r16 B pc;
     upd (\<lambda>c. c\<lparr>r_pc := r_pc c + 2\<rparr>);
     return a
   }"

definition absx :: "'b bus \<Rightarrow> ('b, u16) cpu" where
  "absx B = do { a \<leftarrow> abs16 B; x \<leftarrow> reg r_x; return (a + ucast x) }"

definition absy :: "'b bus \<Rightarrow> ('b, u16) cpu" where
  "absy B = do { a \<leftarrow> abs16 B; y \<leftarrow> reg r_y; return (a + ucast y) }"

definition ind :: "'b bus \<Rightarrow> ('b, u16) cpu" where
  "ind B = do { a \<leftarrow> abs16 B; r16_wrap B a }"

definition indx :: "'b bus \<Rightarrow> ('b, u16) cpu" where
  "indx B = do {
     v \<leftarrow> fetch8 B;
     x \<leftarrow> reg r_x;
     lo \<leftarrow> r8 B (ucast (v + x));
     hi \<leftarrow> r8 B (ucast (v + x + 1));
     return (word16 lo hi)
   }"

definition indy :: "'b bus \<Rightarrow> ('b, u16) cpu" where
  "indy B = do {
     v \<leftarrow> fetch8 B;
     lo \<leftarrow> r8 B (ucast v);
     hi \<leftarrow> r8 B (ucast (v + 1));
     y \<leftarrow> reg r_y;
     return (word16 lo hi + ucast y)
   }"

definition rel8 :: "'b bus \<Rightarrow> ('b, u8) cpu" where
  "rel8 B = fetch8 B"

section \<open>Arithmetic\<close>

definition adc_bin :: "u8 \<Rightarrow> ('b, unit) cpu" where
  "adc_bin v = do {
     c \<leftarrow> reg id;
     let sum = (ucast (r_a c) + ucast v + (if flag_set F_C c then 1 else 0) :: u16);
     let res = (ucast sum :: u8);
     set_flag F_C (sum > 0xFF);
     set_flag F_V ((r_a c XOR res) AND (v XOR res) AND 0x80 \<noteq> 0);
     upd (\<lambda>c. c\<lparr>r_a := res\<rparr>);
     set_zn res
   }"

definition sbc_bin :: "u8 \<Rightarrow> ('b, unit) cpu" where
  "sbc_bin v = adc_bin (NOT v)"

definition asl8 :: "u8 \<Rightarrow> ('b, u8) cpu" where
  "asl8 v = do {
     set_flag F_C (v AND 0x80 \<noteq> 0);
     let v = push_bit 1 v;
     set_zn v;
     return v
   }"

definition lsr8 :: "u8 \<Rightarrow> ('b, u8) cpu" where
  "lsr8 v = do {
     set_flag F_C (v AND 0x01 \<noteq> 0);
     let v = drop_bit 1 v;
     set_zn v;
     return v
   }"

definition rol8 :: "u8 \<Rightarrow> ('b, u8) cpu" where
  "rol8 v = do {
     c \<leftarrow> reg id;
     let carry = (if flag_set F_C c then 1 else 0);
     set_flag F_C (v AND 0x80 \<noteq> 0);
     let v = push_bit 1 v OR carry;
     set_zn v;
     return v
   }"

definition ror8 :: "u8 \<Rightarrow> ('b, u8) cpu" where
  "ror8 v = do {
     c \<leftarrow> reg id;
     let carry = (if flag_set F_C c then 0x80 else 0);
     set_flag F_C (v AND 0x01 \<noteq> 0);
     let v = drop_bit 1 v OR carry;
     set_zn v;
     return v
   }"

definition base_cycles :: "u8 \<Rightarrow> u32" where
  "base_cycles op =
    (if op = 0x00 then 7 else if op = 0x20 then 6 else if op = 0x60 then 6 else if op = 0x40 then 6
     else if op = 0x4C then 3 else if op = 0x6C then 5 else 2)"

section \<open>Instructions\<close>

text \<open>The actions that a group of cases of the \<^verbatim>\<open>switch\<close> repeats, over the addressing mode and the
  cycle count.\<close>

definition load_a :: "'b bus \<Rightarrow> ('b, u16) cpu \<Rightarrow> u32 \<Rightarrow> ('b, u32) cpu" where
  "load_a B mode cyc = do { a \<leftarrow> mode; v \<leftarrow> r8 B a; upd (\<lambda>c. c\<lparr>r_a := v\<rparr>); set_zn v; return cyc }"

definition load_x :: "'b bus \<Rightarrow> ('b, u16) cpu \<Rightarrow> u32 \<Rightarrow> ('b, u32) cpu" where
  "load_x B mode cyc = do { a \<leftarrow> mode; v \<leftarrow> r8 B a; upd (\<lambda>c. c\<lparr>r_x := v\<rparr>); set_zn v; return cyc }"

definition load_y :: "'b bus \<Rightarrow> ('b, u16) cpu \<Rightarrow> u32 \<Rightarrow> ('b, u32) cpu" where
  "load_y B mode cyc = do { a \<leftarrow> mode; v \<leftarrow> r8 B a; upd (\<lambda>c. c\<lparr>r_y := v\<rparr>); set_zn v; return cyc }"

definition store_reg :: "'b bus \<Rightarrow> ('b, u16) cpu \<Rightarrow> (regs \<Rightarrow> u8) \<Rightarrow> u32 \<Rightarrow> ('b, u32) cpu" where
  "store_reg B mode r cyc = do { a \<leftarrow> mode; v \<leftarrow> reg r; w8 B a v; return cyc }"

definition transfer :: "(regs \<Rightarrow> u8) \<Rightarrow> (u8 \<Rightarrow> regs \<Rightarrow> regs) \<Rightarrow> bool \<Rightarrow> u32 \<Rightarrow> ('b, u32) cpu" where
  "transfer src dst zn cyc = do {
     v \<leftarrow> reg src;
     upd (dst v);
     (if zn then set_zn v else return ());
     return cyc
   }"

definition alu_bin :: "'b bus \<Rightarrow> (u8 \<Rightarrow> ('b, unit) cpu) \<Rightarrow> ('b, u16) cpu \<Rightarrow> u32 \<Rightarrow> ('b, u32) cpu" where
  "alu_bin B f mode cyc = do { a \<leftarrow> mode; v \<leftarrow> r8 B a; f v; return cyc }"

definition alu_logic :: "'b bus \<Rightarrow> (u8 \<Rightarrow> u8 \<Rightarrow> u8) \<Rightarrow> ('b, u16) cpu \<Rightarrow> u32 \<Rightarrow> ('b, u32) cpu" where
  "alu_logic B f mode cyc = do {
     a \<leftarrow> mode;
     v \<leftarrow> r8 B a;
     upd (\<lambda>c. c\<lparr>r_a := f (r_a c) v\<rparr>);
     r \<leftarrow> reg r_a;
     set_zn r;
     return cyc
   }"

definition branch :: "'b bus \<Rightarrow> u8 \<Rightarrow> bool \<Rightarrow> u32 \<Rightarrow> ('b, u32) cpu" where
  "branch B m taken_if cyc = do {
     d \<leftarrow> rel8 B;
     c \<leftarrow> reg id;
     (if flag_set m c = taken_if then upd (\<lambda>c. c\<lparr>r_pc := r_pc c + scast d\<rparr>) else return ());
     return cyc
   }"

definition shift_acc :: "(u8 \<Rightarrow> ('b, u8) cpu) \<Rightarrow> u32 \<Rightarrow> ('b, u32) cpu" where
  "shift_acc f cyc = do { a \<leftarrow> reg r_a; v \<leftarrow> f a; upd (\<lambda>c. c\<lparr>r_a := v\<rparr>); return cyc }"

definition compare_reg :: "'b bus \<Rightarrow> (regs \<Rightarrow> u8) \<Rightarrow> ('b, u16) cpu \<Rightarrow> u32 \<Rightarrow> ('b, u32) cpu" where
  "compare_reg B r mode cyc = do {
     a \<leftarrow> mode;
     v \<leftarrow> r8 B a;
     w \<leftarrow> reg r;
     let t = (ucast w - ucast v :: u16);
     set_flag F_C (w \<ge> v);
     set_zn (ucast t);
     return cyc
   }"

definition bit_test :: "'b bus \<Rightarrow> ('b, u16) cpu \<Rightarrow> u32 \<Rightarrow> ('b, u32) cpu" where
  "bit_test B mode cyc = do {
     a \<leftarrow> mode;
     v \<leftarrow> r8 B a;
     set_flag F_N (v AND 0x80 \<noteq> 0);
     set_flag F_V (v AND 0x40 \<noteq> 0);
     w \<leftarrow> reg r_a;
     set_flag F_Z (v AND w = 0);
     return cyc
   }"

definition inc_mem :: "'b bus \<Rightarrow> (u8 \<Rightarrow> u8) \<Rightarrow> ('b, u16) cpu \<Rightarrow> u32 \<Rightarrow> ('b, u32) cpu" where
  "inc_mem B f mode cyc = do { a \<leftarrow> mode; v \<leftarrow> r8 B a; w8 B a (f v); set_zn (f v); return cyc }"

definition shift_mem :: "'b bus \<Rightarrow> (u8 \<Rightarrow> ('b, u8) cpu) \<Rightarrow> ('b, u16) cpu \<Rightarrow> u32 \<Rightarrow> ('b, u32) cpu" where
  "shift_mem B f mode cyc = do { a \<leftarrow> mode; v \<leftarrow> r8 B a; w \<leftarrow> f v; w8 B a w; return cyc }"

text \<open>The single cases: jumps and calls, the stack, interrupts.\<close>

definition jmp_abs :: "'b bus \<Rightarrow> ('b, u32) cpu" where
  "jmp_abs B = do { a \<leftarrow> abs16 B; upd (\<lambda>c. c\<lparr>r_pc := a\<rparr>); return 3 }"

definition jmp_ind :: "'b bus \<Rightarrow> ('b, u32) cpu" where
  "jmp_ind B = do { a \<leftarrow> ind B; upd (\<lambda>c. c\<lparr>r_pc := a\<rparr>); return 5 }"

definition jsr :: "'b bus \<Rightarrow> ('b, u32) cpu" where
  "jsr B = do {
     target \<leftarrow> abs16 B;
     pc \<leftarrow> reg r_pc;
     let ret = pc - 1;
     push8 B (ucast (drop_bit 8 ret));
     push8 B (ucast (ret AND 0xFF));
     upd (\<lambda>c. c\<lparr>r_pc := target\<rparr>);
     return 6
   }"

definition rts :: "'b bus \<Rightarrow> ('b, u32) cpu" where
  "rts B = do {
     lo \<leftarrow> pop8 B;
     hi \<leftarrow> pop8 B;
     upd (\<lambda>c. c\<lparr>r_pc := push_bit 8 (ucast hi) OR ucast lo\<rparr>);
     upd (\<lambda>c. c\<lparr>r_pc := r_pc c + 1\<rparr>);
     return 6
   }"

definition pha :: "'b bus \<Rightarrow> ('b, u32) cpu" where
  "pha B = do { a \<leftarrow> reg r_a; push8 B a; return 3 }"

definition pla :: "'b bus \<Rightarrow> ('b, u32) cpu" where
  "pla B = do { v \<leftarrow> pop8 B; upd (\<lambda>c. c\<lparr>r_a := v\<rparr>); set_zn v; return 4 }"

definition php :: "'b bus \<Rightarrow> ('b, u32) cpu" where
  "php B = do { p \<leftarrow> reg r_p; push8 B (p OR F_B OR F_U); return 3 }"

definition plp :: "'b bus \<Rightarrow> ('b, u32) cpu" where
  "plp B = do { v \<leftarrow> pop8 B; upd (\<lambda>c. c\<lparr>r_p := (v OR F_U) AND NOT F_B\<rparr>); return 4 }"

definition flag_op :: "u8 \<Rightarrow> bool \<Rightarrow> u32 \<Rightarrow> ('b, u32) cpu" where
  "flag_op m b cyc = do { set_flag m b; return cyc }"

definition brk :: "'b bus \<Rightarrow> ('b, u32) cpu" where
  "brk B = do {
     pc \<leftarrow> reg r_pc;
     push8 B (ucast (drop_bit 8 pc));
     push8 B (ucast (pc AND 0xFF));
     p \<leftarrow> reg r_p;
     push8 B (p OR F_B OR F_U);
     set_flag F_I True;
     v \<leftarrow> r16 B 0xFFFE;
     upd (\<lambda>c. c\<lparr>r_pc := v\<rparr>);
     return 7
   }"

definition rti :: "'b bus \<Rightarrow> ('b, u32) cpu" where
  "rti B = do {
     v \<leftarrow> pop8 B;
     upd (\<lambda>c. c\<lparr>r_p := (v OR F_U) AND NOT F_B\<rparr>);
     lo \<leftarrow> pop8 B;
     hi \<leftarrow> pop8 B;
     upd (\<lambda>c. c\<lparr>r_pc := push_bit 8 (ucast hi) OR ucast lo\<rparr>);
     return 6
   }"

section \<open>The instruction table\<close>

definition load_ops :: "'b bus \<Rightarrow> (u8 \<times> ('b, u32) cpu) list" where
  "load_ops B =
    [(0xA9, load_a B imm (base_cycles 0xA9)),
     (0xA5, load_a B (zp B) 3),
     (0xB5, load_a B (zpx B) 4),
     (0xAD, load_a B (abs16 B) 4),
     (0xBD, load_a B (absx B) 4),
     (0xB9, load_a B (absy B) 4),
     (0xA1, load_a B (indx B) 6),
     (0xB1, load_a B (indy B) 5),
     (0xA2, load_x B imm (base_cycles 0xA2)),
     (0xA6, load_x B (zp B) 3),
     (0xB6, load_x B (zpy B) 4),
     (0xAE, load_x B (abs16 B) 4),
     (0xBE, load_x B (absy B) 4),
     (0xA0, load_y B imm (base_cycles 0xA0)),
     (0xA4, load_y B (zp B) 3),
     (0xB4, load_y B (zpx B) 4),
     (0xAC, load_y B (abs16 B) 4),
     (0xBC, load_y B (absx B) 4)]"

definition store_ops :: "'b bus \<Rightarrow> (u8 \<times> ('b, u32) cpu) list" where
  "store_ops B =
    [(0x85, store_reg B (zp B) r_a 3),
     (0x95, store_reg B (zpx B) r_a 4),
     (0x8D, store_reg B (abs16 B) r_a 4),
     (0x9D, store_reg B (absx B) r_a 5),
     (0x99, store_reg B (absy B) r_a 5),
     (0x81, store_reg B (indx B) r_a 6),
     (0x91, store_reg B (indy B) r_a 6),
     (0x86, store_reg B (zp B) r_x 3),
     (0x96, store_reg B (zpy B) r_x 4),
     (0x8E, store_reg B (abs16 B) r_x 4),
     (0x84, store_reg B (zp B) r_y 3),
     (0x94, store_reg B (zpx B) r_y 4),
     (0x8C, store_reg B (abs16 B) r_y 4)]"

definition transfer_ops :: "'b bus \<Rightarrow> (u8 \<times> ('b, u32) cpu) list" where
  "transfer_ops B =
    [(0xAA, transfer r_a (\<lambda>v. r_x_update (\<lambda>_. v)) True (base_cycles 0xAA)),
     (0xA8, transfer r_a (\<lambda>v. r_y_update (\<lambda>_. v)) True (base_cycles 0xA8)),
     (0x8A, transfer r_x (\<lambda>v. r_a_update (\<lambda>_. v)) True (base_cycles 0x8A)),
     (0x98, transfer r_y (\<lambda>v. r_a_update (\<lambda>_. v)) True (base_cycles 0x98)),
     (0xBA, transfer r_sp (\<lambda>v. r_x_update (\<lambda>_. v)) True (base_cycles 0xBA)),
     (0x9A, transfer r_x (\<lambda>v. r_sp_update (\<lambda>_. v)) False (base_cycles 0x9A))]"

definition inc_reg_ops :: "'b bus \<Rightarrow> (u8 \<times> ('b, u32) cpu) list" where
  "inc_reg_ops B =
    [(0xE8, transfer (\<lambda>c. r_x c + 1) (\<lambda>v. r_x_update (\<lambda>_. v)) True (base_cycles 0xE8)),
     (0xCA, transfer (\<lambda>c. r_x c - 1) (\<lambda>v. r_x_update (\<lambda>_. v)) True (base_cycles 0xCA)),
     (0xC8, transfer (\<lambda>c. r_y c + 1) (\<lambda>v. r_y_update (\<lambda>_. v)) True (base_cycles 0xC8)),
     (0x88, transfer (\<lambda>c. r_y c - 1) (\<lambda>v. r_y_update (\<lambda>_. v)) True (base_cycles 0x88))]"

definition jump_ops :: "'b bus \<Rightarrow> (u8 \<times> ('b, u32) cpu) list" where
  "jump_ops B =
    [(0x4C, jmp_abs B),
     (0x6C, jmp_ind B),
     (0x20, jsr B),
     (0x60, rts B)]"

definition stack_ops :: "'b bus \<Rightarrow> (u8 \<times> ('b, u32) cpu) list" where
  "stack_ops B =
    [(0x48, pha B),
     (0x68, pla B),
     (0x08, php B),
     (0x28, plp B)]"

definition flag_ops :: "'b bus \<Rightarrow> (u8 \<times> ('b, u32) cpu) list" where
  "flag_ops B =
    [(0x18, flag_op F_C False (base_cycles 0x18)),
     (0x38, flag_op F_C True (base_cycles 0x38)),
     (0x58, flag_op F_I False (base_cycles 0x58)),
     (0x78, flag_op F_I True (base_cycles 0x78)),
     (0xB8, flag_op F_V False (base_cycles 0xB8)),
     (0xD8, flag_op F_D False (base_cycles 0xD8)),
     (0xF8, flag_op F_D True (base_cycles 0xF8))]"

definition alu_adc_ops :: "'b bus \<Rightarrow> (u8 \<times> ('b, u32) cpu) list" where
  "alu_adc_ops B =
    [(0x69, alu_bin B adc_bin imm 2),
     (0x65, alu_bin B adc_bin (zp B) 3),
     (0x75, alu_bin B adc_bin (zpx B) 4),
     (0x6D, alu_bin B adc_bin (abs16 B) 4),
     (0x7D, alu_bin B adc_bin (absx B) 4),
     (0x79, alu_bin B adc_bin (absy B) 4),
     (0x61, alu_bin B adc_bin (indx B) 6),
     (0x71, alu_bin B adc_bin (indy B) 5),
     (0xE9, alu_bin B sbc_bin imm 2),
     (0xE5, alu_bin B sbc_bin (zp B) 3),
     (0xF5, alu_bin B sbc_bin (zpx B) 4),
     (0xED, alu_bin B sbc_bin (abs16 B) 4),
     (0xFD, alu_bin B sbc_bin (absx B) 4),
     (0xF9, alu_bin B sbc_bin (absy B) 4),
     (0xE1, alu_bin B sbc_bin (indx B) 6),
     (0xF1, alu_bin B sbc_bin (indy B) 5)]"

definition alu_logic_ops :: "'b bus \<Rightarrow> (u8 \<times> ('b, u32) cpu) list" where
  "alu_logic_ops B =
    [(0x29, alu_logic B (AND) imm 2),
     (0x25, alu_logic B (AND) (zp B) 3),
     (0x35, alu_logic B (AND) (zpx B) 4),
     (0x2D, alu_logic B (AND) (abs16 B) 4),
     (0x3D, alu_logic B (AND) (absx B) 4),
     (0x39, alu_logic B (AND) (absy B) 4),
     (0x21, alu_logic B (AND) (indx B) 6),
     (0x31, alu_logic B (AND) (indy B) 5),
     (0x09, alu_logic B (OR) imm 2),
     (0x05, alu_logic B (OR) (zp B) 3),
     (0x15, alu_logic B (OR) (zpx B) 4),
     (0x0D, alu_logic B (OR) (abs16 B) 4),
     (0x1D, alu_logic B (OR) (absx B) 4),
     (0x19, alu_logic B (OR) (absy B) 4),
     (0x01, alu_logic B (OR) (indx B) 6),
     (0x11, alu_logic B (OR) (indy B) 5),
     (0x49, alu_logic B (XOR) imm 2),
     (0x45, alu_logic B (XOR) (zp B) 3),
     (0x55, alu_logic B (XOR) (zpx B) 4),
     (0x4D, alu_logic B (XOR) (abs16 B) 4),
     (0x5D, alu_logic B (XOR) (absx B) 4),
     (0x59, alu_logic B (XOR) (absy B) 4),
     (0x41, alu_logic B (XOR) (indx B) 6),
     (0x51, alu_logic B (XOR) (indy B) 5)]"

definition branch_ops :: "'b bus \<Rightarrow> (u8 \<times> ('b, u32) cpu) list" where
  "branch_ops B =
    [(0xF0, branch B F_Z True 2),
     (0xD0, branch B F_Z False 2),
     (0xB0, branch B F_C True 2),
     (0x90, branch B F_C False 2),
     (0x30, branch B F_N True 2),
     (0x10, branch B F_N False 2),
     (0x70, branch B F_V True 2),
     (0x50, branch B F_V False 2)]"

definition shift_acc_ops :: "'b bus \<Rightarrow> (u8 \<times> ('b, u32) cpu) list" where
  "shift_acc_ops B =
    [(0x0A, shift_acc asl8 2),
     (0x4A, shift_acc lsr8 2),
     (0x2A, shift_acc rol8 2),
     (0x6A, shift_acc ror8 2),
     (0xEA, return 2)]"

definition compare_ops :: "'b bus \<Rightarrow> (u8 \<times> ('b, u32) cpu) list" where
  "compare_ops B =
    [(0xC9, compare_reg B r_a imm 2),
     (0xC5, compare_reg B r_a (zp B) 3),
     (0xD5, compare_reg B r_a (zpx B) 4),
     (0xCD, compare_reg B r_a (abs16 B) 4),
     (0xDD, compare_reg B r_a (absx B) 4),
     (0xD9, compare_reg B r_a (absy B) 4),
     (0xC1, compare_reg B r_a (indx B) 6),
     (0xD1, compare_reg B r_a (indy B) 5),
     (0xE0, compare_reg B r_x imm 2),
     (0xE4, compare_reg B r_x (zp B) 3),
     (0xEC, compare_reg B r_x (abs16 B) 4),
     (0xC0, compare_reg B r_y imm 2),
     (0xC4, compare_reg B r_y (zp B) 3),
     (0xCC, compare_reg B r_y (abs16 B) 4)]"

definition bit_ops :: "'b bus \<Rightarrow> (u8 \<times> ('b, u32) cpu) list" where
  "bit_ops B =
    [(0x24, bit_test B (zp B) 3),
     (0x2C, bit_test B (abs16 B) 4)]"

definition inc_mem_ops :: "'b bus \<Rightarrow> (u8 \<times> ('b, u32) cpu) list" where
  "inc_mem_ops B =
    [(0xE6, inc_mem B (\<lambda>v. v + 1) (zp B) 5),
     (0xF6, inc_mem B (\<lambda>v. v + 1) (zpx B) 6),
     (0xEE, inc_mem B (\<lambda>v. v + 1) (abs16 B) 6),
     (0xFE, inc_mem B (\<lambda>v. v + 1) (absx B) 7),
     (0xC6, inc_mem B (\<lambda>v. v - 1) (zp B) 5),
     (0xD6, inc_mem B (\<lambda>v. v - 1) (zpx B) 6),
     (0xCE, inc_mem B (\<lambda>v. v - 1) (abs16 B) 6),
     (0xDE, inc_mem B (\<lambda>v. v - 1) (absx B) 7)]"

definition shift_mem_ops :: "'b bus \<Rightarrow> (u8 \<times> ('b, u32) cpu) list" where
  "shift_mem_ops B =
    [(0x06, shift_mem B asl8 (zp B) 5),
     (0x16, shift_mem B asl8 (zpx B) 6),
     (0x0E, shift_mem B asl8 (abs16 B) 6),
     (0x1E, shift_mem B asl8 (absx B) 7),
     (0x46, shift_mem B lsr8 (zp B) 5),
     (0x56, shift_mem B lsr8 (zpx B) 6),
     (0x4E, shift_mem B lsr8 (abs16 B) 6),
     (0x5E, shift_mem B lsr8 (absx B) 7),
     (0x26, shift_mem B rol8 (zp B) 5),
     (0x36, shift_mem B rol8 (zpx B) 6),
     (0x2E, shift_mem B rol8 (abs16 B) 6),
     (0x3E, shift_mem B rol8 (absx B) 7),
     (0x66, shift_mem B ror8 (zp B) 5),
     (0x76, shift_mem B ror8 (zpx B) 6),
     (0x6E, shift_mem B ror8 (abs16 B) 6),
     (0x7E, shift_mem B ror8 (absx B) 7)]"

definition interrupt_ops :: "'b bus \<Rightarrow> (u8 \<times> ('b, u32) cpu) list" where
  "interrupt_ops B =
    [(0x00, brk B),
     (0x40, rti B)]"

definition opcodes :: "'b bus \<Rightarrow> (u8 \<times> ('b, u32) cpu) list" where
  "opcodes B = load_ops B @ store_ops B @ transfer_ops B @ inc_reg_ops B @ jump_ops B @ stack_ops B @ flag_ops B @ alu_adc_ops B @
     alu_logic_ops B @ branch_ops B @ shift_acc_ops B @ compare_ops B @ bit_ops B @ inc_mem_ops B @ shift_mem_ops B @ interrupt_ops B"

definition exec_op :: "'b bus \<Rightarrow> u8 \<Rightarrow> ('b, u32) cpu" where
  "exec_op B op = (case map_of (opcodes B) op of Some act \<Rightarrow> act | None \<Rightarrow> return 2)"

definition emu6502_step :: "'b bus \<Rightarrow> ('b, u32) cpu" where
  "emu6502_step B = do {
     op \<leftarrow> fetch8 B;
     cyc \<leftarrow> exec_op B op;
     upd (\<lambda>c. c\<lparr>r_cycles := r_cycles c + ucast cyc\<rparr>);
     return cyc
   }"

end
