(* ===== verification/Emu6502_Props.thy ===== *)
theory Emu6502_Props
  imports Emu6502
begin

text \<open>
  What holds of every instruction. The locale \<^verbatim>\<open>cpu_relation\<close> is the contract of a relation between the
  machine before and after: reflexive, transitive, kept by one bus access and by one register change
  that leaves the cycle counter alone and keeps the two fixed status bits. Every instruction then keeps
  it. Two interpretations give the status and cycle properties of the core; the Atari theory adds its own.
\<close>

named_theorems io "rules that an operation keeps a relation"
named_theorems result "rules on the value an operation returns"

section \<open>Bytes by their bits\<close>

lemma all_less_Suc: "(\<forall>n<Suc k. P n) \<longleftrightarrow> (\<forall>n<k. P n) \<and> P k"
  by (auto simp: less_Suc_eq)

lemma byte_eq_iff:
  fixes x y :: u8
  shows "x = y \<longleftrightarrow> bit x 0 = bit y 0 \<and> bit x 1 = bit y 1 \<and> bit x 2 = bit y 2 \<and> bit x 3 = bit y 3 \<and>
    bit x 4 = bit y 4 \<and> bit x 5 = bit y 5 \<and> bit x 6 = bit y 6 \<and> bit x 7 = bit y 7"
proof -
  have "x = y \<longleftrightarrow> (\<forall>n<8. bit x n = bit y n)" by (auto intro!: bit_word_eqI)
  then show ?thesis by (simp add: eval_nat_numeral all_less_Suc)
qed

lemma byte_less: "unat (x :: u8) < 256" "uint (x :: u8) < 256"
  using unsigned_less [of x] uint_range_size [of x] by (simp_all add: word_size)

lemma bit_flag: "n < 8 \<Longrightarrow> bit (flag m b p) n = (if bit m n then b else bit p n)"
  by (auto simp: flag_def bit_simps)

lemma flag_set_bits:
  "flag_set F_C c = bit (r_p c) 0" "flag_set F_Z c = bit (r_p c) 1" "flag_set F_I c = bit (r_p c) 2"
  "flag_set F_D c = bit (r_p c) 3" "flag_set F_V c = bit (r_p c) 6" "flag_set F_N c = bit (r_p c) 7"
  by (simp_all add: flag_set_def byte_eq_iff bit_simps)

section \<open>The status byte\<close>

definition status_ok :: "u8 \<Rightarrow> bool" where
  "status_ok p = (p AND (F_B OR F_U) = F_U)"

definition status_kept :: "u8 \<Rightarrow> u8 \<Rightarrow> bool" where
  "status_kept p p' = (status_ok p \<longrightarrow> status_ok p')"

lemma status_ok_bits: "status_ok p \<longleftrightarrow> bit p 5 \<and> \<not> bit p 4"
  by (auto simp: status_ok_def byte_eq_iff bit_simps)

lemma status_kept_refl [simp]: "status_kept p p"
  by (simp add: status_kept_def)

lemma status_kept_flag [simp]: "\<not> bit m 4 \<Longrightarrow> \<not> bit m 5 \<Longrightarrow> status_kept p (flag m b p)"
  by (simp add: status_kept_def status_ok_bits bit_flag)

lemma status_kept_pull: "status_kept p ((v OR F_U) AND NOT F_B)"
  by (simp add: status_kept_def status_ok_bits bit_simps)

section \<open>Relations kept by every instruction\<close>

lemma io_returnI: "(\<And>s. R s s) \<Longrightarrow> state_io_rel R (return x)"
  by (auto simp: State_Monad.return_def)

lemma io_bindI:
  assumes "\<And>s t u. R s t \<Longrightarrow> R t u \<Longrightarrow> R s u" "state_io_rel R m" "\<And>x. state_io_rel R (f x)"
  shows "state_io_rel R (m \<bind> f)"
proof (rule state_io_relI)
  fix a s s'
  assume run: "run_state (m \<bind> f) s = (a, s')"
  obtain x t where m: "run_state m s = (x, t)" by fastforce
  then have "run_state (f x) t = (a, s')" using run by simp
  then show "R s s'" using assms(1) [of s t s'] state_io_relD [OF assms(2) m] state_io_relD [OF assms(3)] by blast
qed

locale cpu_relation =
  fixes B :: "'b bus" and R :: "'b emu6502 \<Rightarrow> 'b emu6502 \<Rightarrow> bool"
  assumes refl: "R s s"
    and trans: "R s t \<Longrightarrow> R t u \<Longrightarrow> R s u"
    and bus_read: "R s (s\<lparr>bus_user := snd (read8 B (cpu s) (bus_user s) a)\<rparr>)"
    and bus_write: "R s (s\<lparr>bus_user := write8 B (cpu s) (bus_user s) a v\<rparr>)"
    and reg_change: "r_cycles c = r_cycles (cpu s) \<Longrightarrow> status_kept (r_p (cpu s)) (r_p c) \<Longrightarrow> R s (s\<lparr>cpu := c\<rparr>)"
begin

lemma io_return [io]: "state_io_rel R (return x)"
  by (rule io_returnI) (rule refl)

lemma io_bind [io]: "state_io_rel R m \<Longrightarrow> (\<And>x. state_io_rel R (f x)) \<Longrightarrow> state_io_rel R (m \<bind> f)"
  by (rule io_bindI) (rule trans)

lemma io_reg [io]: "state_io_rel R (reg f)"
  by (auto simp: reg_def refl)

lemma io_upd: "(\<And>c. r_cycles (f c) = r_cycles c \<and> status_kept (r_p c) (r_p (f c))) \<Longrightarrow> state_io_rel R (upd f)"
  by (simp add: upd_def state_io_rel_def reg_change)

lemma io_set_flag [io]: "\<not> bit m 4 \<Longrightarrow> \<not> bit m 5 \<Longrightarrow> state_io_rel R (set_flag m b)"
  unfolding set_flag_def by (rule io_upd) simp

lemma io_r8 [io]: "state_io_rel R (r8 B a)"
proof (rule state_io_relI)
  fix v s s'
  assume "run_state (r8 B a) s = (v, s')"
  then have "s' = s\<lparr>bus_user := snd (read8 B (cpu s) (bus_user s) a)\<rparr>" by (auto simp: r8_def split: prod.splits)
  then show "R s s'" using bus_read by simp
qed

lemma io_w8 [io]: "state_io_rel R (w8 B a v)"
  by (auto simp: w8_def bus_write)

lemma io_update [io]:
  "state_io_rel R (upd (\<lambda>c. c\<lparr>r_pc := f c\<rparr>))" "state_io_rel R (upd (\<lambda>c. c\<lparr>r_a := g c\<rparr>))"
  "state_io_rel R (upd (\<lambda>c. c\<lparr>r_x := g c\<rparr>))" "state_io_rel R (upd (\<lambda>c. c\<lparr>r_y := g c\<rparr>))"
  "state_io_rel R (upd (\<lambda>c. c\<lparr>r_sp := g c\<rparr>))"
  by (rule io_upd; simp)+

lemma io_pull [io]: "state_io_rel R (upd (\<lambda>c. c\<lparr>r_p := (v OR F_U) AND NOT F_B\<rparr>))"
  by (rule io_upd) (use status_kept_pull in simp)

lemma io_if [io]: "state_io_rel R m \<Longrightarrow> state_io_rel R n \<Longrightarrow> state_io_rel R (if b then m else n)"
  by simp

lemma io_set_zn [io]: "state_io_rel R (set_zn v)"
  unfolding set_zn_def by (intro io) simp_all

lemma io_stack [io]: "state_io_rel R (push8 B v)" "state_io_rel R (pop8 B)"
  unfolding push8_def pop8_def by (intro io)+

lemma io_r16 [io]: "state_io_rel R (r16 B a)" "state_io_rel R (r16_wrap B a)"
  unfolding r16_def r16_wrap_def by (intro io)+

lemma io_imm [io]: "state_io_rel R imm"
  unfolding imm_def by (intro io)

lemma io_modes [io]:
  "state_io_rel R (fetch8 B)" "state_io_rel R (zp B)" "state_io_rel R (zpx B)" "state_io_rel R (zpy B)"
  "state_io_rel R (abs16 B)" "state_io_rel R (absx B)" "state_io_rel R (absy B)" "state_io_rel R (ind B)"
  "state_io_rel R (indx B)" "state_io_rel R (indy B)" "state_io_rel R (rel8 B)"
  unfolding rel8_def fetch8_def zp_def zpx_def zpy_def absx_def absy_def ind_def indx_def indy_def abs16_def
  by (intro io)+

lemma io_alu [io]:
  "state_io_rel R (adc_bin v)" "state_io_rel R (sbc_bin v)" "state_io_rel R (asl8 v)" "state_io_rel R (lsr8 v)"
  "state_io_rel R (rol8 v)" "state_io_rel R (ror8 v)"
  unfolding sbc_bin_def adc_bin_def asl8_def lsr8_def rol8_def ror8_def Let_def
  by ((intro io; simp)+)

lemma io_actions [io]:
  assumes "state_io_rel R mode"
  shows "state_io_rel R (load_a B mode cyc)" "state_io_rel R (load_x B mode cyc)" "state_io_rel R (load_y B mode cyc)"
    "state_io_rel R (store_reg B mode r cyc)" "state_io_rel R (alu_logic B h mode cyc)"
    "state_io_rel R (compare_reg B r mode cyc)" "state_io_rel R (bit_test B mode cyc)" "state_io_rel R (inc_mem B k mode cyc)"
  unfolding load_a_def load_x_def load_y_def store_reg_def alu_logic_def compare_reg_def bit_test_def inc_mem_def Let_def
  by ((intro io assms; simp)+)

lemma io_apply [io]:
  assumes "state_io_rel R mode"
  shows "(\<And>v. state_io_rel R (f v)) \<Longrightarrow> state_io_rel R (alu_bin B f mode cyc)"
    and "(\<And>v. state_io_rel R (g v)) \<Longrightarrow> state_io_rel R (shift_mem B g mode cyc)"
  unfolding alu_bin_def shift_mem_def by (intro io assms; assumption)+

lemma io_shift_acc [io]: "(\<And>v. state_io_rel R (g v)) \<Longrightarrow> state_io_rel R (shift_acc g cyc)"
  unfolding shift_acc_def by (intro io; assumption)

lemma io_transfer [io]: "(\<And>v. state_io_rel R (upd (dst v))) \<Longrightarrow> state_io_rel R (transfer src dst zn cyc)"
  unfolding transfer_def by (intro io; assumption)

lemma io_single [io]:
  "state_io_rel R (jmp_abs B)" "state_io_rel R (jmp_ind B)" "state_io_rel R (jsr B)" "state_io_rel R (rts B)"
  "state_io_rel R (pha B)" "state_io_rel R (pla B)" "state_io_rel R (php B)" "state_io_rel R (plp B)"
  "state_io_rel R (branch B m t cyc)" "state_io_rel R (rti B)" "state_io_rel R (brk B)"
  unfolding jmp_abs_def jmp_ind_def jsr_def rts_def pha_def pla_def php_def plp_def branch_def rti_def brk_def Let_def
  by ((intro io; simp)+)

lemma io_flag_op [io]: "\<not> bit m 4 \<Longrightarrow> \<not> bit m 5 \<Longrightarrow> state_io_rel R (flag_op m b cyc)"
  unfolding flag_op_def by (intro io)

lemma io_tables:
  "list_all (\<lambda>(op, act). state_io_rel R act) (load_ops B)" "list_all (\<lambda>(op, act). state_io_rel R act) (store_ops B)"
  "list_all (\<lambda>(op, act). state_io_rel R act) (transfer_ops B)" "list_all (\<lambda>(op, act). state_io_rel R act) (inc_reg_ops B)"
  "list_all (\<lambda>(op, act). state_io_rel R act) (jump_ops B)" "list_all (\<lambda>(op, act). state_io_rel R act) (stack_ops B)"
  "list_all (\<lambda>(op, act). state_io_rel R act) (flag_ops B)" "list_all (\<lambda>(op, act). state_io_rel R act) (alu_adc_ops B)"
  "list_all (\<lambda>(op, act). state_io_rel R act) (alu_logic_ops B)" "list_all (\<lambda>(op, act). state_io_rel R act) (branch_ops B)"
  "list_all (\<lambda>(op, act). state_io_rel R act) (shift_acc_ops B)" "list_all (\<lambda>(op, act). state_io_rel R act) (compare_ops B)"
  "list_all (\<lambda>(op, act). state_io_rel R act) (bit_ops B)" "list_all (\<lambda>(op, act). state_io_rel R act) (inc_mem_ops B)"
  "list_all (\<lambda>(op, act). state_io_rel R act) (shift_mem_ops B)" "list_all (\<lambda>(op, act). state_io_rel R act) (interrupt_ops B)"
  by (simp_all add: load_ops_def store_ops_def transfer_ops_def inc_reg_ops_def jump_ops_def stack_ops_def flag_ops_def
      alu_adc_ops_def alu_logic_ops_def branch_ops_def shift_acc_ops_def compare_ops_def bit_ops_def inc_mem_ops_def
      shift_mem_ops_def interrupt_ops_def io)

lemma io_exec_op [io]: "state_io_rel R (exec_op B op)"
proof (cases "map_of (opcodes B) op")
  case None
  then show ?thesis by (simp add: exec_op_def io_return)
next
  case (Some act)
  have "list_all (\<lambda>(op, act). state_io_rel R act) (opcodes B)" by (simp add: opcodes_def io_tables)
  then have "state_io_rel R act" using map_of_SomeD [OF Some] by (auto simp: list_all_iff)
  then show ?thesis using Some by (simp add: exec_op_def)
qed

lemma fetch_exec: "state_io_rel R (fetch8 B \<bind> exec_op B)"
  by (intro io)

end

section \<open>Status and cycles\<close>

interpretation status: cpu_relation B "\<lambda>s s'. status_kept (r_p (cpu s)) (r_p (cpu s'))" for B
  by unfold_locales (auto simp: status_kept_def)

interpretation count: cpu_relation B "\<lambda>s s'. r_cycles (cpu s') = r_cycles (cpu s)" for B
  by unfold_locales auto

lemma result_return: "Q x \<Longrightarrow> pred_state Q (return x)"
  by (auto simp: State_Monad.return_def)

lemma result_bind: "(\<And>x. pred_state Q (f x)) \<Longrightarrow> pred_state Q (m \<bind> f)"
  by (rule bind_predI) (auto intro!: pred_stateI)

lemma result_actions:
  assumes "Q cyc"
  shows "pred_state Q (load_a B mode cyc)" "pred_state Q (load_x B mode cyc)" "pred_state Q (load_y B mode cyc)"
    "pred_state Q (store_reg B mode r cyc)" "pred_state Q (alu_logic B h mode cyc)" "pred_state Q (compare_reg B r mode cyc)"
    "pred_state Q (bit_test B mode cyc)" "pred_state Q (inc_mem B k mode cyc)" "pred_state Q (alu_bin B f mode cyc)"
    "pred_state Q (shift_mem B g mode cyc)" "pred_state Q (shift_acc g cyc)" "pred_state Q (transfer src dst zn cyc)"
    "pred_state Q (branch B m t cyc)" "pred_state Q (flag_op m b cyc)" "pred_state Q (return cyc)"
  unfolding load_a_def load_x_def load_y_def store_reg_def alu_logic_def compare_reg_def bit_test_def inc_mem_def
    alu_bin_def shift_mem_def shift_acc_def transfer_def branch_def flag_op_def Let_def
  by (intro result_bind result_return assms)+

lemma result_single:
  "Q 3 \<Longrightarrow> pred_state Q (jmp_abs B)" "Q 5 \<Longrightarrow> pred_state Q (jmp_ind B)" "Q 6 \<Longrightarrow> pred_state Q (jsr B)"
  "Q 6 \<Longrightarrow> pred_state Q (rts B)" "Q 3 \<Longrightarrow> pred_state Q (pha B)" "Q 4 \<Longrightarrow> pred_state Q (pla B)"
  "Q 3 \<Longrightarrow> pred_state Q (php B)" "Q 4 \<Longrightarrow> pred_state Q (plp B)" "Q 7 \<Longrightarrow> pred_state Q (brk B)"
  "Q 6 \<Longrightarrow> pred_state Q (rti B)"
  unfolding jmp_abs_def jmp_ind_def jsr_def rts_def pha_def pla_def php_def plp_def brk_def rti_def Let_def
  by (intro result_bind result_return; assumption)+

lemma exec_op_cycles: "pred_state (\<lambda>cyc. 2 \<le> cyc \<and> cyc \<le> 7) (exec_op B op)"
proof -
  let ?Q = "\<lambda>cyc :: u32. 2 \<le> cyc \<and> cyc \<le> 7"
  have "list_all (\<lambda>(op, act). pred_state ?Q act) (opcodes B)"
    by (simp add: opcodes_def load_ops_def store_ops_def transfer_ops_def inc_reg_ops_def jump_ops_def stack_ops_def
        flag_ops_def alu_adc_ops_def alu_logic_ops_def branch_ops_def shift_acc_ops_def compare_ops_def bit_ops_def
        inc_mem_ops_def shift_mem_ops_def interrupt_ops_def base_cycles_def result_actions result_single)
  moreover have "pred_state ?Q (return 2)" by (rule result_return) simp
  ultimately show ?thesis
    by (auto simp: exec_op_def list_all_iff dest!: map_of_SomeD split: option.splits)
qed

lemma emu6502_step_run:
  assumes "run_state (emu6502_step B) s = (cyc, s')"
  obtains t where "run_state (fetch8 B \<bind> exec_op B) s = (cyc, t)"
    "s' = t\<lparr>cpu := (cpu t)\<lparr>r_cycles := r_cycles (cpu t) + ucast cyc\<rparr>\<rparr>"
  using assms by (auto simp: emu6502_step_def upd_def split: prod.splits)

lemma step_cycles:
  assumes "run_state (emu6502_step B) s = (cyc, s')"
  shows "2 \<le> cyc \<and> cyc \<le> 7 \<and> r_cycles (cpu s') = r_cycles (cpu s) + ucast cyc"
  using assms
proof (rule emu6502_step_run)
  fix t
  assume run: "run_state (fetch8 B \<bind> exec_op B) s = (cyc, t)"
    and s': "s' = t\<lparr>cpu := (cpu t)\<lparr>r_cycles := r_cycles (cpu t) + ucast cyc\<rparr>\<rparr>"
  have "pred_state (\<lambda>c. 2 \<le> c \<and> c \<le> 7) (fetch8 B \<bind> exec_op B)" by (intro result_bind exec_op_cycles)
  moreover have "r_cycles (cpu t) = r_cycles (cpu s)" using state_io_relD [OF count.fetch_exec run] .
  ultimately show ?thesis using run s' by (auto dest: pred_stateD)
qed

end
