(* ===== verification/Emu6502_Correct.thy ===== *)
theory Emu6502_Correct
  imports Emu6502_Props
begin

text \<open>
  Correctness of the processor core: the fixed bits of the status byte, the cycle count of an
  instruction, and binary addition and subtraction with their flags against integer arithmetic.
\<close>

section \<open>Status and cycles\<close>

primrec emu6502_run :: "'b bus \<Rightarrow> nat \<Rightarrow> ('b, unit) cpu" where
  "emu6502_run B 0 = emu6502_reset B"
| "emu6502_run B (Suc n) = do { emu6502_run B n; emu6502_step B; return () }"

lemma step_status:
  assumes "status_ok (r_p (cpu s))" "run_state (emu6502_step B) s = (cyc, s')"
  shows "status_ok (r_p (cpu s'))"
  using assms(2)
proof (rule emu6502_step_run)
  fix t
  assume run: "run_state (fetch8 B \<bind> exec_op B) s = (cyc, t)"
    and s': "s' = t\<lparr>cpu := (cpu t)\<lparr>r_cycles := r_cycles (cpu t) + ucast cyc\<rparr>\<rparr>"
  have "status_kept (r_p (cpu s)) (r_p (cpu t))" using state_io_relD [OF status.fetch_exec run] .
  then show ?thesis using assms(1) s' by (simp add: status_kept_def)
qed

text \<open>C27. Whatever the bus answers, after a reset and any number of instructions the status
  byte has the unused bit set and the break bit clear.\<close>

theorem emu6502_status_invariant: "r_p (cpu (snd (run_state (emu6502_run B n) s))) AND (F_B OR F_U) = F_U"
proof -
  have "status_ok (r_p (cpu (snd (run_state (emu6502_run B n) s))))"
  proof (induction n)
    case 0
    show ?case
      by (simp add: emu6502_reset_def upd_def r16_def r8_def status_ok_bits bit_simps split: prod.splits)
  next
    case (Suc n)
    obtain t where t: "run_state (emu6502_run B n) s = ((), t)" by (metis old.unit.exhaust prod.collapse)
    obtain cyc u where u: "run_state (emu6502_step B) t = (cyc, u)" by fastforce
    show ?case using Suc step_status [OF _ u] t u by simp
  qed
  then show ?thesis by (simp add: status_ok_def)
qed

text \<open>C40. Every instruction takes between two and seven cycles, illegal opcodes included, and
  the cycle counter advances by exactly that number: nothing else changes it.\<close>

theorem emu6502_step_cycles:
  assumes "run_state (emu6502_step B) s = (cyc, s')"
  shows "2 \<le> cyc \<and> cyc \<le> 7 \<and> r_cycles (cpu s') = r_cycles (cpu s) + ucast cyc"
  using step_cycles [OF assms] by simp

theorem emu6502_step_cycles_witness:
  "2 \<le> fst (run_state (emu6502_step \<lparr>read8 = \<lambda>c u a. (0x00, u), write8 = \<lambda>c u a v. u\<rparr>) (emu6502_init ())) \<and>
   r_cycles (cpu (snd (run_state (emu6502_step \<lparr>read8 = \<lambda>c u a. (0x00, u), write8 = \<lambda>c u a v. u\<rparr>) (emu6502_init ())))) =
     ucast (fst (run_state (emu6502_step \<lparr>read8 = \<lambda>c u a. (0x00, u), write8 = \<lambda>c u a v. u\<rparr>) (emu6502_init ())))"
  using emu6502_step_cycles [OF prod.collapse [symmetric],
      of "\<lparr>read8 = \<lambda>c u a. (0x00, u), write8 = \<lambda>c u a v. u\<rparr>" "emu6502_init ()"]
  by (simp add: emu6502_init_def)

section \<open>Arithmetic\<close>

lemma byte_bit7: "bit (x :: u8) 7 \<longleftrightarrow> 128 \<le> unat x"
proof -
  have "bit x 7 \<longleftrightarrow> bit (unat x) 7" by (simp add: bit_simps)
  moreover have "unat x div 128 = (if 128 \<le> unat x then 1 else 0)"
    using byte_less(1) [of x] by (auto simp: div_if)
  ultimately show ?thesis by (simp add: bit_iff_odd)
qed

lemma wrap_byte:
  assumes "(n :: int) < 256" "0 \<le> n"
  shows "(n + 128) mod 256 - 128 = n - (if 128 \<le> n then 256 else 0)"
proof (cases "128 \<le> n")
  case True
  have e: "n + 128 = (n - 128) + 256" by simp
  have "(n + 128) mod 256 = n - 128" unfolding e using True assms by (simp only: mod_add_self2) simp
  then show ?thesis using True by simp
qed (use assms in simp)

lemma sint_byte: "sint (x :: u8) = int (unat x) - (if bit x 7 then 256 else 0)"
proof -
  have "sint x = signed_take_bit 7 (uint x)" by (simp add: sint_uint)
  also have "\<dots> = (uint x + 128) mod 256 - 128" by (simp add: signed_take_bit_eq_take_bit_shift take_bit_eq_mod)
  also have "\<dots> = uint x - (if 128 \<le> uint x then 256 else 0)" 
    by (rule wrap_byte) (use byte_less [of x] in simp_all)
  moreover have "128 \<le> uint x \<longleftrightarrow> 128 \<le> unat x" unfolding unat_eq_nat_uint by arith
  ultimately show ?thesis by (simp add: byte_bit7)
qed

lemma sint_byte_neg: "sint (x :: u8) < 0 \<longleftrightarrow> bit x 7"
  using byte_less(2) [of x] by (simp add: sint_byte)

lemma unat_ucast16: "unat (ucast (a :: u8) :: u16) = unat a"
  using byte_less(1) [of a] by (simp add: unsigned_ucast_eq take_bit_nat_eq_self)

lemma sum16:
  "unat (ucast (a :: u8) + ucast (v :: u8) + (if k then 1 else 0) :: u16) = unat a + unat v + (if k then 1 else 0)"
  using byte_less(1) [of a] byte_less(1) [of v] by (simp add: unat_word_ariths unat_ucast16)

lemma res8:
  "unat (ucast (ucast (a :: u8) + ucast (v :: u8) + (if k then 1 else 0) :: u16) :: u8) = (unat a + unat v + (if k then 1 else 0)) mod 256"
  using sum16 [of a v k] by (simp add: unsigned_ucast_eq take_bit_eq_mod del: of_nat_add)

text \<open>The sum with carry of the accumulator and an operand, as the code computes it.\<close>

abbreviation adc_sum :: "regs \<Rightarrow> u8 \<Rightarrow> u16" where
  "adc_sum c v \<equiv> ucast (r_a c) + ucast v + (if flag_set F_C c then 1 else 0)"

abbreviation adc_res :: "regs \<Rightarrow> u8 \<Rightarrow> u8" where
  "adc_res c v \<equiv> ucast (adc_sum c v)"

lemma adc_bin_run:
  "snd (run_state (adc_bin v) s) = s\<lparr>cpu := (cpu s)\<lparr>r_a := adc_res (cpu s) v,
     r_p := flag F_N (adc_res (cpu s) v AND 0x80 \<noteq> 0) (flag F_Z (adc_res (cpu s) v = 0)
       (flag F_V ((r_a (cpu s) XOR adc_res (cpu s) v) AND (v XOR adc_res (cpu s) v) AND 0x80 \<noteq> 0)
         (flag F_C (adc_sum (cpu s) v > 0xFF) (r_p (cpu s)))))\<rparr>\<rparr>"
  by (simp add: adc_bin_def set_zn_def set_flag_def upd_def reg_def Let_def)

lemma signed_overflow:
  fixes A V k :: nat
  assumes "A < 256" "V < 256" "k \<le> 1"
  defines "res \<equiv> (A + V + k) mod 256"
  shows "((128 \<le> A) \<noteq> (128 \<le> res) \<and> (128 \<le> V) \<noteq> (128 \<le> res)) \<longleftrightarrow>
    (int A - (if 128 \<le> A then 256 else 0)) + (int V - (if 128 \<le> V then 256 else 0)) + int k \<notin> {-128..127}"
proof -
  have "res = (if A + V + k < 256 then A + V + k else A + V + k - 256)"
    using assms by (auto simp: res_def mod_if)
  then show ?thesis using assms(1-3) by auto
qed

lemma overflow_formula:
  "(a XOR r) AND (v XOR r) AND 0x80 \<noteq> (0 :: u8) \<longleftrightarrow> bit a 7 \<noteq> bit r 7 \<and> bit v 7 \<noteq> bit r 7"
  by (auto simp: byte_eq_iff bit_simps)

lemma adc_correct:
  fixes s :: "'b emu6502" and v :: u8
  defines "c \<equiv> cpu s" and "s' \<equiv> snd (run_state (adc_bin v) s)"
  defines "k \<equiv> (if flag_set F_C c then 1 else 0 :: nat)"
  shows "unat (r_a (cpu s')) = (unat (r_a c) + unat v + k) mod 256"
    and "flag_set F_C (cpu s') \<longleftrightarrow> 256 \<le> unat (r_a c) + unat v + k"
    and "flag_set F_V (cpu s') \<longleftrightarrow> sint (r_a c) + sint v + int k \<notin> {-128..127}"
    and "flag_set F_Z (cpu s') \<longleftrightarrow> r_a (cpu s') = 0" and "flag_set F_N (cpu s') \<longleftrightarrow> sint (r_a (cpu s')) < 0"
    and "bus_user s' = bus_user s"
proof -
  have ra: "r_a (cpu s') = adc_res c v" by (simp add: s'_def adc_bin_run c_def)
  have res: "unat (adc_res c v) = (unat (r_a c) + unat v + k) mod 256"
    using res8 [of "r_a c" v "flag_set F_C c"] unfolding k_def by simp
  have sum: "unat (adc_sum c v) = unat (r_a c) + unat v + k"
    using sum16 [of "r_a c" v "flag_set F_C c"] unfolding k_def by simp
  have k: "k \<le> 1" by (simp add: k_def)
  have b7: "(x AND 0x80 \<noteq> 0) = bit (x :: u8) 7" for x by (simp add: byte_eq_iff bit_simps)
  show "unat (r_a (cpu s')) = (unat (r_a c) + unat v + k) mod 256" using ra res by simp
  show "flag_set F_C (cpu s') \<longleftrightarrow> 256 \<le> unat (r_a c) + unat v + k"
    using sum by (auto simp: flag_set_bits s'_def adc_bin_run bit_flag c_def word_less_nat_alt)
  have "flag_set F_V (cpu s') \<longleftrightarrow> (r_a c XOR adc_res c v) AND (v XOR adc_res c v) AND 0x80 \<noteq> 0"
    by (simp add: flag_set_bits s'_def adc_bin_run bit_flag c_def)
  then have "flag_set F_V (cpu s') \<longleftrightarrow> bit (r_a c) 7 \<noteq> bit (adc_res c v) 7 \<and> bit v 7 \<noteq> bit (adc_res c v) 7"
    unfolding overflow_formula .
  then show "flag_set F_V (cpu s') \<longleftrightarrow> sint (r_a c) + sint v + int k \<notin> {-128..127}"
    using signed_overflow [OF byte_less(1) byte_less(1) k, of "r_a c" v] unfolding byte_bit7 sint_byte res by simp
  show "flag_set F_Z (cpu s') \<longleftrightarrow> r_a (cpu s') = 0"
    unfolding ra by (simp add: flag_set_bits s'_def adc_bin_run bit_flag c_def)
  have "flag_set F_N (cpu s') \<longleftrightarrow> bit (adc_res c v) 7"
    by (simp add: flag_set_bits s'_def adc_bin_run bit_flag c_def b7)
  then show "flag_set F_N (cpu s') \<longleftrightarrow> sint (r_a (cpu s')) < 0"
    unfolding ra sint_byte_neg .
  show "bus_user s' = bus_user s" by (simp add: s'_def adc_bin_run)
qed

lemma unat_not_byte: "unat (NOT (v :: u8)) = 255 - unat v"
proof -
  have "NOT v = 255 - v" by (simp add: not_eq_complement)
  then show ?thesis using byte_less(1) [of v] by (simp add: unat_sub word_le_nat_alt)
qed

lemma sint_not_byte: "sint (NOT (v :: u8)) = - sint v - 1"
  using byte_less(1) [of v] by (simp add: sint_byte unat_not_byte bit_simps)

text \<open>C24. Addition and subtraction with carry agree with integer arithmetic. With the carry flag
  as 0 or 1, ADC leaves the sum modulo 256 and SBC the difference less the borrow modulo 256. The carry
  is the carry out (no borrow for SBC), overflow says that the signed result does not fit a byte, zero
  and negative describe the result, and the bus is untouched.\<close>

theorem emu6502_arithmetic:
  "let c = cpu s; k = (if flag_set F_C c then 1 else 0);
       s1 = snd (run_state (adc_bin v) s); c1 = cpu s1;
       s2 = snd (run_state (sbc_bin v) s); c2 = cpu s2
   in uint (r_a c1) = (uint (r_a c) + uint v + k) mod 256 \<and>
      (flag_set F_C c1 \<longleftrightarrow> uint (r_a c) + uint v + k \<ge> 256) \<and>
      (flag_set F_V c1 \<longleftrightarrow> sint (r_a c) + sint v + k \<notin> {-128..127}) \<and>
      (flag_set F_Z c1 \<longleftrightarrow> r_a c1 = 0) \<and> (flag_set F_N c1 \<longleftrightarrow> sint (r_a c1) < 0) \<and> bus_user s1 = bus_user s \<and>
      uint (r_a c2) = (uint (r_a c) - uint v - (1 - k)) mod 256 \<and>
      (flag_set F_C c2 \<longleftrightarrow> uint (r_a c) \<ge> uint v + (1 - k)) \<and>
      (flag_set F_V c2 \<longleftrightarrow> sint (r_a c) - sint v - (1 - k) \<notin> {-128..127}) \<and>
      (flag_set F_Z c2 \<longleftrightarrow> r_a c2 = 0) \<and> (flag_set F_N c2 \<longleftrightarrow> sint (r_a c2) < 0) \<and> bus_user s2 = bus_user s"
proof -
  define k :: nat where "k = (if flag_set F_C (cpu s) then 1 else 0)"
  have kint: "(if flag_set F_C (cpu s) then 1 else 0) = int k" by (simp add: k_def)
  have kn: "(if flag_set F_C (cpu s) then 1 else 0) = k" by (simp add: k_def)
  have k1: "k \<le> 1" by (simp add: k_def)
  note add = adc_correct [of v s, unfolded kn]
  note sub = adc_correct [of "NOT v" s, unfolded kn unat_not_byte sint_not_byte, folded sbc_bin_def]
  have u: "int (unat (r_a (cpu s))) = uint (r_a (cpu s))" "int (unat v) = uint v" by simp_all
  have a: "uint (r_a (cpu (snd (run_state (adc_bin v) s)))) = (uint (r_a (cpu s)) + uint v + int k) mod 256"
    using arg_cong [OF add(1), of int] by (simp add: zmod_int)
  have v: "int (255 - unat v) = 255 - uint v" using byte_less [of v] by (simp add: of_nat_diff)
  have b: "uint (r_a (cpu (snd (run_state (sbc_bin v) s)))) = (uint (r_a (cpu s)) + (255 - uint v) + int k) mod 256"
    using arg_cong [OF sub(1), of int] v by (simp add: zmod_int)
  have b': "(uint (r_a (cpu s)) + (255 - uint v) + int k) mod 256 = (uint (r_a (cpu s)) - uint v - (1 - int k)) mod 256"
    using mod_add_self2 [of "uint (r_a (cpu s)) - uint v - (1 - int k)" 256] by (simp add: algebra_simps)
  have c: "256 \<le> unat (r_a (cpu s)) + unat v + k \<longleftrightarrow> 256 \<le> uint (r_a (cpu s)) + uint v + int k"
    unfolding u [symmetric] by linarith
  have d: "256 \<le> unat (r_a (cpu s)) + (255 - unat v) + k \<longleftrightarrow> uint v + (1 - int k) \<le> uint (r_a (cpu s))"
    unfolding u [symmetric] using byte_less(1) [of v] by linarith
  have e: "sint (r_a (cpu s)) + (- sint v - 1) + int k = sint (r_a (cpu s)) - sint v - (1 - int k)" by simp
  show ?thesis
    unfolding Let_def kint using a add(2-6) b b' sub(2-6) c d e by simp
qed

end
