(* ===== verification/A2600.thy ===== *)
theory A2600
  imports Emu6502
begin

text \<open>
  The Atari 2600 of \<^verbatim>\<open>userland/lib_a2600.c\<close>: memory map, RIOT timer, TIA register file with its capture of
  the state of each scan line, input, the frame loop and the renderer. The machine is the bus user of
  the processor of theory \<^verbatim>\<open>Emu6502\<close>, which is one of its members; the callbacks read the cycle counter
  of that processor. The five sprite structures of \<^verbatim>\<open>a2600_t\<close>, which no function reads or writes, are
  left out. \<^verbatim>\<open>cpu_ready\<close> says that \<^verbatim>\<open>emu6502_init\<close> has installed the callbacks.
\<close>

section \<open>State\<close>

record riot_timer =
  t_timer :: u8
  t_intim :: u8
  t_interval :: u16
  t_last_cycle :: u64
  t_underflow :: u8

record vis_line =
  v_valid :: bool
  v_grp0 :: u8
  v_grp1 :: u8
  v_colup0 :: u8
  v_colup1 :: u8
  v_refp0 :: u8
  v_refp1 :: u8
  v_nusiz0 :: u8
  v_nusiz1 :: u8
  v_x0 :: u8
  v_x1 :: u8
  v_m0_x :: u8
  v_m1_x :: u8
  v_ball_x :: u8
  v_m0_grp :: u8
  v_m1_grp :: u8
  v_ball_grp :: u8
  v_colupf :: u8
  v_colubk :: u8
  v_pf0 :: u8
  v_pf1 :: u8
  v_pf2 :: u8
  v_ctrlpf :: u8

record a2600 =
  rom :: "u8 list option"
  rom_size :: nat
  ram :: "u8 list"
  tia :: "u8 list"
  riot :: "u8 list"
  timer :: riot_timer
  cx :: "u8 list"
  mouse_x :: int
  mouse_y :: int
  button :: u8
  swcha :: u8
  swchb :: u8
  a_cycles :: u64
  frame_start_cycles :: u64
  vis :: "vis_line list"
  faulted :: bool
  fault_pc :: u16
  fault_opcode :: u8
  cpu_ready :: bool

text \<open>All zero, as \<^verbatim>\<open>memset\<close> leaves it. The eight collision registers \<^verbatim>\<open>cxm0p\<close> to \<^verbatim>\<open>cxppmm\<close> are the list \<^verbatim>\<open>cx\<close>, in
  the order of their addresses.\<close>

definition zero_line :: vis_line where
  "zero_line = \<lparr>v_valid = False, v_grp0 = 0, v_grp1 = 0, v_colup0 = 0, v_colup1 = 0, v_refp0 = 0, v_refp1 = 0,
     v_nusiz0 = 0, v_nusiz1 = 0, v_x0 = 0, v_x1 = 0, v_m0_x = 0, v_m1_x = 0, v_ball_x = 0, v_m0_grp = 0,
     v_m1_grp = 0, v_ball_grp = 0, v_colupf = 0, v_colubk = 0, v_pf0 = 0, v_pf1 = 0, v_pf2 = 0, v_ctrlpf = 0\<rparr>"

definition zero_a2600 :: a2600 where
  "zero_a2600 = \<lparr>rom = None, rom_size = 0, ram = replicate 128 0, tia = replicate 64 0, riot = replicate 32 0,
     timer = \<lparr>t_timer = 0, t_intim = 0, t_interval = 0, t_last_cycle = 0, t_underflow = 0\<rparr>, cx = replicate 8 0,
     mouse_x = 0, mouse_y = 0, button = 0, swcha = 0, swchb = 0, a_cycles = 0, frame_start_cycles = 0,
     vis = replicate 192 zero_line, faulted = False, fault_pc = 0, fault_opcode = 0, cpu_ready = False\<rparr>"

section \<open>Cartridge and timer\<close>

definition cart_offset :: "nat \<Rightarrow> u16 \<Rightarrow> u16" where
  "cart_offset sz addr =
    (let off = addr AND 0x0FFF
     in if sz = 2048 then off AND 0x07FF else if sz = 4096 then off AND 0x0FFF else off AND 0x0FFF)"

definition cart_read :: "a2600 \<Rightarrow> u16 \<Rightarrow> u8" where
  "cart_read a addr =
    (case rom a of
       None \<Rightarrow> 0xFF
     | Some r \<Rightarrow> if rom_size a = 0 then 0xFF else r ! unat (cart_offset (rom_size a) addr))"

definition riot_timer_update :: "regs \<Rightarrow> a2600 \<Rightarrow> a2600" where
  "riot_timer_update c a =
    (let t = timer a
     in if t_interval t = 0 then a
        else let elapsed = r_cycles c - t_last_cycle t;
                 ticks = elapsed div ucast (t_interval t);
                 t1 = (if ticks > 0
                       then (if ticks \<ge> ucast (t_timer t)
                             then t\<lparr>t_last_cycle := r_cycles c, t_timer := 0, t_underflow := 1\<rparr>
                             else t\<lparr>t_last_cycle := r_cycles c, t_timer := t_timer t - ucast ticks\<rparr>)
                       else t)
             in a\<lparr>timer := t1\<lparr>t_intim := t_timer t1\<rparr>\<rparr>)"

section \<open>The memory map\<close>

definition tia_read :: "a2600 \<Rightarrow> u16 \<Rightarrow> u8" where
  "tia_read a addr =
    (let reg = addr AND 0x3F
     in if reg \<le> 0x07 then cx a ! unat reg
        else if reg \<ge> 0x08 \<and> reg \<le> 0x0D then (if button a \<noteq> 0 then 0x00 else 0x80)
        else 0)"

definition riot_read :: "regs \<Rightarrow> a2600 \<Rightarrow> u16 \<Rightarrow> u8 \<times> a2600" where
  "riot_read c a addr =
    (let reg = addr AND 0x1F
     in if reg = 0x00 then (swcha a, a)
        else if reg = 0x02 then (swchb a, a)
        else if reg = 0x04 then (let a' = riot_timer_update c a in (t_intim (timer a'), a'))
        else (riot a ! unat reg, a))"

definition a2600_read8 :: "regs \<Rightarrow> a2600 \<Rightarrow> u16 \<Rightarrow> u8 \<times> a2600" where
  "a2600_read8 c a addr0 =
    (let addr = addr0 AND 0x1FFF
     in if addr < 0x80 then (tia_read a addr, a)
        else if addr \<ge> 0x80 \<and> addr \<le> 0xFF then (ram a ! unat (addr AND 0x7F), a)
        else if addr AND 0x0F80 = 0x0280 then riot_read c a addr
        else if addr \<ge> 0x1000 then (cart_read a addr, a)
        else (0xFF, a))"

text \<open>The beam position from the cycles since the start of the frame: pixel and scan line.\<close>

definition beam :: "regs \<Rightarrow> a2600 \<Rightarrow> u32 \<times> u32" where
  "beam c a =
    (let fc = (if r_cycles c \<ge> frame_start_cycles a then r_cycles c - frame_start_cycles a else 0);
         sl = ucast (fc div 76) :: u32;
         cyc_in = ucast (fc mod 76) :: u32;
         cc = cyc_in * 3;
         px = (cc * 160) div 228;
         px' = (if px > 159 then 159 else px)
     in (px', sl mod 192))"

definition capture_line :: "u8 list \<Rightarrow> vis_line \<Rightarrow> vis_line" where
  "capture_line t v = v\<lparr>v_colup0 := t ! 0x06, v_colup1 := t ! 0x07, v_colupf := t ! 0x08, v_colubk := t ! 0x09,
     v_pf0 := t ! 0x0D, v_pf1 := t ! 0x0E, v_pf2 := t ! 0x0F, v_ctrlpf := t ! 0x0A, v_grp0 := t ! 0x1B,
     v_grp1 := t ! 0x1C, v_refp0 := t ! 0x0B, v_refp1 := t ! 0x0C, v_nusiz0 := t ! 0x04, v_nusiz1 := t ! 0x05\<rparr>"

definition init_line :: "nat \<Rightarrow> a2600 \<Rightarrow> a2600" where
  "init_line y a =
    (if v_valid (vis a ! y) then a
     else let v = (if y > 0 \<and> v_valid (vis a ! (y - 1)) then vis a ! (y - 1)
                   else capture_line (tia a) (vis a ! y))
          in a\<lparr>vis := (vis a)[y := v\<lparr>v_valid := True\<rparr>]\<rparr>)"

definition tia_line :: "u16 \<Rightarrow> u8 \<Rightarrow> u8 \<Rightarrow> vis_line \<Rightarrow> vis_line" where
  "tia_line tr v px l =
    (if tr = 0x06 then l\<lparr>v_colup0 := v\<rparr> else if tr = 0x07 then l\<lparr>v_colup1 := v\<rparr>
     else if tr = 0x08 then l\<lparr>v_colupf := v\<rparr> else if tr = 0x09 then l\<lparr>v_colubk := v\<rparr>
     else if tr = 0x0D then l\<lparr>v_pf0 := v\<rparr> else if tr = 0x0E then l\<lparr>v_pf1 := v\<rparr>
     else if tr = 0x0F then l\<lparr>v_pf2 := v\<rparr> else if tr = 0x0A then l\<lparr>v_ctrlpf := v\<rparr>
     else if tr = 0x04 then l\<lparr>v_nusiz0 := v\<rparr> else if tr = 0x0B then l\<lparr>v_refp0 := v\<rparr>
     else if tr = 0x10 then l\<lparr>v_x0 := px\<rparr> else if tr = 0x1B then l\<lparr>v_grp0 := v\<rparr>
     else if tr = 0x05 then l\<lparr>v_nusiz1 := v\<rparr> else if tr = 0x0C then l\<lparr>v_refp1 := v\<rparr>
     else if tr = 0x11 then l\<lparr>v_x1 := px\<rparr> else if tr = 0x1C then l\<lparr>v_grp1 := v\<rparr>
     else if tr = 0x12 then l\<lparr>v_m0_x := px\<rparr> else if tr = 0x13 then l\<lparr>v_m1_x := px\<rparr>
     else if tr = 0x1D then l\<lparr>v_m0_grp := v\<rparr> else if tr = 0x1E then l\<lparr>v_m1_grp := v\<rparr>
     else if tr = 0x14 then l\<lparr>v_ball_x := px\<rparr> else if tr = 0x1F then l\<lparr>v_ball_grp := v\<rparr> else l)"

definition tia_write :: "regs \<Rightarrow> a2600 \<Rightarrow> u16 \<Rightarrow> u8 \<Rightarrow> a2600" where
  "tia_write c a addr v =
    (let reg = addr AND 0x3F;
         a1 = a\<lparr>tia := (tia a)[unat reg := v]\<rparr>;
         (px, y) = beam c a1;
         a2 = init_line (unat y) a1
     in if reg = 0x2C then a2\<lparr>cx := replicate 8 0\<rparr>
        else a2\<lparr>vis := (vis a2)[unat y := tia_line reg v (ucast px) (vis a2 ! unat y)]\<rparr>)"

definition riot_write :: "regs \<Rightarrow> a2600 \<Rightarrow> u16 \<Rightarrow> u8 \<Rightarrow> a2600" where
  "riot_write c a addr v =
    (let reg = addr AND 0x1F;
         a1 = a\<lparr>riot := (riot a)[unat reg := v]\<rparr>
     in if reg \<ge> 0x14 \<and> reg \<le> 0x17
        then a1\<lparr>timer := (timer a1)\<lparr>t_timer := v, t_last_cycle := r_cycles c, t_underflow := 0,
                 t_interval := (if reg = 0x14 then 1 else if reg = 0x15 then 8 else if reg = 0x16 then 64 else 1024)\<rparr>\<rparr>
        else a1)"

definition a2600_write8 :: "regs \<Rightarrow> a2600 \<Rightarrow> u16 \<Rightarrow> u8 \<Rightarrow> a2600" where
  "a2600_write8 c a addr0 v =
    (let addr = addr0 AND 0x1FFF
     in if addr < 0x80 then tia_write c a addr v
        else if addr \<ge> 0x80 \<and> addr \<le> 0xFF then a\<lparr>ram := (ram a)[unat (addr AND 0x7F) := v]\<rparr>
        else if addr AND 0x0F80 = 0x0280 then riot_write c a addr v
        else a)"

definition a2600_bus :: "a2600 bus" where
  "a2600_bus = \<lparr>read8 = a2600_read8, write8 = a2600_write8\<rparr>"

section \<open>Loading, input and the frame loop\<close>

text \<open>The result is the return value and the machine.\<close>

definition a2600_load_cart :: "u8 list option \<Rightarrow> nat \<Rightarrow> a2600 emu6502 \<Rightarrow> int \<times> a2600 emu6502" where
  "a2600_load_cart r sz m =
    (if r = None \<or> sz = 0 then (-1, m)
     else let a = zero_a2600\<lparr>rom := r, rom_size := sz\<rparr>
          in if \<not> (sz = 2048 \<or> sz = 4096 \<or> sz = 8192 \<or> sz = 16384)
             then (-2, \<lparr>cpu = \<lparr>r_pc = 0, r_a = 0, r_x = 0, r_y = 0, r_sp = 0, r_p = 0, r_cycles = 0\<rparr>, bus_user = a\<rparr>)
             else let a1 = a\<lparr>cpu_ready := True, swcha := 0xFF, swchb := 0x0B, mouse_x := 80, mouse_y := 96,
                           timer := (timer a)\<lparr>t_interval := 1024, t_timer := 0xFF, t_last_cycle := 0\<rparr>\<rparr>
                  in (0, snd (run_state (emu6502_reset a2600_bus) (emu6502_init a1))))"

definition a2600_update_input :: "int \<Rightarrow> int \<Rightarrow> u8 \<Rightarrow> a2600 \<Rightarrow> a2600" where
  "a2600_update_input mx my btn a =
    (let joy0 = 0xFF :: u8;
         joy1 = (if mx < 40 then joy0 AND NOT 0x40 else joy0);
         joy2 = (if mx > 120 then joy1 AND NOT 0x80 else joy1);
         joy3 = (if my < 48 then joy2 AND NOT 0x10 else joy2);
         joy4 = (if my > 144 then joy3 AND NOT 0x20 else joy3)
     in a\<lparr>mouse_x := mx, mouse_y := my, button := btn, swcha := joy4\<rparr>)"

text \<open>The body of the frame loop: the cycle count of the instruction and the machine after it. The
  opcode is read once more for the fault record before the instruction is executed.\<close>

definition frame_body :: "a2600 emu6502 \<Rightarrow> u32 \<times> a2600 emu6502" where
  "frame_body m =
    (let pc = r_pc (cpu m);
         (op, a1) = a2600_read8 (cpu m) (bus_user m) pc;
         a2 = riot_timer_update (cpu m) a1;
         (cyc, m') = run_state (emu6502_step a2600_bus) (m\<lparr>bus_user := a2\<rparr>)
     in if cyc = 0
        then (cyc, if faulted (bus_user m') then m'
                   else m'\<lparr>bus_user := (bus_user m')\<lparr>faulted := True, fault_pc := pc, fault_opcode := op\<rparr>\<rparr>)
        else (cyc, m'))"

text \<open>The loop may run for ever when the 64-bit counter wraps, so not ending is the value None, as is the
  call of a callback that is not installed.\<close>

partial_function (option) frame_loop :: "u64 \<Rightarrow> a2600 emu6502 \<Rightarrow> a2600 emu6502 option" where
  "frame_loop target m =
    (if r_cycles (cpu m) < target
     then if \<not> cpu_ready (bus_user m) then None
          else let (cyc, m') = frame_body m
               in if cyc = 0 then Some m' else frame_loop target m'
     else Some m)"

declare frame_loop.simps [code]

definition a2600_step_frame :: "a2600 emu6502 \<Rightarrow> a2600 emu6502 option" where
  "a2600_step_frame m =
    (let a = bus_user m;
         m1 = m\<lparr>bus_user := a\<lparr>frame_start_cycles := r_cycles (cpu m), vis := replicate 192 zero_line\<rparr>\<rparr>;
         frame_cycles = 312 * 76;
         target = r_cycles (cpu m) + frame_cycles
     in map_option (\<lambda>m2. m2\<lparr>bus_user := (bus_user m2)\<lparr>a_cycles := r_cycles (cpu m2)\<rparr>\<rparr>) (frame_loop target m1))"

section \<open>Rendering\<close>

definition hue_rgb :: "u32 \<Rightarrow> u32 \<Rightarrow> u32 \<times> u32 \<times> u32" where
  "hue_rgb hue v =
    (if hue = 0 then (v, v div 4, 0) else if hue = 1 then (v, v div 2, 0) else if hue = 2 then (v, v, 0)
     else if hue = 3 then (v * 3 div 4, v, 0) else if hue = 4 then (0, v, 0) else if hue = 5 then (0, v, v div 2)
     else if hue = 6 then (0, v, v) else if hue = 7 then (0, v * 3 div 4, v) else if hue = 8 then (0, 0, v)
     else if hue = 9 then (v div 2, 0, v) else if hue = 10 then (v, 0, v) else if hue = 11 then (v, 0, v * 3 div 4)
     else if hue = 12 then (v, 0, 0) else if hue = 13 then (v, v div 4, v div 8)
     else if hue = 14 then (v * 3 div 4, v div 8, 0) else (v div 2, v div 4, 0))"

definition clamp255 :: "u32 \<Rightarrow> u32" where
  "clamp255 x = (if x > 255 then 255 else x)"

definition tia_color_to_xrgb :: "u8 \<Rightarrow> u32" where
  "tia_color_to_xrgb c =
    (let hue = ucast (drop_bit 4 c) AND 0x0F;
         luma = drop_bit 1 (ucast c) AND 0x07;
         v = 32 + luma * 28;
         (r, g, b) = hue_rgb hue v
     in push_bit 16 (clamp255 r AND 0xFF) OR push_bit 8 (clamp255 g AND 0xFF) OR (clamp255 b AND 0xFF))"

definition playfield_bit :: "vis_line \<Rightarrow> nat \<Rightarrow> bool" where
  "playfield_bit l x =
    (let half = (x \<ge> 80);
         bn = (x mod 80) div 4;
         idx = (if half then (if v_ctrlpf l AND 0x01 \<noteq> 0 then 19 - bn else bn) else bn)
     in if idx < 4 then bit (v_pf0 l) (7 - idx)
        else if idx < 12 then bit (v_pf1 l) (11 - idx)
        else bit (v_pf2 l) (idx - 12))"

text \<open>An object of width \<^verbatim>\<open>1 << ((c >> 4) & 3)\<close> at a position covers a pixel.\<close>

definition object_hit :: "u8 \<Rightarrow> u8 \<Rightarrow> nat \<Rightarrow> bool" where
  "object_hit c pos x = (let dx = int x - uint pos in 0 \<le> dx \<and> dx < 2 ^ unat (drop_bit 4 c AND 3))"

definition sprite_hit :: "u8 \<Rightarrow> u8 \<Rightarrow> u8 \<Rightarrow> nat \<Rightarrow> bool" where
  "sprite_hit grp refp pos x =
    list_ex (\<lambda>i. bit grp (if refp AND 0x08 \<noteq> 0 then i else 7 - i) \<and> unat pos + i = x) [0..<8]"

definition pixel_color :: "vis_line \<Rightarrow> nat \<Rightarrow> u32" where
  "pixel_color l x =
    (let bg = tia_color_to_xrgb (v_colubk l);
         fg_pf = tia_color_to_xrgb (v_colupf l);
         col0 = tia_color_to_xrgb (v_colup0 l);
         col1 = tia_color_to_xrgb (v_colup1 l);
         priority = (v_ctrlpf l AND 0x04 \<noteq> 0);
         pf_bit = playfield_bit l x;
         (color, drawn) = (if priority \<and> pf_bit then (fg_pf, True) else (bg, False));
         (color, drawn) = (if \<not> drawn \<and> v_ball_grp l \<noteq> 0 \<and> object_hit (v_ctrlpf l) (v_ball_x l) x
                           then (fg_pf, True) else (color, drawn));
         (color, drawn) = (if drawn then (color, drawn)
                           else let (color, drawn) = (if v_m0_grp l \<noteq> 0 \<and> object_hit (v_nusiz0 l) (v_m0_x l) x
                                                      then (col0, True) else (color, drawn))
                                in if v_m1_grp l \<noteq> 0 \<and> object_hit (v_nusiz1 l) (v_m1_x l) x
                                   then (col1, True) else (color, drawn));
         (color, drawn) = (if drawn then (color, drawn)
                           else if sprite_hit (v_grp0 l) (v_refp0 l) (v_x0 l) x then (col0, True)
                           else if sprite_hit (v_grp1 l) (v_refp1 l) (v_x1 l) x then (col1, True)
                           else (color, drawn))
     in if \<not> drawn \<and> \<not> priority \<and> pf_bit then fg_pf else color)"

text \<open>The frame buffer is the list of the pixels that belong to it; a store past its end is None.\<close>

fun render_row :: "vis_line \<Rightarrow> nat \<Rightarrow> nat list \<Rightarrow> u32 list \<Rightarrow> u32 list option" where
  "render_row l off [] px = Some px"
| "render_row l off (x # xs) px =
    (if off + x < length px then render_row l off xs (px[off + x := pixel_color l x]) else None)"

fun render_rows :: "a2600 \<Rightarrow> u32 \<Rightarrow> nat list \<Rightarrow> u32 list \<Rightarrow> u32 list option" where
  "render_rows a pitch_words [] px = Some px"
| "render_rows a pitch_words (y # ys) px =
    Option.bind (render_row (vis a ! y) (unat (of_nat y * pitch_words)) [0..<160] px) (render_rows a pitch_words ys)"

definition a2600_render_full :: "a2600 \<Rightarrow> bool \<Rightarrow> u32 \<Rightarrow> u32 list \<Rightarrow> u32 list option" where
  "a2600_render_full a fmt_ok pitch_bytes px =
    (if \<not> fmt_ok then Some px else render_rows a (pitch_bytes div 4) [0..<192] px)"

end
