(* ===== verification/A2600_Correct.thy ===== *)
theory A2600_Correct
  imports A2600 Emu6502_Props
begin

text \<open>
  Correctness of the Atari 2600 machine: the sizes of its memories are kept by every access, so no
  access leaves them; a frame ends and never faults; the RIOT RAM behaves as memory for the processor,
  and the stack page does not; the renderer stays inside the frame buffer.
\<close>

section \<open>Well-formed machines\<close>

definition a2600_ok :: "a2600 \<Rightarrow> bool" where
  "a2600_ok a = (length (ram a) = 128 \<and> length (tia a) = 64 \<and> length (riot a) = 32 \<and> length (cx a) = 8 \<and>
     length (vis a) = 192 \<and> cpu_ready a \<and> \<not> faulted a \<and>
     (\<exists>r. rom a = Some r \<and> length r = rom_size a) \<and> rom_size a \<in> {2048, 4096, 8192, 16384})"

lemma timer_update_simps [simp]:
  "ram (riot_timer_update c a) = ram a" "tia (riot_timer_update c a) = tia a" "riot (riot_timer_update c a) = riot a"
  "cx (riot_timer_update c a) = cx a" "vis (riot_timer_update c a) = vis a" "cpu_ready (riot_timer_update c a) = cpu_ready a"
  "faulted (riot_timer_update c a) = faulted a" "rom (riot_timer_update c a) = rom a"
  "rom_size (riot_timer_update c a) = rom_size a" "frame_start_cycles (riot_timer_update c a) = frame_start_cycles a"
  by (simp_all add: riot_timer_update_def Let_def)

lemma timer_update_ok [simp]: "a2600_ok (riot_timer_update c a) = a2600_ok a"
  by (simp add: a2600_ok_def)

lemma read8_ok: "a2600_ok a \<Longrightarrow> a2600_ok (snd (a2600_read8 c a addr))"
  by (simp add: a2600_read8_def riot_read_def Let_def)

lemma ok_vis: "a2600_ok a \<Longrightarrow> a2600_ok (a\<lparr>vis := (vis a)[y := l]\<rparr>)"
  by (simp add: a2600_ok_def)

lemma ok_cx: "a2600_ok a \<Longrightarrow> a2600_ok (a\<lparr>cx := replicate 8 0\<rparr>)"
  by (simp add: a2600_ok_def)

lemma init_line_ok: "a2600_ok a \<Longrightarrow> a2600_ok (init_line y a)"
  by (simp add: init_line_def Let_def a2600_ok_def)

lemma write8_ok: "a2600_ok a \<Longrightarrow> a2600_ok (a2600_write8 c a addr v)"
proof -
  assume ok: "a2600_ok a"
  have "a2600_ok (tia_write c a x v)" for x
  proof -
    have "a2600_ok (init_line (unat y) (a\<lparr>tia := (tia a)[unat (x AND 0x3F) := v]\<rparr>))" for y :: u32
      by (rule init_line_ok) (use ok in \<open>simp add: a2600_ok_def\<close>)
    then show ?thesis unfolding tia_write_def Let_def by (auto split: prod.splits intro!: ok_vis ok_cx)
  qed
  then show ?thesis using ok by (auto simp: a2600_write8_def riot_write_def Let_def a2600_ok_def)
qed

interpretation atari: cpu_relation a2600_bus "\<lambda>s s'. a2600_ok (bus_user s) \<longrightarrow> a2600_ok (bus_user s')"
  by unfold_locales (auto simp: a2600_bus_def read8_ok write8_ok)

lemma step_ok:
  assumes "a2600_ok (bus_user m)" "run_state (emu6502_step a2600_bus) m = (cyc, m')"
  shows "a2600_ok (bus_user m')"
  using assms(2)
proof (rule emu6502_step_run)
  fix t
  assume run: "run_state (fetch8 a2600_bus \<bind> exec_op a2600_bus) m = (cyc, t)"
    and m': "m' = t\<lparr>cpu := (cpu t)\<lparr>r_cycles := r_cycles (cpu t) + ucast cyc\<rparr>\<rparr>"
  show ?thesis using state_io_relD [OF atari.fetch_exec run] assms(1) m' by simp
qed

section \<open>The frame loop\<close>

lemma frame_body_ok:
  assumes ok: "a2600_ok (bus_user m)" and body: "frame_body m = (cyc, m')"
  shows "a2600_ok (bus_user m')" and "2 \<le> cyc" "cyc \<le> 7" and "r_cycles (cpu m') = r_cycles (cpu m) + ucast cyc"
proof -
  obtain op a1 where rd: "a2600_read8 (cpu m) (bus_user m) (r_pc (cpu m)) = (op, a1)" by fastforce
  let ?m = "m\<lparr>bus_user := riot_timer_update (cpu m) a1\<rparr>"
  obtain k t where run: "run_state (emu6502_step a2600_bus) ?m = (k, t)" by fastforce
  have "a2600_ok a1" using read8_ok [OF ok, of "cpu m" "r_pc (cpu m)"] rd by simp
  then have "a2600_ok (bus_user t)" using step_ok [OF _ run] by simp
  note cycles = step_cycles [OF run]
  then have "k \<noteq> 0" by auto
  then have "cyc = k" "m' = t" using body rd run by (auto simp: frame_body_def)
  then show "a2600_ok (bus_user m')" "2 \<le> cyc" "cyc \<le> 7" "r_cycles (cpu m') = r_cycles (cpu m) + ucast cyc"
    using \<open>a2600_ok (bus_user t)\<close> cycles by simp_all
qed

lemma frame_loop_ends:
  assumes "a2600_ok (bus_user m)" "unat target + 7 < 2 ^ 64" "unat (r_cycles (cpu m)) \<le> unat target + 6"
  shows "\<exists>m'. frame_loop target m = Some m' \<and> a2600_ok (bus_user m') \<and> target \<le> r_cycles (cpu m') \<and>
    unat (r_cycles (cpu m')) \<le> unat target + 6"
  using assms
proof (induction "unat target + 6 - unat (r_cycles (cpu m))" arbitrary: m rule: less_induct)
  case less
  show ?case
  proof (cases "r_cycles (cpu m) < target")
    case False
    then have "frame_loop target m = Some m" by (simp add: frame_loop.simps)
    then show ?thesis using less.prems False by (simp add: word_le_nat_alt word_less_nat_alt)
  next
    case True
    obtain cyc t where body: "frame_body m = (cyc, t)" by fastforce
    note b = frame_body_ok [OF less.prems(1) body]
    have c: "2 \<le> unat cyc" "unat cyc \<le> 7" using b(2,3) by (simp_all add: word_le_nat_alt)
    have lt: "unat (r_cycles (cpu m)) < unat target" using True by (simp add: word_less_nat_alt)
    have "unat (ucast cyc :: u64) = unat cyc"
      using c(2) by (simp add: unsigned_ucast_eq take_bit_nat_eq_self)
    then have cyc': "unat (r_cycles (cpu t)) = unat (r_cycles (cpu m)) + unat cyc"
      using b(4) lt c less.prems(2) by (simp add: unat_word_ariths)
    have ready: "cpu_ready (bus_user m)" using less.prems(1) by (simp add: a2600_ok_def)
    have "cyc \<noteq> 0" using c by auto
    then have "frame_loop target m = frame_loop target t" using True ready body by (simp add: frame_loop.simps [of target m])
    then show ?thesis using less.hyps [OF _ b(1) less.prems(2)] cyc' c lt by simp
  qed
qed

text \<open>C11. A frame ends: on a loaded machine whose cycle counter is not within 23720 of its
  64-bit limit, \<^verbatim>\<open>a2600_step_frame\<close> returns, at least 23712 and at most 23718 cycles later, with the machine
  well-formed and not faulted, whatever the cartridge contains.\<close>

theorem a2600_frame_ends:
  assumes "a2600_ok (bus_user m)" and "unat (r_cycles (cpu m)) + 23712 + 7 < 2 ^ 64"
  shows "\<exists>m'. a2600_step_frame m = Some m' \<and> a2600_ok (bus_user m') \<and>
    unat (r_cycles (cpu m)) + 23712 \<le> unat (r_cycles (cpu m')) \<and>
    unat (r_cycles (cpu m')) \<le> unat (r_cycles (cpu m)) + 23718 \<and> a_cycles (bus_user m') = r_cycles (cpu m')"
proof -
  let ?m = "m\<lparr>bus_user := (bus_user m)\<lparr>frame_start_cycles := r_cycles (cpu m), vis := replicate 192 zero_line\<rparr>\<rparr>"
  let ?t = "r_cycles (cpu m) + 312 * 76"
  have t: "unat ?t = unat (r_cycles (cpu m)) + 23712" using assms(2) by (simp add: unat_word_ariths)
  have ok: "a2600_ok (bus_user ?m)" using assms(1) by (simp add: a2600_ok_def)
  obtain m' where m': "frame_loop ?t ?m = Some m'" "a2600_ok (bus_user m')" "?t \<le> r_cycles (cpu m')"
      "unat (r_cycles (cpu m')) \<le> unat ?t + 6"
    using frame_loop_ends [OF ok, of ?t] t assms(2) by auto
  have "a2600_ok (bus_user m' \<lparr>a_cycles := r_cycles (cpu m')\<rparr>)" using m'(2) by (simp add: a2600_ok_def)
  then show ?thesis using m' t by (simp add: a2600_step_frame_def Let_def word_le_nat_alt)
qed

section \<open>Sequences of calls\<close>

inductive a2600_reach :: "a2600 emu6502 \<Rightarrow> bool" where
  load: "length r = sz \<Longrightarrow> a2600_load_cart (Some r) sz m = (0, m') \<Longrightarrow> a2600_reach m'"
| input: "a2600_reach m \<Longrightarrow> a2600_reach (m\<lparr>bus_user := a2600_update_input mx my btn (bus_user m)\<rparr>)"
| frame: "a2600_reach m \<Longrightarrow> a2600_step_frame m = Some m' \<Longrightarrow> a2600_reach m'"

lemma reset_ok: "a2600_ok (bus_user s) \<Longrightarrow> a2600_ok (bus_user (snd (run_state (emu6502_reset a2600_bus) s)))"
  by (simp add: emu6502_reset_def upd_def r16_def r8_def a2600_bus_def split: prod.splits)
    (metis read8_ok snd_conv)

lemma load_cart_ok:
  assumes "length r = sz" "a2600_load_cart (Some r) sz m = (0, m')"
  shows "a2600_ok (bus_user m')"
proof -
  let ?a = "zero_a2600\<lparr>rom := Some r, rom_size := sz, cpu_ready := True, swcha := 0xFF, swchb := 0x0B, mouse_x := 80,
    mouse_y := 96, timer := (timer zero_a2600)\<lparr>t_interval := 1024, t_timer := 0xFF, t_last_cycle := 0\<rparr>\<rparr>"
  have sz: "sz \<in> {2048, 4096, 8192, 16384}" and m': "m' = snd (run_state (emu6502_reset a2600_bus) (emu6502_init ?a))"
    using assms(2) by (auto simp: a2600_load_cart_def Let_def zero_a2600_def split: if_splits)
  have "a2600_ok (bus_user (emu6502_init ?a))"
    using sz assms(1) by (simp add: a2600_ok_def emu6502_init_def zero_a2600_def)
  then show ?thesis unfolding m' by (rule reset_ok)
qed

lemma frame_loop_ok:
  assumes "frame_loop target m = Some m'"
  shows "a2600_ok (bus_user m) \<longrightarrow> a2600_ok (bus_user m')"
proof (rule frame_loop.raw_induct [OF _ assms])
  fix loop :: "u64 \<Rightarrow> a2600 emu6502 \<Rightarrow> a2600 emu6502 option" and target m m'
  assume IH: "\<And>x y z. loop x y = Some z \<Longrightarrow> a2600_ok (bus_user y) \<longrightarrow> a2600_ok (bus_user z)"
    and run: "(if r_cycles (cpu m) < target
      then if \<not> cpu_ready (bus_user m) then None
           else let (cyc, m') = frame_body m in if cyc = 0 then Some m' else loop target m'
      else Some m) = Some m'"
  obtain cyc t where body: "frame_body m = (cyc, t)" by fastforce
  show "a2600_ok (bus_user m) \<longrightarrow> a2600_ok (bus_user m')"
    using IH [of target t m'] run body frame_body_ok(1) [OF _ body] by (auto split: if_splits)
qed

lemma a2600_reach_ok: "a2600_reach m \<Longrightarrow> a2600_ok (bus_user m)"
proof (induction rule: a2600_reach.induct)
  case (load r sz m m')
  then show ?case by (rule load_cart_ok)
next
  case (input m mx my btn)
  then show ?case by (simp add: a2600_update_input_def Let_def a2600_ok_def)
next
  case (frame m m')
  let ?m = "m\<lparr>bus_user := (bus_user m)\<lparr>frame_start_cycles := r_cycles (cpu m), vis := replicate 192 zero_line\<rparr>\<rparr>"
  have "a2600_ok (bus_user ?m)" using frame.IH by (simp add: a2600_ok_def)
  moreover obtain t where "frame_loop (r_cycles (cpu m) + 312 * 76) ?m = Some t"
    "m' = t\<lparr>bus_user := (bus_user t)\<lparr>a_cycles := r_cycles (cpu t)\<rparr>\<rparr>"
    using frame.hyps(2) by (auto simp: a2600_step_frame_def Let_def)
  ultimately show ?case using frame_loop_ok [of "r_cycles (cpu m) + 312 * 76" ?m t] by (simp add: a2600_ok_def)
qed

lemma unat_and_mask: "unat (x AND mask n :: u16) < 2 ^ n"
  by (simp flip: take_bit_eq_mask) (simp add: unsigned_take_bit_eq)

lemma cart_offset_less:
  assumes "sz \<in> {2048, 4096, 8192, 16384}"
  shows "unat (cart_offset sz addr) < sz"
proof -
  have m: "(0x0FFF :: u16) = mask 12" "(0x07FF :: u16) = mask 11" by (simp_all add: mask_eq_exp_minus_1)
  show ?thesis
    using assms unat_and_mask [of "addr AND mask 12" 11] unat_and_mask [of "addr AND mask 12" 12]
    by (auto simp: cart_offset_def Let_def m)
qed

text \<open>C26. In every machine reached from a loaded cartridge by frames and input, the memories
  have their declared sizes, every address reads the cartridge inside the image, the beam position is a
  line of the 192 captured and a pixel of the 160, and no fault is recorded.\<close>

theorem a2600_memory_safe:
  assumes "a2600_reach m"
  shows "length (ram (bus_user m)) = 128 \<and> length (tia (bus_user m)) = 64 \<and> length (riot (bus_user m)) = 32 \<and>
    length (cx (bus_user m)) = 8 \<and> length (vis (bus_user m)) = 192 \<and> \<not> faulted (bus_user m) \<and>
    (\<exists>r. rom (bus_user m) = Some r \<and> (\<forall>addr. unat (cart_offset (rom_size (bus_user m)) addr) < length r)) \<and>
    (\<forall>c. unat (snd (beam c (bus_user m))) < 192 \<and> fst (beam c (bus_user m)) \<le> 159)"
proof -
  have ok: "a2600_ok (bus_user m)" by (rule a2600_reach_ok [OF assms])
  then have "\<exists>r. rom (bus_user m) = Some r \<and> (\<forall>addr. unat (cart_offset (rom_size (bus_user m)) addr) < length r)"
    using cart_offset_less unfolding a2600_ok_def by metis
  moreover have "unat (snd (beam c a)) < 192 \<and> fst (beam c a) \<le> 159" for c a
    by (auto simp: beam_def Let_def unat_mod_distrib)
  ultimately show ?thesis using ok unfolding a2600_ok_def by blast
qed

section \<open>The stack page\<close>

lemma bit_256: "bit (256 :: u16) n \<longleftrightarrow> n = 8"
  using bit_exp_iff [where 'a = "16 word", of 8 n] by (auto dest: bit_imp_le_length)

lemma stack_addr_unat: "unat (stack_addr sp) = 256 + unat sp"
proof -
  have "256 AND ucast sp = (0 :: u16)"
  proof (rule bit_word_eqI)
    fix n
    have "\<not> bit sp 8" using bit_imp_le_length [of sp 8] by auto
    then show "bit (256 AND ucast sp :: u16) n \<longleftrightarrow> bit (0 :: u16) n"
      unfolding bit_and_iff bit_256 bit_ucast_iff by auto
  qed
  then have "stack_addr sp = 256 + ucast sp" using disjunctive_add_eq_or [of 256 "ucast sp :: u16"] by (simp add: stack_addr_def)
  then show ?thesis
    using byte_less(1) [of sp] by (simp add: unat_word_ariths unsigned_ucast_eq take_bit_nat_eq_self)
qed

lemma stack_addr_map:
  "stack_addr sp AND 0x1FFF = stack_addr sp" "stack_addr sp AND 0x0F80 \<noteq> 0x0280"
proof -
  have "(0x1FFF :: u16) = mask 13" by (simp add: mask_eq_exp_minus_1)
  then have "stack_addr sp AND 0x1FFF = take_bit 13 (stack_addr sp)" by (simp only: take_bit_eq_mask)
  moreover have "take_bit 13 (stack_addr sp) = stack_addr sp"
    unfolding word_unat_eq_iff unsigned_take_bit_eq
    using byte_less(1) [of sp] stack_addr_unat [of sp] by (simp add: take_bit_nat_eq_self)
  ultimately show "stack_addr sp AND 0x1FFF = stack_addr sp" by simp
  have "bit (stack_addr sp AND 0x0F80) 9 \<noteq> bit (0x0280 :: u16) 9" 
     by (auto simp: stack_addr_def bit_simps dest: bit_imp_le_length)
  then show "stack_addr sp AND 0x0F80 \<noteq> 0x0280" by metis
qed

lemma stack_read: "a2600_read8 c a (stack_addr sp) = (0xFF, a)"
  using stack_addr_unat [of sp] byte_less(1) [of sp]
  by (simp add: a2600_read8_def Let_def stack_addr_map word_less_nat_alt word_le_nat_alt)

lemma cartridge_hole: "a2600_read8 c a 0x1280 = (swcha a, a)"
  by (simp add: a2600_read8_def riot_read_def Let_def)

lemma stack_write: "a2600_write8 c a (stack_addr sp) v = a"
  using stack_addr_unat [of sp] byte_less(1) [of sp]
  by (simp add: a2600_write8_def Let_def stack_addr_map word_less_nat_alt word_le_nat_alt)

text \<open>C36. The stack of the processor is not memory on this machine: page one is not decoded,
  so a push stores nothing, a pull reads 0xFF, and a return from subroutine always continues at address
  0, whatever was pushed. (The 2600 mirrors its RAM there.)
  The address decoding also takes part of the cartridge for the RIOT chip: a read at 0x1280 returns the
  joystick port.\<close>

theorem a2600_stack_lost:
  "run_state (push8 a2600_bus v) m = ((), m\<lparr>cpu := (cpu m)\<lparr>r_sp := r_sp (cpu m) - 1\<rparr>\<rparr>) \<and>
   run_state (pop8 a2600_bus) m = (0xFF, m\<lparr>cpu := (cpu m)\<lparr>r_sp := r_sp (cpu m) + 1\<rparr>\<rparr>) \<and>
   run_state (rts a2600_bus) m = (6, m\<lparr>cpu := (cpu m)\<lparr>r_sp := r_sp (cpu m) + 2, r_pc := 0\<rparr>\<rparr>) \<and>
   a2600_read8 c a 0x1280 = (swcha a, a)"
  using cartridge_hole
  by (simp add: rts_def push8_def pop8_def upd_def reg_def r8_def w8_def a2600_bus_def stack_read stack_write)

section \<open>The RAM\<close>

text \<open>A part of the address space that is memory: what a read returns after a write, and that a read
  changes nothing.\<close>

locale ram_bus =
  fixes B :: "'b bus" and R :: "u16 set" and ok :: "'b \<Rightarrow> bool"
  assumes ok_write: "ok u \<Longrightarrow> a \<in> R \<Longrightarrow> ok (write8 B c u a v)"
    and read_keeps: "ok u \<Longrightarrow> a \<in> R \<Longrightarrow> snd (read8 B c u a) = u"
    and read_same: "ok u \<Longrightarrow> a \<in> R \<Longrightarrow> fst (read8 B c (write8 B d u a v) a) = v"
    and read_other: "ok u \<Longrightarrow> a \<in> R \<Longrightarrow> b \<in> R \<Longrightarrow> a \<noteq> b \<Longrightarrow> fst (read8 B c (write8 B d u a v) b) = fst (read8 B e u b)"
begin

lemma run_r8: "ok (bus_user s) \<Longrightarrow> a \<in> R \<Longrightarrow> run_state (r8 B a) s = (fst (read8 B (cpu s) (bus_user s) a), s)"
  using read_keeps [of "bus_user s" a "cpu s"] by (cases "read8 B (cpu s) (bus_user s) a") (simp add: r8_def)

lemma store_load:
  assumes "ok (bus_user s)" "a \<in> R"
  shows "run_state (do { store_reg B (return a) r n; load_x B (return a) k }) s =
    (k, s\<lparr>bus_user := write8 B (cpu s) (bus_user s) a (r (cpu s)),
          cpu := (cpu s)\<lparr>r_x := r (cpu s), r_p := flag F_N (r (cpu s) AND 0x80 \<noteq> 0) (flag F_Z (r (cpu s) = 0) (r_p (cpu s)))\<rparr>\<rparr>)"
proof -
  let ?u = "write8 B (cpu s) (bus_user s) a (r (cpu s))"
  have "run_state (r8 B a) (s\<lparr>bus_user := ?u\<rparr>) = (r (cpu s), s\<lparr>bus_user := ?u\<rparr>)"
    using run_r8 [of "s\<lparr>bus_user := ?u\<rparr>" a] ok_write [OF assms] read_same [OF assms] assms(2) by simp
  then show ?thesis
    by (simp add: store_reg_def load_x_def reg_def w8_def upd_def set_zn_def set_flag_def)
qed

lemma inc_cell:
  fixes f :: "u8 \<Rightarrow> u8" and n :: u32
  assumes "ok (bus_user s)" "a \<in> R"
  defines "s' \<equiv> snd (run_state (inc_mem B f (return a) n) s)"
  shows "fst (read8 B c (bus_user s') a) = f (fst (read8 B (cpu s) (bus_user s) a))"
    and "b \<in> R \<Longrightarrow> b \<noteq> a \<Longrightarrow> fst (read8 B c (bus_user s') b) = fst (read8 B d (bus_user s) b)"
proof -
  have "bus_user s' = write8 B (cpu s) (bus_user s) a (f (fst (read8 B (cpu s) (bus_user s) a)))"
    by (simp add: s'_def inc_mem_def run_r8 [OF assms(1,2)] w8_def set_zn_def set_flag_def upd_def)
  then show "fst (read8 B c (bus_user s') a) = f (fst (read8 B (cpu s) (bus_user s) a))"
    and "b \<in> R \<Longrightarrow> b \<noteq> a \<Longrightarrow> fst (read8 B c (bus_user s') b) = fst (read8 B d (bus_user s) b)"
    using read_same [OF assms(1,2)] read_other [OF assms(1,2), of b c "cpu s" _ d] by simp_all
qed

end

lemma ram_addr:
  assumes "(a :: u16) \<in> {0x80..0xFF}"
  shows "a AND 0x1FFF = a" "unat (a AND 0x7F) = unat a - 128" "\<not> a < 0x80"
proof -
  have r: "128 \<le> unat a" "unat a \<le> 255" using assms by (auto simp: word_le_nat_alt)
  have "(0x1FFF :: u16) = mask 13" by (simp add: mask_eq_exp_minus_1)
  then have "a AND 0x1FFF = take_bit 13 a" by (simp only: take_bit_eq_mask)
  moreover have "take_bit 13 a = a"
    unfolding word_unat_eq_iff unsigned_take_bit_eq using r by (simp add: take_bit_nat_eq_self)
  ultimately show "a AND 0x1FFF = a" by simp
  have "(0x7F :: u16) = mask 7" by (simp add: mask_eq_exp_minus_1)
  then have "a AND 0x7F = take_bit 7 a" by (simp only: take_bit_eq_mask)
  then have "unat (a AND 0x7F) = unat a mod 128"
    by (simp only: unsigned_take_bit_eq) (simp add: take_bit_eq_mod)
  also have "\<dots> = (unat a - 128) mod 128" using r(1) by (metis le_mod_geq)
  finally show "unat (a AND 0x7F) = unat a - 128" using r by simp
  show "\<not> a < 0x80" using r(1) by (simp add: word_less_nat_alt)
qed

lemma ram_read:
  assumes "a \<in> {0x80..0xFF}"
  shows "a2600_read8 c u a = (ram u ! (unat a - 128), u)"
    and "a2600_write8 c u a v = u\<lparr>ram := (ram u)[unat a - 128 := v]\<rparr>"
  using assms by (simp_all add: a2600_read8_def a2600_write8_def Let_def ram_addr [OF assms])

interpretation riot_ram: ram_bus a2600_bus "{0x80..0xFF}" a2600_ok
proof unfold_locales
  fix u :: a2600 and a b :: u16 and c d e v
  assume ok: "a2600_ok u" and a: "a \<in> {0x80..0xFF}"
  have len: "unat a - 128 < length (ram u)"
    using ok a by (auto simp: a2600_ok_def word_le_nat_alt)
  show "a2600_ok (write8 a2600_bus c u a v)" using write8_ok [OF ok] by (simp add: a2600_bus_def)
  show "snd (read8 a2600_bus c u a) = u" by (simp add: a2600_bus_def ram_read [OF a])
  show "fst (read8 a2600_bus c (write8 a2600_bus d u a v) a) = v"
    using len by (simp add: a2600_bus_def ram_read [OF a])
  assume b: "b \<in> {0x80..0xFF}" and ne: "a \<noteq> b"
  have "unat a \<noteq> unat b" "128 \<le> unat a" "128 \<le> unat b" using ne a b by (auto simp: word_unat_eq_iff word_le_nat_alt)
  then have "unat a - 128 \<noteq> unat b - 128" by simp
  then show "fst (read8 a2600_bus c (write8 a2600_bus d u a v) b) = fst (read8 a2600_bus e u b)"
    by (simp add: a2600_bus_def ram_read [OF a] ram_read [OF b])
qed

text \<open>The addresses 0x80 to 0xFF are memory for the processor: a store followed by a load
  of the cell gives back the register, and increment changes the cell to its value plus one (wrapping)
  and no other cell.\<close>

lemma a2600_ram_is_memory:
  assumes "a2600_ok (bus_user m)" and "a \<in> {0x80..0xFF}" and "b \<in> {0x80..0xFF}" and "b \<noteq> a"
  shows "r_x (cpu (snd (run_state (do { store_reg a2600_bus (return a) r n; load_x a2600_bus (return a) k }) m))) = r (cpu m) \<and>
    fst (a2600_read8 c (bus_user (snd (run_state (inc_mem a2600_bus (\<lambda>v. v + 1) (return a) n) m))) a) =
      fst (a2600_read8 c (bus_user m) a) + 1 \<and>
    fst (a2600_read8 c (bus_user (snd (run_state (inc_mem a2600_bus (\<lambda>v. v + 1) (return a) n) m))) b) =
      fst (a2600_read8 c (bus_user m) b)"
proof -
  have eq: "read8 a2600_bus = a2600_read8" by (simp add: a2600_bus_def)
  have c: "fst (a2600_read8 (cpu m) (bus_user m) a) = fst (a2600_read8 c (bus_user m) a)"
    by (simp add: ram_read [OF assms(2)])
  have "r_x (cpu (snd (run_state (do { store_reg a2600_bus (return a) r n; load_x a2600_bus (return a) k }) m))) = r (cpu m)"
    unfolding riot_ram.store_load [OF assms(1,2)] by simp
  then show ?thesis
    using riot_ram.inc_cell(1) [OF assms(1,2), of c "\<lambda>v. v + 1" n]
      riot_ram.inc_cell(2) [OF assms(1-4), of c "\<lambda>v. v + 1" n c] unfolding eq c by blast
qed

section \<open>Rendering\<close>

lemma render_row_pixels:
  assumes "\<And>x. x \<in> set xs \<Longrightarrow> off + x < length px"
  shows "\<exists>px'. render_row l off xs px = Some px' \<and> length px' = length px \<and>
    (\<forall>i<length px. px' ! i = (if off \<le> i \<and> i - off \<in> set xs then pixel_color l (i - off) else px ! i))"
  using assms
proof (induction xs arbitrary: px)
  case (Cons x xs)
  obtain px' where px': "render_row l off xs (px[off + x := pixel_color l x]) = Some px'" "length px' = length px"
      "\<forall>i<length px. px' ! i = (if off \<le> i \<and> i - off \<in> set xs then pixel_color l (i - off) else px[off + x := pixel_color l x] ! i)"
    using Cons.IH [of "px[off + x := pixel_color l x]"] Cons.prems by auto
  have "px' ! i = (if off \<le> i \<and> i - off \<in> set (x # xs) then pixel_color l (i - off) else px ! i)" if "i < length px" for i
    using px'(3) that by (cases "i = off + x") auto
  then show ?case using px'(1,2) Cons.prems by auto
qed simp

lemma row_of_index:
  assumes "160 \<le> (pw :: nat)"
  shows "(y * pw \<le> i \<and> i - y * pw < 160) \<longleftrightarrow> (i div pw = y \<and> i mod pw < 160)"
proof
  assume "y * pw \<le> i \<and> i - y * pw < 160"
  then obtain x where "i = y * pw + x" "x < 160" by (metis le_add_diff_inverse)
  then show "i div pw = y \<and> i mod pw < 160" using assms by simp
next
  assume "i div pw = y \<and> i mod pw < 160"
  then show "y * pw \<le> i \<and> i - y * pw < 160" by (metis div_mult_mod_eq le_add1 add_diff_cancel_left')
qed

lemma render_rows_pixels:
  assumes pw: "160 \<le> unat pw" "unat pw * 192 < 2 ^ 32" and len: "191 * unat pw + 160 \<le> length px"
    and ys: "\<And>y. y \<in> set ys \<Longrightarrow> y < 192"
  shows "\<exists>px'. render_rows a pw ys px = Some px' \<and> length px' = length px \<and>
    (\<forall>i<length px. px' ! i = (if i div unat pw \<in> set ys \<and> i mod unat pw < 160
       then pixel_color (vis a ! (i div unat pw)) (i mod unat pw) else px ! i))"
  using len ys
proof (induction ys arbitrary: px)
  case (Cons y ys)
  have y: "y < 192" using Cons.prems(2) by simp
  then have le: "y * unat pw \<le> 191 * unat pw" by (intro mult_right_mono) simp_all
  have small: "y * unat pw < 2 ^ 32" using le pw(2) by linarith
  have off: "unat (of_nat y * pw) = y * unat pw" "y * unat pw + 160 \<le> length px"
    subgoal using small y by (simp add: unat_word_ariths unat_of_nat)
    subgoal using le Cons.prems(1) by linarith
    done
  obtain p1 where p1: "render_row (vis a ! y) (y * unat pw) [0..<160] px = Some p1" "length p1 = length px"
      "\<forall>i<length px. p1 ! i = (if y * unat pw \<le> i \<and> i - y * unat pw < 160
         then pixel_color (vis a ! y) (i - y * unat pw) else px ! i)"
    using render_row_pixels [of "[0..<160]" "y * unat pw" px "vis a ! y"] off(2) by auto
  obtain p2 where p2: "render_rows a pw ys p1 = Some p2" "length p2 = length px"
      "\<forall>i<length px. p2 ! i = (if i div unat pw \<in> set ys \<and> i mod unat pw < 160
         then pixel_color (vis a ! (i div unat pw)) (i mod unat pw) else p1 ! i)"
    using Cons.IH [of p1] p1(2) Cons.prems by auto
  have "p2 ! i = (if i div unat pw \<in> set (y # ys) \<and> i mod unat pw < 160
       then pixel_color (vis a ! (i div unat pw)) (i mod unat pw) else px ! i)" if "i < length px" for i
    using p2(3) p1(3) that row_of_index [OF pw(1), of y i] by (auto simp: minus_div_mult_eq_mod)
  then show ?case using p1(1) p2(1,2) off(1) by (simp del: upt_Suc)
qed simp

text \<open>C25. With a pitch of at least 640 bytes and a frame buffer of 192 lines of that pitch, the
  renderer stores nothing outside the buffer, leaves the pixels right of column 160 and below line 192
  as they are, and every other pixel gets the colour of its captured line and column.\<close>

theorem a2600_render_correct:
  assumes "160 \<le> unat (pitch div 4)" and "unat (pitch div 4) * 192 < 2 ^ 32" and "191 * unat (pitch div 4) + 160 \<le> length px"
  shows "\<exists>px'. a2600_render_full a True pitch px = Some px' \<and> length px' = length px \<and>
    (\<forall>i<length px. px' ! i = (if i div unat (pitch div 4) < 192 \<and> i mod unat (pitch div 4) < 160
       then pixel_color (vis a ! (i div unat (pitch div 4))) (i mod unat (pitch div 4)) else px ! i))"
  using render_rows_pixels [OF assms, of "[0..<192]" a] by (simp add: a2600_render_full_def del: upt_Suc)

section \<open>Witnesses\<close>

text \<open>A machine with a cartridge of 2048 zero bytes (BRK instructions).\<close>

definition demo_machine :: "a2600 emu6502" where
  "demo_machine = emu6502_init (zero_a2600\<lparr>rom := Some (replicate 2048 0), rom_size := 2048, cpu_ready := True\<rparr>)"

lemma demo_ok: "a2600_ok (bus_user demo_machine)"
  by (simp add: demo_machine_def emu6502_init_def a2600_ok_def zero_a2600_def)

theorem a2600_frame_ends_witness:
  "\<exists>m'. a2600_step_frame demo_machine = Some m' \<and> 23712 \<le> unat (r_cycles (cpu m')) \<and> unat (r_cycles (cpu m')) \<le> 23718"
proof -
  have "r_cycles (cpu demo_machine) = 0" by (simp add: demo_machine_def emu6502_init_def)
  then show ?thesis using a2600_frame_ends [OF demo_ok] by auto
qed

theorem a2600_memory_safe_witness:
  "length (ram (bus_user (snd (a2600_load_cart (Some (replicate 2048 0)) 2048 demo_machine)))) = 128 \<and>
   \<not> faulted (bus_user (snd (a2600_load_cart (Some (replicate 2048 0)) 2048 demo_machine)))"
proof -
  have "fst (a2600_load_cart (Some (replicate 2048 0)) 2048 demo_machine) = 0"
    by (simp add: a2600_load_cart_def Let_def)
  then have "a2600_reach (snd (a2600_load_cart (Some (replicate 2048 0)) 2048 demo_machine))"
    by (intro a2600_reach.load [of "replicate 2048 0" 2048 demo_machine]) (simp_all add: prod_eq_iff)
  from a2600_memory_safe [OF this] show ?thesis by simp
qed

lemma a2600_ram_is_memory_example:
  "r_x (cpu (snd (run_state (do { store_reg a2600_bus (return 0x80) r_sp 3; load_x a2600_bus (return 0x80) 3 }) demo_machine))) = 0xFD"
  using a2600_ram_is_memory [OF demo_ok, of "0x80" "0x81" r_sp 3 3 "cpu demo_machine"]
  by (simp add: demo_machine_def emu6502_init_def)

theorem a2600_render_correct_witness:
  "\<exists>px'. a2600_render_full zero_a2600 True 640 (replicate 30720 0) = Some px' \<and> length px' = 30720 \<and>
     px' ! 0 = pixel_color zero_line 0"
  using a2600_render_correct [of 640 "replicate 30720 0" zero_a2600] by (auto simp: zero_a2600_def)

end
