(* ===== verification/Proc_Table.thy ===== *)
theory Proc_Table
  imports Prelude "HOL-Library.Monad_Syntax"
begin

unbundle bit_operations_syntax

text \<open>
  Processes and the process table of \<^verbatim>\<open>kernel/process/process_table.c\<close>. A pointer to a process is an
  address, a natural number; the kernel state holds the process structures as a map from addresses, so
  that the table, the family links and the run queue can share them. A null pointer is None, and a use
  of an address with no structure makes the operation None. The record has the fields of \<^verbatim>\<open>process_t\<close>
  that the modelled functions use. \<^verbatim>\<open>kmalloc\<close> and \<^verbatim>\<open>kzalloc\<close> answer with an argument of the operation;
  the addresses given to \<^verbatim>\<open>kfree\<close> for process structures leave the map. Locks and the serial log are not
  part of the state.
\<close>

section \<open>State\<close>

datatype process_state =
  PROCESS_STATE_UNUSED | PROCESS_STATE_EMBRYO | PROCESS_STATE_RUNNABLE | PROCESS_STATE_RUNNING
| PROCESS_STATE_SLEEPING | PROCESS_STATE_ZOMBIE

text \<open>READY is an alias of RUNNABLE, TERMINATED one of ZOMBIE.\<close>

abbreviation PROCESS_STATE_READY :: process_state where "PROCESS_STATE_READY \<equiv> PROCESS_STATE_RUNNABLE"

abbreviation PROCESS_MAX_FDS :: nat where "PROCESS_MAX_FDS \<equiv> 256"

record process =
  pid :: u32
  ppid :: u32
  pgid :: u32
  refcount :: u32
  state :: process_state
  exit_code :: int
  vruntime :: u64
  nice :: int
  weight :: u32
  need_resched :: bool
  fd_table :: "nat option list"
  p_parent :: "nat option"
  children :: "nat option"
  sibling_next :: "nat option"
  sibling_prev :: "nat option"
  wait_channel :: "nat option"
  pending_signals :: u64
  blocked_signals :: u64
  signal_handlers :: "u64 list"

text \<open>The run queue of \<^verbatim>\<open>scheduler.c\<close>: tree nodes in an address map of their own.\<close>

record rb_node =
  n_left :: "nat option"
  n_right :: "nat option"
  n_parent :: "nat option"
  n_red :: bool
  n_process :: nat
  n_vruntime :: u64

record sched_state =
  nodes :: "nat \<rightharpoonup> rb_node"
  root :: "nat option"
  leftmost :: "nat option"
  min_vruntime :: u64
  clock_ticks :: u64
  sched_nodes :: "nat option list"
  sched_enabled :: bool

abbreviation MAX_PROCESSES :: nat where "MAX_PROCESSES \<equiv> 256"

record kernel =
  procs :: "nat \<rightharpoonup> process"
  process_table :: "nat option list"
  current :: "nat option"
  next_pid :: u32
  sched :: sched_state

text \<open>The structure behind a pointer, and a change of one.\<close>

definition proc_at :: "kernel \<Rightarrow> nat option \<Rightarrow> process option" where
  "proc_at k p = Option.bind p (procs k)"

definition upd_proc :: "nat \<Rightarrow> (process \<Rightarrow> process) \<Rightarrow> kernel \<Rightarrow> kernel option" where
  "upd_proc a f k = map_option (\<lambda>p. k\<lparr>procs := (procs k)(a \<mapsto> f p)\<rparr>) (procs k a)"

section \<open>The table\<close>

definition process_table_init :: "kernel \<Rightarrow> kernel" where
  "process_table_init k = k\<lparr>process_table := replicate MAX_PROCESSES None, next_pid := 1, current := None\<rparr>"

definition pid_after :: "u32 \<Rightarrow> u32" where
  "pid_after p = (if p + 1 < of_nat MAX_PROCESSES then p + 1 else 1)"

text \<open>The loop of \<^verbatim>\<open>process_alloc_pid\<close>, over the number of rounds left.\<close>

fun alloc_pid_loop :: "nat \<Rightarrow> kernel \<Rightarrow> u32 \<times> kernel" where
  "alloc_pid_loop 0 k = (0, k)"
| "alloc_pid_loop (Suc n) k =
    (let p = next_pid k; k' = k\<lparr>next_pid := pid_after p\<rparr>
     in if p = 0 then alloc_pid_loop n k'
        else if process_table k ! unat p = None then (p, k')
        else alloc_pid_loop n k')"

definition process_alloc_pid :: "kernel \<Rightarrow> u32 \<times> kernel" where
  "process_alloc_pid k = alloc_pid_loop (MAX_PROCESSES - 1) k"

text \<open>The first free slot from \<^verbatim>\<open>next_pid\<close> on, then from 1; 0 when the table is full.\<close>

definition find_slot :: "kernel \<Rightarrow> nat" where
  "find_slot k =
    (case find (\<lambda>i. process_table k ! i = None) [unat (next_pid k)..<MAX_PROCESSES] of
       Some i \<Rightarrow> if i = 0 then (case find (\<lambda>i. process_table k ! i = None) [1..<unat (next_pid k)] of Some j \<Rightarrow> j | None \<Rightarrow> 0) else i
     | None \<Rightarrow> (case find (\<lambda>i. process_table k ! i = None) [1..<unat (next_pid k)] of Some j \<Rightarrow> j | None \<Rightarrow> 0))"

definition blank_process :: process where
  "blank_process = \<lparr>pid = 0, ppid = 0, pgid = 0, refcount = 0, state = PROCESS_STATE_UNUSED, exit_code = 0, vruntime = 0, nice = 0,
     weight = 0, need_resched = False, fd_table = replicate PROCESS_MAX_FDS None, p_parent = None, children = None,
     sibling_next = None, sibling_prev = None, wait_channel = None, pending_signals = 0, blocked_signals = 0,
     signal_handlers = replicate 64 0\<rparr>"

text \<open>The arguments are the addresses that the two \<^verbatim>\<open>kmalloc\<close> calls return, for the structure and for
  the FPU area.\<close>

definition process_alloc :: "nat option \<Rightarrow> nat option \<Rightarrow> kernel \<Rightarrow> nat option \<times> kernel" where
  "process_alloc mem fpu k =
    (let slot = find_slot k
     in if slot = 0 then (None, k)
        else case mem of
          None \<Rightarrow> (None, k)
        | Some a \<Rightarrow>
            if fpu = None then (None, k)
            else (Some a, k\<lparr>procs := (procs k)(a \<mapsto> blank_process\<lparr>pid := of_nat slot, refcount := 1, state := PROCESS_STATE_EMBRYO\<rparr>),
                            process_table := (process_table k)[slot := Some a],
                            next_pid := (if slot + 1 < MAX_PROCESSES then of_nat (slot + 1) else 1)\<rparr>))"

definition process_free :: "nat \<Rightarrow> kernel \<Rightarrow> kernel option" where
  "process_free a k = do {
     p \<leftarrow> procs k a;
     let k1 = (if unat (pid p) < MAX_PROCESSES \<and> process_table k ! unat (pid p) = Some a
               then k\<lparr>process_table := (process_table k)[unat (pid p) := None]\<rparr> else k);
     Some (k1\<lparr>procs := (procs k1)(a := None)\<rparr>)
   }"

definition process_find :: "u32 \<Rightarrow> kernel \<Rightarrow> nat option" where
  "process_find i k = (if unat i \<ge> MAX_PROCESSES then None else process_table k ! unat i)"

definition process_register :: "nat option \<Rightarrow> kernel \<Rightarrow> (int \<times> kernel) option" where
  "process_register a k =
    (case a of
       None \<Rightarrow> Some (-1, k)
     | Some a \<Rightarrow> do {
         p \<leftarrow> procs k a;
         if pid p = 0 \<or> unat (pid p) \<ge> MAX_PROCESSES then Some (-1, k)
         else if process_table k ! unat (pid p) \<noteq> None then Some (-1, k)
         else Some (0, k\<lparr>process_table := (process_table k)[unat (pid p) := Some a]\<rparr>)
       })"

definition process_unregister :: "u32 \<Rightarrow> kernel \<Rightarrow> int \<times> kernel" where
  "process_unregister i k =
    (if unat i \<ge> MAX_PROCESSES then (-1, k)
     else if process_table k ! unat i = None then (-1, k)
     else (0, k\<lparr>process_table := (process_table k)[unat i := None]\<rparr>))"

definition process_get_by_pid :: "u32 \<Rightarrow> kernel \<Rightarrow> nat option" where
  "process_get_by_pid i k = process_find i k"

end
