(* ===== verification/Proc_Table_Props.thy ===== *)
theory Proc_Table_Props
  imports Proc_Table
begin

text \<open>
  The process table as a finite map from process ids: its invariant, and the correctness of the allocation
  and release of processes over it.
\<close>

section \<open>Invariant\<close>

definition table_ok :: "kernel \<Rightarrow> bool" where
  "table_ok k \<longleftrightarrow> length (process_table k) = MAX_PROCESSES \<and> 1 \<le> unat (next_pid k) \<and> unat (next_pid k) < MAX_PROCESSES"

lemma table_ok_init: "table_ok (process_table_init k)"
  by (simp add: table_ok_def process_table_init_def)

lemma unat_of_nat_pid [simp]: "i < 257 \<Longrightarrow> unat (of_nat i :: u32) = i"
  by (simp add: unat_of_nat)

lemma unat_Suc_pid [simp]: "i < 256 \<Longrightarrow> unat (1 + of_nat i :: u32) = Suc i"
  using unat_of_nat_pid [of "Suc i"] by simp

section \<open>The choice of a slot\<close>

lemma find_slot_eq:
  assumes "table_ok k"
  shows "find_slot k =
    (case find (\<lambda>i. process_table k ! i = None) [unat (next_pid k)..<MAX_PROCESSES] of
       Some i \<Rightarrow> i
     | None \<Rightarrow> (case find (\<lambda>i. process_table k ! i = None) [1..<unat (next_pid k)] of Some j \<Rightarrow> j | None \<Rightarrow> 0))"
proof -
  have "i \<noteq> 0" if "find (\<lambda>i. process_table k ! i = None) [unat (next_pid k)..<MAX_PROCESSES] = Some i" for i
    using that assms unfolding find_upt_Some_iff table_ok_def by auto
  then show ?thesis unfolding find_slot_def by (auto split: option.split)
qed

lemma find_slot_free:
  assumes "table_ok k" "find_slot k \<noteq> 0"
  shows "find_slot k < MAX_PROCESSES \<and> process_table k ! find_slot k = None"
proof (cases "find (\<lambda>i. process_table k ! i = None) [unat (next_pid k)..<MAX_PROCESSES]")
  case (Some i)
  then have "find_slot k = i" by (simp only: find_slot_eq [OF assms(1)] option.case)
  with Some show ?thesis unfolding find_upt_Some_iff by simp
next
  case None
  then have "find_slot k = (case find (\<lambda>i. process_table k ! i = None) [1..<unat (next_pid k)] of Some j \<Rightarrow> j | None \<Rightarrow> 0)"
    by (simp only: find_slot_eq [OF assms(1)] option.case)
  with assms(2) obtain j where "find (\<lambda>i. process_table k ! i = None) [1..<unat (next_pid k)] = Some j" "find_slot k = j"
    by (auto split: option.splits)
  then show ?thesis using assms(1) unfolding find_upt_Some_iff table_ok_def by auto
qed

lemma find_slot_full:
  assumes "table_ok k"
  shows "find_slot k = 0 \<longleftrightarrow> (\<forall>i. 1 \<le> i \<and> i < MAX_PROCESSES \<longrightarrow> process_table k ! i \<noteq> None)"
proof
  assume zero: "find_slot k = 0"
  have hi: "find (\<lambda>i. process_table k ! i = None) [unat (next_pid k)..<MAX_PROCESSES] = None"
  proof (cases "find (\<lambda>i. process_table k ! i = None) [unat (next_pid k)..<MAX_PROCESSES]")
    case (Some i)
    then have "find_slot k = i" by (simp only: find_slot_eq [OF assms] option.case)
    then show ?thesis using Some zero assms unfolding find_upt_Some_iff table_ok_def by auto
  qed
  have lo: "find (\<lambda>i. process_table k ! i = None) [1..<unat (next_pid k)] = None"
  proof (cases "find (\<lambda>i. process_table k ! i = None) [1..<unat (next_pid k)]")
    case (Some i)
    then have "find_slot k = i" by (simp only: find_slot_eq [OF assms] option.case hi)
    then show ?thesis using Some zero unfolding find_upt_Some_iff by auto
  qed
  show "\<forall>i. 1 \<le> i \<and> i < MAX_PROCESSES \<longrightarrow> process_table k ! i \<noteq> None"
    using hi lo unfolding find_upt_None_iff by (metis not_le)
next
  assume "\<forall>i. 1 \<le> i \<and> i < MAX_PROCESSES \<longrightarrow> process_table k ! i \<noteq> None"
  then show "find_slot k = 0" using find_slot_free [OF assms] by (metis less_one not_less)
qed

section \<open>Lookups\<close>

lemma process_find_upd:
  "length (process_table k) = MAX_PROCESSES \<Longrightarrow> j < MAX_PROCESSES \<Longrightarrow>
   process_find i (k\<lparr>process_table := (process_table k)[j := v]\<rparr>) = (if unat i = j then v else process_find i k)"
  by (auto simp: process_find_def nth_list_update)

lemma process_find_more [simp]:
  "process_find i (k\<lparr>procs := x\<rparr>) = process_find i k" "process_find i (k\<lparr>next_pid := n\<rparr>) = process_find i k"
  "process_find i (k\<lparr>current := c\<rparr>) = process_find i k" "process_find i (k\<lparr>sched := s\<rparr>) = process_find i k"
  by (simp_all add: process_find_def)

section \<open>Allocation\<close>

lemma process_alloc_fails:
  "find_slot k = 0 \<Longrightarrow> process_alloc mem fpu k = (None, k)"
  by (simp add: process_alloc_def)

lemma process_alloc_takes:
  assumes "table_ok k" "find_slot k = i" "i \<noteq> 0" "process_alloc (Some a) (Some f) k = (r, k')"
  shows "r = Some a" "process_table k' = (process_table k)[i := Some a]"
    "procs k' = (procs k)(a \<mapsto> blank_process\<lparr>pid := of_nat i, refcount := 1, state := PROCESS_STATE_EMBRYO\<rparr>)"
    "next_pid k' = (if i + 1 < MAX_PROCESSES then of_nat (i + 1) else 1)" "current k' = current k" "sched k' = sched k"
  using assms(2-4) by (auto simp: process_alloc_def Let_def)

lemma process_alloc_ok:
  assumes "table_ok k" "process_alloc mem fpu k = (r, k')"
  shows "table_ok k'"
  using assms find_slot_free [OF assms(1)]
  by (auto simp: process_alloc_def Let_def table_ok_def split: if_splits option.splits)

lemma process_find_table:
  "process_table k' = (process_table k)[i := v] \<Longrightarrow> length (process_table k) = MAX_PROCESSES \<Longrightarrow> i < MAX_PROCESSES \<Longrightarrow>
   process_find j k' = (if j = of_nat i then v else process_find j k)"
  by (auto simp: process_find_def nth_list_update)

lemma process_free_table:
  assumes "procs k a = Some p" "process_find (pid p) k = Some a" "length (process_table k) = MAX_PROCESSES"
  shows "\<exists>k'. process_free a k = Some k' \<and> (\<forall>j. process_find j k' = (if j = pid p then None else process_find j k))"
  using assms by (auto simp: process_free_def process_find_def nth_list_update word_unat_eq_iff split: if_splits)

end
