(* ===== verification/Sched.thy ===== *)
theory Sched
  imports Proc_Table
begin

text \<open>
  The scheduler of \<^verbatim>\<open>kernel/process/scheduler.c\<close>: the run queue is a red-black tree of separately
  allocated nodes, ordered by virtual runtime, with parent pointers, a pointer to the leftmost node and a
  table from process ids to nodes. The tree operations below do the source's pointer assignments one by
  one on the node map; a null or dangling pointer that is used makes them None, and so does a loop that
  never ends (\<^verbatim>\<open>partial_function\<close>). \<^verbatim>\<open>kzalloc\<close> is the argument \<^verbatim>\<open>kz\<close>, a function of the
  node map, whose answer None is a failed allocation.
\<close>

section \<open>Weights\<close>

abbreviation NICE_0_WEIGHT :: u32 where "NICE_0_WEIGHT \<equiv> 1024"
abbreviation MIN_GRANULARITY_NS :: u64 where "MIN_GRANULARITY_NS \<equiv> 750000"

definition nice_to_weight_table :: "u32 list" where
  "nice_to_weight_table =
    [88761, 71755, 56483, 46273, 36291,
     29154, 23254, 18705, 14949, 11916,
     9548, 7620, 6100, 4904, 3906,
     3121, 2501, 1991, 1586, 1277,
     1024, 820, 655, 526, 423,
     335, 272, 215, 172, 137,
     110, 87, 70, 56, 45,
     36, 29, 23, 18, 15]"

definition nice_to_weight :: "int \<Rightarrow> u32" where
  "nice_to_weight n =
    (let n = (if n < -20 then -20 else n); n = (if n > 19 then 19 else n)
     in nice_to_weight_table ! nat (n + 20))"

definition scheduler_nice_to_weight :: "int \<Rightarrow> u32" where
  "scheduler_nice_to_weight n = nice_to_weight n"

section \<open>Nodes\<close>

definition set_sched_node :: "nat \<Rightarrow> nat option \<Rightarrow> kernel \<Rightarrow> kernel option" where
  "set_sched_node a n k = do {
     p \<leftarrow> procs k a;
     Some (if unat (pid p) < MAX_PROCESSES
           then k\<lparr>sched := (sched k)\<lparr>sched_nodes := (sched_nodes (sched k))[unat (pid p) := n]\<rparr>\<rparr> else k)
   }"

definition get_sched_node :: "nat \<Rightarrow> kernel \<Rightarrow> nat option option" where
  "get_sched_node a k = do {
     p \<leftarrow> procs k a;
     Some (if unat (pid p) \<ge> MAX_PROCESSES then None else sched_nodes (sched k) ! unat (pid p))
   }"

definition upd_node :: "nat \<Rightarrow> (rb_node \<Rightarrow> rb_node) \<Rightarrow> sched_state \<Rightarrow> sched_state option" where
  "upd_node a f s = map_option (\<lambda>n. s\<lparr>nodes := (nodes s)(a \<mapsto> f n)\<rparr>) (nodes s a)"

text \<open>A change of the node behind a pointer that may be null, and a test of its colour.\<close>

definition upd_opt :: "nat option \<Rightarrow> (rb_node \<Rightarrow> rb_node) \<Rightarrow> sched_state \<Rightarrow> sched_state option" where
  "upd_opt p f s = (case p of None \<Rightarrow> Some s | Some a \<Rightarrow> upd_node a f s)"

definition red_opt :: "nat option \<Rightarrow> sched_state \<Rightarrow> bool option" where
  "red_opt p s = (case p of None \<Rightarrow> Some False | Some a \<Rightarrow> map_option n_red (nodes s a))"

text \<open>The descent to the left of \<^verbatim>\<open>rbtree_successor\<close>.\<close>

partial_function (option) leftmost_from :: "nat \<Rightarrow> sched_state \<Rightarrow> nat option" where
  "leftmost_from a s = do {
     n \<leftarrow> nodes s a;
     case n_left n of None \<Rightarrow> Some a | Some l \<Rightarrow> leftmost_from l s
   }"

definition rbtree_successor :: "nat \<Rightarrow> sched_state \<Rightarrow> nat option option" where
  "rbtree_successor a s = do {
     n \<leftarrow> nodes s a;
     case n_right n of None \<Rightarrow> Some None | Some r \<Rightarrow> map_option Some (leftmost_from r s)
   }"

section \<open>Rotations\<close>

text \<open>Hang \<^verbatim>\<open>c\<close> in the place of \<^verbatim>\<open>x\<close> under the parent of \<^verbatim>\<open>x\<close>, or as the root: the middle part of both
  rotations.\<close>

definition replace_child :: "nat option \<Rightarrow> nat \<Rightarrow> nat option \<Rightarrow> sched_state \<Rightarrow> sched_state option" where
  "replace_child par x c s =
    (case par of
       None \<Rightarrow> Some (s\<lparr>root := c\<rparr>)
     | Some q \<Rightarrow> do {
         nq \<leftarrow> nodes s q;
         if n_left nq = Some x then upd_node q (n_left_update (\<lambda>_. c)) s
         else upd_node q (n_right_update (\<lambda>_. c)) s
       })"

definition rbtree_rotate_left :: "nat \<Rightarrow> sched_state \<Rightarrow> sched_state option" where
  "rbtree_rotate_left x s = do {
     n \<leftarrow> nodes s x;
     case n_right n of
       None \<Rightarrow> Some s
     | Some y \<Rightarrow> do {
         m \<leftarrow> nodes s y;
         s \<leftarrow> upd_node x (n_right_update (\<lambda>_. n_left m)) s;
         s \<leftarrow> upd_opt (n_left m) (n_parent_update (\<lambda>_. Some x)) s;
         n \<leftarrow> nodes s x;
         s \<leftarrow> upd_node y (n_parent_update (\<lambda>_. n_parent n)) s;
         n \<leftarrow> nodes s x;
         s \<leftarrow> replace_child (n_parent n) x (Some y) s;
         s \<leftarrow> upd_node y (n_left_update (\<lambda>_. Some x)) s;
         upd_node x (n_parent_update (\<lambda>_. Some y)) s
       }
   }"

definition rbtree_rotate_right :: "nat \<Rightarrow> sched_state \<Rightarrow> sched_state option" where
  "rbtree_rotate_right x s = do {
     n \<leftarrow> nodes s x;
     case n_left n of
       None \<Rightarrow> Some s
     | Some y \<Rightarrow> do {
         m \<leftarrow> nodes s y;
         s \<leftarrow> upd_node x (n_left_update (\<lambda>_. n_right m)) s;
         s \<leftarrow> upd_opt (n_right m) (n_parent_update (\<lambda>_. Some x)) s;
         n \<leftarrow> nodes s x;
         s \<leftarrow> upd_node y (n_parent_update (\<lambda>_. n_parent n)) s;
         n \<leftarrow> nodes s x;
         s \<leftarrow> replace_child (n_parent n) x (Some y) s;
         s \<leftarrow> upd_node y (n_right_update (\<lambda>_. Some x)) s;
         upd_node x (n_parent_update (\<lambda>_. Some y)) s
       }
   }"

section \<open>Insertion\<close>

text \<open>One round of \<^verbatim>\<open>rbtree_insert_fixup\<close>, for a node whose parent \<^verbatim>\<open>p\<close> is red; the answer is the node of
  the next round. The two halves are the source's branches for a left and for a right parent.\<close>

definition recolour :: "nat \<Rightarrow> nat \<Rightarrow> nat \<Rightarrow> sched_state \<Rightarrow> (nat \<times> sched_state) option" where
  "recolour p u g s = do {
     s \<leftarrow> upd_node p (n_red_update (\<lambda>_. False)) s;
     s \<leftarrow> upd_node u (n_red_update (\<lambda>_. False)) s;
     s \<leftarrow> upd_node g (n_red_update (\<lambda>_. True)) s;
     Some (g, s)
   }"

text \<open>Blacken the parent of \<^verbatim>\<open>x\<close>, redden its grandparent and rotate there.\<close>

definition fixup_rotate :: "(nat \<Rightarrow> sched_state \<Rightarrow> sched_state option) \<Rightarrow> nat \<Rightarrow> sched_state \<Rightarrow> (nat \<times> sched_state) option" where
  "fixup_rotate rot x s = do {
     n \<leftarrow> nodes s x;
     p \<leftarrow> n_parent n;
     s \<leftarrow> upd_node p (n_red_update (\<lambda>_. False)) s;
     pn \<leftarrow> nodes s p;
     g \<leftarrow> n_parent pn;
     s \<leftarrow> upd_node g (n_red_update (\<lambda>_. True)) s;
     s \<leftarrow> rot g s;
     Some (x, s)
   }"

definition insert_fixup_left :: "nat \<Rightarrow> nat \<Rightarrow> nat \<Rightarrow> sched_state \<Rightarrow> (nat \<times> sched_state) option" where
  "insert_fixup_left x p g s = do {
     gn \<leftarrow> nodes s g;
     ur \<leftarrow> red_opt (n_right gn) s;
     if ur then recolour p (the (n_right gn)) g s
     else do {
       pn \<leftarrow> nodes s p;
       if n_right pn = Some x then do {
         s \<leftarrow> rbtree_rotate_left p s;
         fixup_rotate rbtree_rotate_right p s
       } else fixup_rotate rbtree_rotate_right x s
     }
   }"

definition insert_fixup_right :: "nat \<Rightarrow> nat \<Rightarrow> nat \<Rightarrow> sched_state \<Rightarrow> (nat \<times> sched_state) option" where
  "insert_fixup_right x p g s = do {
     gn \<leftarrow> nodes s g;
     ur \<leftarrow> red_opt (n_left gn) s;
     if ur then recolour p (the (n_left gn)) g s
     else do {
       pn \<leftarrow> nodes s p;
       if n_left pn = Some x then do {
         s \<leftarrow> rbtree_rotate_right p s;
         fixup_rotate rbtree_rotate_left p s
       } else fixup_rotate rbtree_rotate_left x s
     }
   }"

text \<open>The loop: it ends at a node without a parent or with a black one. The grandparent is used without a
  null test.\<close>

partial_function (option) rbtree_insert_fixup :: "nat \<Rightarrow> sched_state \<Rightarrow> sched_state option" where
  "rbtree_insert_fixup x s = do {
     n \<leftarrow> nodes s x;
     pr \<leftarrow> red_opt (n_parent n) s;
     if \<not> pr then upd_opt (root s) (n_red_update (\<lambda>_. False)) s
     else do {
       let p = the (n_parent n);
       pn \<leftarrow> nodes s p;
       g \<leftarrow> n_parent pn;
       gn \<leftarrow> nodes s g;
       (x', s') \<leftarrow> (if n_left gn = Some p then insert_fixup_left x p g s else insert_fixup_right x p g s);
       rbtree_insert_fixup x' s'
     }
   }"

text \<open>The descent of \<^verbatim>\<open>rbtree_insert\<close> to the parent of the new node.\<close>

partial_function (option) insert_parent :: "u64 \<Rightarrow> nat \<Rightarrow> sched_state \<Rightarrow> nat option" where
  "insert_parent v a s = do {
     n \<leftarrow> nodes s a;
     case (if v < n_vruntime n then n_left n else n_right n) of
       None \<Rightarrow> Some a
     | Some b \<Rightarrow> insert_parent v b s
   }"

text \<open>The linking of a new node under its parent, with the change of the leftmost pointer.\<close>

definition link_node :: "nat \<Rightarrow> nat \<Rightarrow> sched_state \<Rightarrow> sched_state option" where
  "link_node x par s = do {
     s \<leftarrow> upd_node x (n_parent_update (\<lambda>_. Some par)) s;
     n \<leftarrow> nodes s x;
     pn \<leftarrow> nodes s par;
     s \<leftarrow> (if n_vruntime n < n_vruntime pn then upd_node par (n_left_update (\<lambda>_. Some x)) s
           else upd_node par (n_right_update (\<lambda>_. Some x)) s);
     l \<leftarrow> leftmost s;
     ln \<leftarrow> nodes s l;
     Some (if n_vruntime n < n_vruntime ln then s\<lparr>leftmost := Some x\<rparr> else s)
   }"

text \<open>The part of \<^verbatim>\<open>rbtree_insert\<close> from the test of the root on, for the new node at address \<^verbatim>\<open>x\<close>.\<close>

definition tree_insert :: "nat \<Rightarrow> sched_state \<Rightarrow> sched_state option" where
  "tree_insert x s =
    (case root s of
       None \<Rightarrow> map_option (\<lambda>s. s\<lparr>leftmost := Some x\<rparr>) (upd_node x (n_red_update (\<lambda>_. False)) (s\<lparr>root := Some x\<rparr>))
     | Some r \<Rightarrow> do {
         n \<leftarrow> nodes s x;
         par \<leftarrow> insert_parent (n_vruntime n) r s;
         s \<leftarrow> link_node x par s;
         rbtree_insert_fixup x s
       })"

definition new_node :: "nat \<Rightarrow> u64 \<Rightarrow> rb_node" where
  "new_node a v = \<lparr>n_left = None, n_right = None, n_parent = None, n_red = True, n_process = a, n_vruntime = v\<rparr>"

type_synonym node_alloc = "(nat \<rightharpoonup> rb_node) \<Rightarrow> nat option"

definition rbtree_insert :: "node_alloc \<Rightarrow> nat \<Rightarrow> kernel \<Rightarrow> kernel option" where
  "rbtree_insert kz a k = do {
     p \<leftarrow> procs k a;
     case kz (nodes (sched k)) of
       None \<Rightarrow> Some k
     | Some x \<Rightarrow> do {
         let s = (sched k)\<lparr>nodes := (nodes (sched k))(x \<mapsto> new_node a (vruntime p))\<rparr>;
         k \<leftarrow> set_sched_node a (Some x) (k\<lparr>sched := s\<rparr>);
         s \<leftarrow> tree_insert x (sched k);
         Some (k\<lparr>sched := s\<rparr>)
       }
   }"

section \<open>Removal\<close>

text \<open>One round of \<^verbatim>\<open>rbtree_remove_fixup\<close> for a node that is a left child, and for one that is not. The
  answer is the node and parent of the next round (Inl), or the node after a \<^verbatim>\<open>break\<close> (Inr). A null
  sibling changes nothing.\<close>

definition remove_fixup_left :: "nat \<Rightarrow> nat \<Rightarrow> sched_state \<Rightarrow> ((nat \<times> nat option, nat option) sum \<times> sched_state) option" where
  "remove_fixup_left x p s = do {
     pn \<leftarrow> nodes s p;
     sr \<leftarrow> red_opt (n_right pn) s;
     (sib, s) \<leftarrow> (if sr then do {
        s \<leftarrow> upd_opt (n_right pn) (n_red_update (\<lambda>_. False)) s;
        s \<leftarrow> upd_node p (n_red_update (\<lambda>_. True)) s;
        s \<leftarrow> rbtree_rotate_left p s;
        pn \<leftarrow> nodes s p;
        Some (n_right pn, s)
      } else Some (n_right pn, s));
     case sib of
       None \<Rightarrow> Some (Inl (x, Some p), s)
     | Some w \<Rightarrow> do {
         wn \<leftarrow> nodes s w;
         nr \<leftarrow> red_opt (n_left wn) s;
         fr \<leftarrow> red_opt (n_right wn) s;
         if \<not> nr \<and> \<not> fr then do {
           s \<leftarrow> upd_node w (n_red_update (\<lambda>_. True)) s;
           pn \<leftarrow> nodes s p;
           Some (Inl (p, n_parent pn), s)
         } else do {
           (w, s) \<leftarrow> (if \<not> fr then do {
              s \<leftarrow> upd_opt (n_left wn) (n_red_update (\<lambda>_. False)) s;
              s \<leftarrow> upd_node w (n_red_update (\<lambda>_. True)) s;
              s \<leftarrow> rbtree_rotate_right w s;
              pn \<leftarrow> nodes s p;
              w \<leftarrow> n_right pn;
              Some (w, s)
            } else Some (w, s));
           pn \<leftarrow> nodes s p;
           s \<leftarrow> upd_node w (n_red_update (\<lambda>_. n_red pn)) s;
           s \<leftarrow> upd_node p (n_red_update (\<lambda>_. False)) s;
           wn \<leftarrow> nodes s w;
           s \<leftarrow> upd_opt (n_right wn) (n_red_update (\<lambda>_. False)) s;
           s \<leftarrow> rbtree_rotate_left p s;
           Some (Inr (root s), s)
         }
       }
   }"

definition remove_fixup_right :: "nat \<Rightarrow> nat \<Rightarrow> sched_state \<Rightarrow> ((nat \<times> nat option, nat option) sum \<times> sched_state) option" where
  "remove_fixup_right x p s = do {
     pn \<leftarrow> nodes s p;
     sr \<leftarrow> red_opt (n_left pn) s;
     (sib, s) \<leftarrow> (if sr then do {
        s \<leftarrow> upd_opt (n_left pn) (n_red_update (\<lambda>_. False)) s;
        s \<leftarrow> upd_node p (n_red_update (\<lambda>_. True)) s;
        s \<leftarrow> rbtree_rotate_right p s;
        pn \<leftarrow> nodes s p;
        Some (n_left pn, s)
      } else Some (n_left pn, s));
     case sib of
       None \<Rightarrow> Some (Inl (x, Some p), s)
     | Some w \<Rightarrow> do {
         wn \<leftarrow> nodes s w;
         nr \<leftarrow> red_opt (n_right wn) s;
         fr \<leftarrow> red_opt (n_left wn) s;
         if \<not> nr \<and> \<not> fr then do {
           s \<leftarrow> upd_node w (n_red_update (\<lambda>_. True)) s;
           pn \<leftarrow> nodes s p;
           Some (Inl (p, n_parent pn), s)
         } else do {
           (w, s) \<leftarrow> (if \<not> fr then do {
              s \<leftarrow> upd_opt (n_right wn) (n_red_update (\<lambda>_. False)) s;
              s \<leftarrow> upd_node w (n_red_update (\<lambda>_. True)) s;
              s \<leftarrow> rbtree_rotate_left w s;
              pn \<leftarrow> nodes s p;
              w \<leftarrow> n_left pn;
              Some (w, s)
            } else Some (w, s));
           pn \<leftarrow> nodes s p;
           s \<leftarrow> upd_node w (n_red_update (\<lambda>_. n_red pn)) s;
           s \<leftarrow> upd_node p (n_red_update (\<lambda>_. False)) s;
           wn \<leftarrow> nodes s w;
           s \<leftarrow> upd_opt (n_left wn) (n_red_update (\<lambda>_. False)) s;
           s \<leftarrow> rbtree_rotate_right p s;
           Some (Inr (root s), s)
         }
       }
   }"

partial_function (option) rbtree_remove_fixup :: "nat \<Rightarrow> nat option \<Rightarrow> sched_state \<Rightarrow> sched_state option" where
  "rbtree_remove_fixup x par s = do {
     n \<leftarrow> nodes s x;
     if root s = Some x \<or> n_red n then upd_node x (n_red_update (\<lambda>_. False)) s
     else do {
       p \<leftarrow> par;
       pn \<leftarrow> nodes s p;
       (r, s') \<leftarrow> (if n_left pn = Some x then remove_fixup_left x p s else remove_fixup_right x p s);
       case r of
         Inl (x', par') \<Rightarrow> rbtree_remove_fixup x' par' s'
       | Inr x' \<Rightarrow> upd_opt x' (n_red_update (\<lambda>_. False)) s'
     }
   }"

text \<open>The unlinking of a node with at most one child, in the two branches of \<^verbatim>\<open>rbtree_remove\<close>: without a left
  child, and without a right child. The answer is the child and the parent.\<close>

definition unlink_no_left :: "nat \<Rightarrow> sched_state \<Rightarrow> (nat option \<times> nat option \<times> sched_state) option" where
  "unlink_no_left x s = do {
     n \<leftarrow> nodes s x;
     let child = n_right n;
     let parent = n_parent n;
     s \<leftarrow> upd_opt child (n_parent_update (\<lambda>_. parent)) s;
     s \<leftarrow> replace_child parent x child s;
     Some (child, parent,
       if leftmost s = Some x then s\<lparr>leftmost := (if child \<noteq> None then child else parent)\<rparr> else s)
   }"

definition unlink_no_right :: "nat \<Rightarrow> sched_state \<Rightarrow> (nat option \<times> nat option \<times> sched_state) option" where
  "unlink_no_right x s = do {
     n \<leftarrow> nodes s x;
     let child = n_left n;
     let parent = n_parent n;
     s \<leftarrow> replace_child parent x child s;
     s \<leftarrow> upd_opt child (n_parent_update (\<lambda>_. parent)) s;
     Some (child, parent, if leftmost s = Some x then s\<lparr>leftmost := child\<rparr> else s)
   }"

text \<open>The end of \<^verbatim>\<open>rbtree_remove\<close> after an unlinking: the fixup when a black node had a child, and the release
  of the node.\<close>

definition finish_remove :: "bool \<Rightarrow> nat \<Rightarrow> nat option \<times> nat option \<times> sched_state \<Rightarrow> sched_state option" where
  "finish_remove was_red x r =
    (case r of (child, parent, s) \<Rightarrow> do {
       s \<leftarrow> (case child of
               Some c \<Rightarrow> if \<not> was_red then rbtree_remove_fixup c parent s else Some s
             | None \<Rightarrow> Some s);
       Some (s\<lparr>nodes := (nodes s)(x := None)\<rparr>)
     })"

text \<open>The body of \<^verbatim>\<open>rbtree_remove\<close>: it finishes, or it has copied the successor into the node and goes on with a call
  for the process of the successor. None is the use of a null or dangling
  pointer, or a loop of the fixup without an end.\<close>

datatype remove_outcome = Removed kernel | Again nat kernel

definition remove_step :: "nat \<Rightarrow> kernel \<Rightarrow> remove_outcome option" where
  "remove_step a k = do {
     nd \<leftarrow> get_sched_node a k;
     case nd of
       None \<Rightarrow> Some (Removed k)
     | Some x \<Rightarrow> do {
         n \<leftarrow> nodes (sched k) x;
         if n_left n \<noteq> None \<and> n_right n \<noteq> None then do {
           succ \<leftarrow> rbtree_successor x (sched k);
           y \<leftarrow> succ;
           m \<leftarrow> nodes (sched k) y;
           s \<leftarrow> upd_node x (\<lambda>n. n\<lparr>n_vruntime := n_vruntime m, n_process := n_process m\<rparr>) (sched k);
           k \<leftarrow> set_sched_node (n_process m) (Some x) (k\<lparr>sched := s\<rparr>);
           Some (Again (n_process m) k)
         } else do {
           r \<leftarrow> (if n_left n = None then unlink_no_left x (sched k) else unlink_no_right x (sched k));
           s \<leftarrow> finish_remove (n_red n) x r;
           k \<leftarrow> set_sched_node a None (k\<lparr>sched := s\<rparr>);
           Some (Removed k)
         }
       }
   }"

text \<open>The calls in a row. Here None is also a row of calls without an end.\<close>

partial_function (option) rbtree_remove :: "nat \<Rightarrow> kernel \<Rightarrow> kernel option" where
  "rbtree_remove a k = do {
     r \<leftarrow> remove_step a k;
     case r of Removed k \<Rightarrow> Some k | Again b k \<Rightarrow> rbtree_remove b k
   }"

section \<open>The scheduler's interface\<close>

definition scheduler_init :: "kernel \<Rightarrow> kernel" where
  "scheduler_init k = k\<lparr>sched := (sched k)\<lparr>root := None, leftmost := None, min_vruntime := 0, clock_ticks := 0,
     sched_enabled := True\<rparr>\<rparr>"

text \<open>\<^verbatim>\<open>process_subsystem_init\<close> of \<^verbatim>\<open>process_table.c\<close>.\<close>

definition process_subsystem_init :: "kernel \<Rightarrow> kernel" where
  "process_subsystem_init k = scheduler_init (process_table_init k)"

text \<open>The preparation of a process for the queue, shared by \<^verbatim>\<open>scheduler_add_process\<close> and \<^verbatim>\<open>requeue\<close>: a missing
  weight is filled in and the virtual runtime raised to the queue's minimum.\<close>

definition place_process :: "u64 \<Rightarrow> process \<Rightarrow> process" where
  "place_process mv p =
    (let p = (if weight p = 0 then p\<lparr>weight := nice_to_weight (nice p)\<rparr> else p)
     in if vruntime p < mv then p\<lparr>vruntime := mv\<rparr> else p)"

definition scheduler_add_process :: "node_alloc \<Rightarrow> nat \<Rightarrow> kernel \<Rightarrow> kernel option" where
  "scheduler_add_process kz a k = do {
     p \<leftarrow> procs k a;
     if state p = PROCESS_STATE_ZOMBIE then Some k
     else do {
       k \<leftarrow> upd_proc a (place_process (min_vruntime (sched k))) k;
       k \<leftarrow> rbtree_insert kz a k;
       upd_proc a (state_update (\<lambda>_. PROCESS_STATE_READY)) k
     }
   }"

definition scheduler_remove_process :: "nat \<Rightarrow> kernel \<Rightarrow> kernel option" where
  "scheduler_remove_process a k = rbtree_remove a k"

definition requeue :: "node_alloc \<Rightarrow> nat \<Rightarrow> kernel \<Rightarrow> kernel option" where
  "requeue kz a k = do {
     p \<leftarrow> procs k a;
     if state p = PROCESS_STATE_ZOMBIE then Some k
     else do {
       k \<leftarrow> upd_proc a (place_process (min_vruntime (sched k))) k;
       k \<leftarrow> rbtree_insert kz a k;
       upd_proc a (state_update (\<lambda>_. PROCESS_STATE_READY)) k
     }
   }"

definition pick_next :: "kernel \<Rightarrow> (nat option \<times> kernel) option" where
  "pick_next k =
    (case leftmost (sched k) of
       None \<Rightarrow> Some (None, k)
     | Some x \<Rightarrow> do {
         n \<leftarrow> nodes (sched k) x;
         k \<leftarrow> rbtree_remove (n_process n) k;
         Some (Some (n_process n), k)
       })"

text \<open>The charge of a run of \<^verbatim>\<open>delta\<close> nanoseconds: the product wraps at 64 bits, as in the source.\<close>

definition charge :: "u64 \<Rightarrow> process \<Rightarrow> process" where
  "charge delta p =
    (let p = (if weight p = 0 then p\<lparr>weight := nice_to_weight (nice p)\<rparr> else p);
         p = (if weight p = 0 then p\<lparr>weight := NICE_0_WEIGHT\<rparr> else p)
     in p\<lparr>vruntime := vruntime p + (delta * 1024) div ucast (weight p)\<rparr>)"

definition advance_min :: "sched_state \<Rightarrow> sched_state option" where
  "advance_min s =
    (case leftmost s of
       None \<Rightarrow> Some s
     | Some x \<Rightarrow> do {
         n \<leftarrow> nodes s x;
         Some (if n_vruntime n > min_vruntime s then s\<lparr>min_vruntime := n_vruntime n\<rparr> else s)
       })"

definition update_curr :: "nat option \<Rightarrow> u64 \<Rightarrow> kernel \<Rightarrow> kernel option" where
  "update_curr a delta k =
    (case a of
       None \<Rightarrow> Some k
     | Some a \<Rightarrow> do {
         k \<leftarrow> upd_proc a (charge delta) k;
         s \<leftarrow> advance_min (sched k);
         Some (k\<lparr>sched := s\<rparr>)
       })"

text \<open>\<^verbatim>\<open>schedule\<close>, up to the switch of the machine context: the answer is the process that the CPU switches
  to, None when it stays where it is.\<close>

definition schedule :: "node_alloc \<Rightarrow> kernel \<Rightarrow> (nat option \<times> kernel) option" where
  "schedule kz k =
    (if \<not> sched_enabled (sched k) then Some (None, k)
     else do {
       let prev = current k;
       k \<leftarrow> (case prev of None \<Rightarrow> Some k | Some a \<Rightarrow> upd_proc a (need_resched_update (\<lambda>_. False)) k);
       k \<leftarrow> (case prev of
               None \<Rightarrow> Some k
             | Some a \<Rightarrow> do {
                 p \<leftarrow> procs k a;
                 if pid p \<noteq> 0 \<and> (state p = PROCESS_STATE_RUNNING \<or> state p = PROCESS_STATE_RUNNABLE)
                 then requeue kz a k else Some k
               });
       (nxt, k) \<leftarrow> pick_next k;
       let nxt = (if nxt = None then process_find 0 k else nxt);
       case nxt of
         None \<Rightarrow> Some (None, k)
       | Some b \<Rightarrow> do {
           k \<leftarrow> upd_proc b (\<lambda>p. p\<lparr>state := PROCESS_STATE_RUNNING, need_resched := False\<rparr>) k;
           if prev \<noteq> Some b then Some (Some b, k\<lparr>current := Some b\<rparr>) else Some (None, k)
         }
     })"

definition scheduler_tick :: "kernel \<Rightarrow> kernel option" where
  "scheduler_tick k =
    (if \<not> sched_enabled (sched k) then Some k
     else do {
       let curr = current k;
       let k = k\<lparr>sched := (sched k)\<lparr>clock_ticks := clock_ticks (sched k) + 1\<rparr>\<rparr>;
       k \<leftarrow> update_curr curr 1000000 k;
       if min_vruntime (sched k) > 0 then do {
         a \<leftarrow> curr;
         p \<leftarrow> procs k a;
         if vruntime p > min_vruntime (sched k) + MIN_GRANULARITY_NS
         then upd_proc a (need_resched_update (\<lambda>_. True)) k else Some k
       } else Some k
     })"

definition sleep_on :: "node_alloc \<Rightarrow> nat option \<Rightarrow> kernel \<Rightarrow> (nat option \<times> kernel) option" where
  "sleep_on kz channel k =
    (case current k of
       None \<Rightarrow> Some (None, k)
     | Some a \<Rightarrow> do {
         k \<leftarrow> upd_proc a (\<lambda>p. p\<lparr>wait_channel := channel, state := PROCESS_STATE_SLEEPING\<rparr>) k;
         k \<leftarrow> scheduler_remove_process a k;
         schedule kz k
       })"

definition wakeup_slot :: "node_alloc \<Rightarrow> nat option \<Rightarrow> nat \<Rightarrow> kernel \<Rightarrow> kernel option" where
  "wakeup_slot kz channel i k =
    (case process_table k ! i of
       None \<Rightarrow> Some k
     | Some a \<Rightarrow> do {
         p \<leftarrow> procs k a;
         if state p = PROCESS_STATE_SLEEPING \<and> wait_channel p = channel then do {
           k \<leftarrow> upd_proc a (wait_channel_update (\<lambda>_. None)) k;
           scheduler_add_process kz a k
         } else Some k
       })"

primrec wakeup_from :: "node_alloc \<Rightarrow> nat option \<Rightarrow> nat list \<Rightarrow> kernel \<Rightarrow> kernel option" where
  "wakeup_from kz channel [] k = Some k"
| "wakeup_from kz channel (i # is) k = Option.bind (wakeup_slot kz channel i k) (wakeup_from kz channel is)"

definition wakeup :: "node_alloc \<Rightarrow> nat option \<Rightarrow> kernel \<Rightarrow> kernel option" where
  "wakeup kz channel k = wakeup_from kz channel [0..<MAX_PROCESSES] k"

definition should_reschedule :: "kernel \<Rightarrow> bool option" where
  "should_reschedule k =
    (if \<not> sched_enabled (sched k) then Some False
     else case current k of
       None \<Rightarrow> Some False
     | Some a \<Rightarrow> do {
         p \<leftarrow> procs k a;
         Some (need_resched p \<or> state p \<noteq> PROCESS_STATE_RUNNING)
       })"

definition clear_need_resched :: "kernel \<Rightarrow> kernel option" where
  "clear_need_resched k =
    (case current k of None \<Rightarrow> Some k | Some a \<Rightarrow> upd_proc a (need_resched_update (\<lambda>_. False)) k)"

end
