(* ===== verification/Proc_Life.thy ===== *)
theory Proc_Life
  imports Sched
begin

text \<open>
  The life of a process: the boot of the process subsystem (\<^verbatim>\<open>process_init_new.c\<close>), file descriptor
  injection (\<^verbatim>\<open>fd_inject.c\<close>), signals (\<^verbatim>\<open>signals_new.c\<close>), exit (\<^verbatim>\<open>exit_new.c\<close>), wait (\<^verbatim>\<open>wait_new.c\<close>) and
  the parts of \<^verbatim>\<open>process.c\<close> that end a process. The children of a process are a doubly linked list through
  the process structures. An operation that switches to another process answers with the process the CPU
  goes to and the state at the switch. The release of user pages (\<^verbatim>\<open>process_free_user_memory\<close>) and the
  change of page tables around it act on the address spaces, which are not part of this state.
\<close>

section \<open>Boot\<close>

text \<open>The arguments are the addresses that \<^verbatim>\<open>kmalloc\<close> returns for the idle process, its FPU area and its kernel
  stack.\<close>

definition process_management_init :: "nat option \<Rightarrow> nat option \<Rightarrow> nat option \<Rightarrow> kernel \<Rightarrow> kernel option" where
  "process_management_init mem fpu stack k = (
     case process_alloc mem fpu (process_subsystem_init k) of
       (None, k) \<Rightarrow> Some k
     | (Some a, k) \<Rightarrow> do {
         p \<leftarrow> procs k a;
         let k = (if unat (pid p) < MAX_PROCESSES \<and> process_table k ! unat (pid p) = Some a
                  then k\<lparr>process_table := (process_table k)[unat (pid p) := None]\<rparr> else k);
         k \<leftarrow> upd_proc a (pid_update (\<lambda>_. 0)) k;
         let k = k\<lparr>process_table := (process_table k)[0 := Some a]\<rparr>;
         k \<leftarrow> upd_proc a (\<lambda>p. p\<lparr>ppid := 0, pgid := 0\<rparr>) k;
         if stack = None then process_free a k
         else do {
           k \<leftarrow> upd_proc a (\<lambda>p. p\<lparr>nice := 0, weight := 1024, vruntime := 0, state := PROCESS_STATE_RUNNING\<rparr>) k;
           Some (k\<lparr>current := Some a\<rparr>)
         }
       })"

section \<open>File descriptor injection\<close>

definition process_inject_fd :: "u32 \<Rightarrow> int \<Rightarrow> nat option \<Rightarrow> kernel \<Rightarrow> (int \<times> kernel) option" where
  "process_inject_fd i fd obj k =
    (if fd < 0 \<or> fd \<ge> int PROCESS_MAX_FDS then Some (-1, k)
     else if obj = None then Some (-1, k)
     else case process_find i k of
       None \<Rightarrow> Some (-1, k)
     | Some a \<Rightarrow> do {
         p \<leftarrow> procs k a;
         if fd_table p ! nat fd \<noteq> None then Some (-1, k)
         else do {
           k \<leftarrow> upd_proc a (\<lambda>p. p\<lparr>fd_table := (fd_table p)[nat fd := obj]\<rparr>) k;
           Some (0, k)
         }
       })"

definition process_get_fd :: "u32 \<Rightarrow> int \<Rightarrow> kernel \<Rightarrow> nat option option" where
  "process_get_fd i fd k =
    (if fd < 0 \<or> fd \<ge> int PROCESS_MAX_FDS then Some None
     else case process_find i k of
       None \<Rightarrow> Some None
     | Some a \<Rightarrow> map_option (\<lambda>p. fd_table p ! nat fd) (procs k a))"

definition process_close_fd :: "u32 \<Rightarrow> int \<Rightarrow> kernel \<Rightarrow> (int \<times> kernel) option" where
  "process_close_fd i fd k =
    (if fd < 0 \<or> fd \<ge> int PROCESS_MAX_FDS then Some (-1, k)
     else case process_find i k of
       None \<Rightarrow> Some (-1, k)
     | Some a \<Rightarrow> map_option (\<lambda>k. (0, k)) (upd_proc a (\<lambda>p. p\<lparr>fd_table := (fd_table p)[nat fd := None]\<rparr>) k))"

section \<open>Exit\<close>

text \<open>One round of the reparenting loop: the child goes to the front of the list of \<^verbatim>\<open>init\<close>.\<close>

definition reparent_child :: "nat \<Rightarrow> nat \<Rightarrow> kernel \<Rightarrow> kernel option" where
  "reparent_child init c k = do {
     i \<leftarrow> procs k init;
     k \<leftarrow> upd_proc c (\<lambda>p. p\<lparr>p_parent := Some init, ppid := pid i\<rparr>) k;
     i \<leftarrow> procs k init;
     k \<leftarrow> upd_proc c (\<lambda>p. p\<lparr>sibling_next := children i, sibling_prev := None\<rparr>) k;
     i \<leftarrow> procs k init;
     k \<leftarrow> (case children i of
             None \<Rightarrow> Some k
           | Some f \<Rightarrow> upd_proc f (sibling_prev_update (\<lambda>_. Some c)) k);
     upd_proc init (children_update (\<lambda>_. Some c)) k
   }"

partial_function (option) reparent_from :: "nat \<Rightarrow> nat option \<Rightarrow> kernel \<Rightarrow> kernel option" where
  "reparent_from init child k =
    (case child of
       None \<Rightarrow> Some k
     | Some c \<Rightarrow> do {
         p \<leftarrow> procs k c;
         k \<leftarrow> reparent_child init c k;
         reparent_from init (sibling_next p) k
       })"

definition reparent_children :: "nat \<Rightarrow> kernel \<Rightarrow> kernel option" where
  "reparent_children a k = do {
     p \<leftarrow> procs k a;
     if children p = None then Some k
     else do {
       k \<leftarrow> (case process_find 1 k of None \<Rightarrow> Some k | Some i \<Rightarrow> reparent_from i (children p) k);
       upd_proc a (children_update (\<lambda>_. None)) k
     }
   }"

definition exit_status :: "int \<Rightarrow> int" where
  "exit_status status =
    (if status < 0 then (- status) AND 0x7F else push_bit 8 (status AND 0xFF))"

definition do_exit :: "node_alloc \<Rightarrow> int \<Rightarrow> kernel \<Rightarrow> (nat option \<times> kernel) option" where
  "do_exit kz status k =
    (case current k of
       None \<Rightarrow> Some (None, k)
     | Some a \<Rightarrow> do {
         k \<leftarrow> upd_proc a (\<lambda>p. p\<lparr>fd_table := map (\<lambda>_. None) (fd_table p)\<rparr>) k;
         k \<leftarrow> reparent_children a k;
         k \<leftarrow> upd_proc a (\<lambda>p. p\<lparr>state := PROCESS_STATE_ZOMBIE, exit_code := exit_status status\<rparr>) k;
         k \<leftarrow> scheduler_remove_process a k;
         p \<leftarrow> procs k a;
         k \<leftarrow> (case p_parent p of None \<Rightarrow> Some k | Some q \<Rightarrow> wakeup kz (Some q) k);
         schedule kz k
       })"

text \<open>\<^verbatim>\<open>process_exit\<close> of \<^verbatim>\<open>process.c\<close>: the older path, which keeps the raw code and the children. Without a
  current process it halts, which is None here. The hook of the lazy FPU switch is not part of the state.\<close>

definition process_exit :: "node_alloc \<Rightarrow> int \<Rightarrow> kernel \<Rightarrow> (nat option \<times> kernel) option" where
  "process_exit kz code k = do {
     a \<leftarrow> current k;
     k \<leftarrow> upd_proc a (\<lambda>p. p\<lparr>state := PROCESS_STATE_ZOMBIE, exit_code := code\<rparr>) k;
     k \<leftarrow> scheduler_remove_process a k;
     p \<leftarrow> procs k a;
     k \<leftarrow> (case process_get_by_pid (ppid p) k of None \<Rightarrow> Some k | Some q \<Rightarrow> wakeup kz (Some q) k);
     schedule kz k
   }"

definition process_wake :: "node_alloc \<Rightarrow> u32 \<Rightarrow> kernel \<Rightarrow> kernel option" where
  "process_wake kz i k =
    (case process_get_by_pid i k of
       None \<Rightarrow> Some k
     | Some a \<Rightarrow> do {
         p \<leftarrow> procs k a;
         if state p \<noteq> PROCESS_STATE_SLEEPING then Some k
         else do {
           k \<leftarrow> upd_proc a (state_update (\<lambda>_. PROCESS_STATE_READY)) k;
           scheduler_add_process kz a k
         }
       })"

text \<open>\<^verbatim>\<open>process_destroy\<close>: the table slot is cleared and the structure released. The buffers it owns are not part
  of the state.\<close>

definition process_destroy :: "nat \<Rightarrow> kernel \<Rightarrow> kernel option" where
  "process_destroy a k = do {
     p \<leftarrow> procs k a;
     let k = snd (process_unregister (pid p) k);
     Some (k\<lparr>procs := (procs k)(a := None)\<rparr>)
   }"

section \<open>Signals\<close>

abbreviation SIGKILL :: nat where "SIGKILL \<equiv> 9"
abbreviation SIGTERM :: nat where "SIGTERM \<equiv> 15"
abbreviation SIGCHLD :: nat where "SIGCHLD \<equiv> 17"

definition send_signal :: "node_alloc \<Rightarrow> u32 \<Rightarrow> int \<Rightarrow> kernel \<Rightarrow> (int \<times> kernel) option" where
  "send_signal kz i sig k =
    (case process_find i k of
       None \<Rightarrow> Some (-1, k)
     | Some a \<Rightarrow>
         if sig < 1 \<or> sig \<ge> 64 then Some (-1, k)
         else do {
           k \<leftarrow> upd_proc a (\<lambda>p. p\<lparr>pending_signals := pending_signals p OR push_bit (nat sig) 1\<rparr>) k;
           p \<leftarrow> procs k a;
           k \<leftarrow> (if state p = PROCESS_STATE_SLEEPING then do {
                   k \<leftarrow> upd_proc a (state_update (\<lambda>_. PROCESS_STATE_RUNNABLE)) k;
                   scheduler_add_process kz a k
                 } else Some k);
           Some (0, k)
         })"

definition process_kill :: "node_alloc \<Rightarrow> u32 \<Rightarrow> kernel \<Rightarrow> kernel option" where
  "process_kill kz i k = map_option snd (send_signal kz i 9 k)"

definition do_signal :: "int \<Rightarrow> u64 \<Rightarrow> kernel \<Rightarrow> (u64 \<times> kernel) option" where
  "do_signal sig handler k =
    (case current k of
       None \<Rightarrow> Some (-1, k)
     | Some a \<Rightarrow>
         if sig < 1 \<or> sig \<ge> 64 then Some (-1, k)
         else if sig = 9 \<or> sig = 19 then Some (-1, k)
         else do {
           p \<leftarrow> procs k a;
           k \<leftarrow> upd_proc a (\<lambda>p. p\<lparr>signal_handlers := (signal_handlers p)[nat sig := handler]\<rparr>) k;
           Some (signal_handlers p ! nat sig, k)
         })"

text \<open>The outcome of \<^verbatim>\<open>check_signals\<close>: it returns, or the process exits and the CPU goes elsewhere.\<close>

datatype signal_outcome = Returned | Exited "nat option"

definition exit_with :: "node_alloc \<Rightarrow> int \<Rightarrow> kernel \<Rightarrow> (signal_outcome \<times> kernel) option" where
  "exit_with kz status k = map_option (\<lambda>(b, k). (Exited b, k)) (do_exit kz status k)"

text \<open>The loop over the signal numbers, with the pending set read before it. A user handler is only logged.\<close>

primrec check_signals_from :: "node_alloc \<Rightarrow> nat \<Rightarrow> u64 \<Rightarrow> nat list \<Rightarrow> kernel \<Rightarrow> (signal_outcome \<times> kernel) option" where
  "check_signals_from kz a pending [] k = Some (Returned, k)"
| "check_signals_from kz a pending (sig # sigs) k =
    (if \<not> bit pending sig then check_signals_from kz a pending sigs k
     else do {
       k \<leftarrow> upd_proc a (\<lambda>p. p\<lparr>pending_signals := pending_signals p AND NOT (push_bit sig 1)\<rparr>) k;
       p \<leftarrow> procs k a;
       let handler = signal_handlers p ! sig;
       if handler = 1 then check_signals_from kz a pending sigs k
       else if handler = 0 then
         (if sig = SIGKILL \<or> sig = SIGTERM then exit_with kz (- int sig) k
          else if sig = SIGCHLD then Some (Returned, k)
          else exit_with kz (128 + int sig) k)
       else Some (Returned, k)
     })"

definition check_signals :: "node_alloc \<Rightarrow> kernel \<Rightarrow> (signal_outcome \<times> kernel) option" where
  "check_signals kz k =
    (case current k of
       None \<Rightarrow> Some (Returned, k)
     | Some a \<Rightarrow> do {
         p \<leftarrow> procs k a;
         let pending = pending_signals p AND NOT (blocked_signals p);
         if pending = 0 then Some (Returned, k)
         else check_signals_from kz a pending [1..<64] k
       })"

section \<open>Wait\<close>

abbreviation ESRCH :: int where "ESRCH \<equiv> 3"
abbreviation ECHILD :: int where "ECHILD \<equiv> 10"

text \<open>The first process of a sibling list with a property.\<close>

partial_function (option) find_child :: "(process \<Rightarrow> bool) \<Rightarrow> nat option \<Rightarrow> kernel \<Rightarrow> nat option option" where
  "find_child P c k =
    (case c of
       None \<Rightarrow> Some None
     | Some a \<Rightarrow> do {
         p \<leftarrow> procs k a;
         if P p then Some (Some a) else find_child P (sibling_next p) k
       })"

definition wait_match :: "int \<Rightarrow> process \<Rightarrow> process \<Rightarrow> bool" where
  "wait_match i parent child \<longleftrightarrow>
     i = -1 \<or> (i > 0 \<and> word_of_int i = pid child) \<or> (i = 0 \<and> pgid child = pgid parent) \<or>
     (i < -1 \<and> pgid child = word_of_int (- i))"

definition unlink_child :: "nat \<Rightarrow> nat \<Rightarrow> kernel \<Rightarrow> kernel option" where
  "unlink_child parent a k = do {
     c \<leftarrow> procs k a;
     k \<leftarrow> (case sibling_prev c of
             Some b \<Rightarrow> upd_proc b (sibling_next_update (\<lambda>_. sibling_next c)) k
           | None \<Rightarrow> upd_proc parent (children_update (\<lambda>_. sibling_next c)) k);
     c \<leftarrow> procs k a;
     case sibling_next c of
       Some b \<Rightarrow> upd_proc b (sibling_prev_update (\<lambda>_. sibling_prev c)) k
     | None \<Rightarrow> Some k
   }"

text \<open>The outcome of one round of the loop of \<^verbatim>\<open>do_waitpid\<close>: a return value with the status written, if any,
  or the need to sleep.\<close>

datatype wait_outcome = Ret int "int option" | Asleep

definition waitpid_round :: "int \<Rightarrow> int \<Rightarrow> nat \<Rightarrow> kernel \<Rightarrow> (wait_outcome \<times> kernel) option" where
  "waitpid_round i options a k = do {
     p \<leftarrow> procs k a;
     if children p = None then Some (Ret (- ECHILD) None, k)
     else do {
       m \<leftarrow> (if i > 0 then find_child (\<lambda>c. pid c = word_of_int i) (children p) k else Some (children p));
       if m = None then Some (Ret (- ECHILD) None, k)
       else do {
         z \<leftarrow> find_child (\<lambda>c. wait_match i p c \<and> state c = PROCESS_STATE_ZOMBIE) (children p) k;
         case z of
           Some b \<Rightarrow> do {
             c \<leftarrow> procs k b;
             k \<leftarrow> unlink_child a b k;
             k \<leftarrow> process_destroy b k;
             Some (Ret (sint (pid c)) (Some (exit_code c)), k)
           }
         | None \<Rightarrow> Some (if options AND 1 \<noteq> 0 then Ret 0 None else Asleep, k)
       }
     }
   }"

text \<open>The loop: each sleep calls \<^verbatim>\<open>sleep_on\<close> with the parent as the channel and goes on with the state the rest
  of the system leaves when the process runs again, given by the list. An exhausted list leaves it asleep.\<close>

primrec waitpid_loop :: "node_alloc \<Rightarrow> int \<Rightarrow> int \<Rightarrow> nat \<Rightarrow> (kernel \<Rightarrow> kernel) list \<Rightarrow> kernel \<Rightarrow> (wait_outcome \<times> kernel) option" where
  "waitpid_loop kz i options a [] k = do {
     (r, k) \<leftarrow> waitpid_round i options a k;
     case r of Ret v st \<Rightarrow> Some (Ret v st, k) | Asleep \<Rightarrow> do { (b, k) \<leftarrow> sleep_on kz (Some a) k; Some (Asleep, k) }
   }"
| "waitpid_loop kz i options a (f # fs) k = do {
     (r, k) \<leftarrow> waitpid_round i options a k;
     case r of
       Ret v st \<Rightarrow> Some (Ret v st, k)
     | Asleep \<Rightarrow> do { (b, k) \<leftarrow> sleep_on kz (Some a) k; waitpid_loop kz i options a fs (f k) }
   }"

definition do_waitpid :: "node_alloc \<Rightarrow> int \<Rightarrow> int \<Rightarrow> (kernel \<Rightarrow> kernel) list \<Rightarrow> kernel \<Rightarrow> (wait_outcome \<times> kernel) option" where
  "do_waitpid kz i options resumed k =
    (case current k of
       None \<Rightarrow> Some (Ret (-1) None, k)
     | Some a \<Rightarrow>
         if a < 0xFFFF800000000000 then Some (Ret (- ESRCH) None, k)
         else waitpid_loop kz i options a resumed k)"

definition do_wait :: "node_alloc \<Rightarrow> (kernel \<Rightarrow> kernel) list \<Rightarrow> kernel \<Rightarrow> (wait_outcome \<times> kernel) option" where
  "do_wait kz resumed k = do_waitpid kz (-1) 0 resumed k"

end
