(* ===== verification/Proc_Correct.thy ===== *)
theory Proc_Correct
  imports Proc_Table_Props Proc_Life
begin

text \<open>
  The process table, the boot of the process subsystem and the delivery of signals are correct, as far as
  they are: the table hands out each id once, and the boot leaves id 1 without a process.
\<close>

section \<open>A kernel before the boot\<close>

definition blank_kernel :: kernel where
  "blank_kernel = \<lparr>procs = Map.empty, process_table = replicate MAX_PROCESSES None, current = None, next_pid = 1,
     sched = \<lparr>nodes = Map.empty, root = None, leftmost = None, min_vruntime = 0, clock_ticks = 0,
       sched_nodes = replicate MAX_PROCESSES None, sched_enabled = False\<rparr>\<rparr>"

lemma blank_kernel_ok: "table_ok blank_kernel"
  by (simp add: table_ok_def blank_kernel_def)

section \<open>Allocation\<close>

text \<open>C15. \<^verbatim>\<open>process_alloc\<close>, with memory available, fails exactly when each of the ids 1 to 255 has a
  process, and then it changes nothing. Otherwise it returns the new structure under an id that was free, with
  every other id left as it was, and \<^verbatim>\<open>process_free\<close> of the result gives back the table from before. The search
  position stays between 1 and 255 in both cases.\<close>

theorem process_alloc_correct:
  assumes "table_ok k" "process_alloc (Some a) (Some f) k = (r, k')"
  shows "table_ok k' \<and>
    (r = None \<longleftrightarrow> (\<forall>i. 1 \<le> i \<and> i < MAX_PROCESSES \<longrightarrow> process_find (of_nat i) k \<noteq> None)) \<and>
    (r = None \<longrightarrow> k' = k) \<and>
    (r \<noteq> None \<longrightarrow> (\<exists>p. r = Some a \<and> procs k' a = Some p \<and> state p = PROCESS_STATE_EMBRYO \<and>
       1 \<le> unat (pid p) \<and> unat (pid p) < MAX_PROCESSES \<and> process_find (pid p) k = None \<and>
       (\<forall>j. process_find j k' = (if j = pid p then Some a else process_find j k)) \<and>
       (\<exists>k''. process_free a k' = Some k'' \<and> (\<forall>j. process_find j k'' = process_find j k))))"
proof -
  have full: "find_slot k = 0 \<longleftrightarrow> (\<forall>i. 1 \<le> i \<and> i < MAX_PROCESSES \<longrightarrow> process_find (of_nat i) k \<noteq> None)"
    using find_slot_full [OF assms(1)] by (simp add: process_find_def)
  have ok: "table_ok k'" by (rule process_alloc_ok [OF assms])
  show ?thesis
  proof (cases "find_slot k = 0")
    case True
    then show ?thesis using full ok assms(2) by (simp add: process_alloc_fails)
  next
    case False
    let ?i = "find_slot k"
    note free = find_slot_free [OF assms(1) False]
    note got = process_alloc_takes [OF assms(1) refl False assms(2)]
    have len: "length (process_table k) = MAX_PROCESSES" "length (process_table k') = MAX_PROCESSES"
      using assms(1) ok by (simp_all add: table_ok_def)
    let ?p = "blank_process\<lparr>pid := of_nat ?i, refcount := 1, state := PROCESS_STATE_EMBRYO\<rparr>"
    have p: "procs k' a = Some ?p" by (simp add: got(3))
    have find: "process_find j k' = (if j = pid ?p then Some a else process_find j k)" for j
      using process_find_table [OF got(2) len(1)] free by simp
    have old: "process_find (pid ?p) k = None" using free by (simp add: process_find_def)
    from process_free_table [OF p _ len(2)] obtain k'' where
      "process_free a k' = Some k''" "\<And>j. process_find j k'' = (if j = pid ?p then None else process_find j k')"
      by (auto simp: find)
    then have "\<exists>k''. process_free a k' = Some k'' \<and> (\<forall>j. process_find j k'' = process_find j k)"
      using find old by (intro exI [of _ k'']) auto
    then show ?thesis using got(1) p find old free full False ok by auto
  qed
qed

theorem process_alloc_correct_witness:
  "\<exists>k' p. process_alloc (Some 4096) (Some 8192) blank_kernel = (Some 4096, k') \<and> table_ok k' \<and> procs k' 4096 = Some p \<and>
     (\<forall>j. process_find j k' = (if j = pid p then Some 4096 else process_find j blank_kernel))"
proof -
  obtain r k' where e: "process_alloc (Some 4096) (Some 8192) blank_kernel = (r, k')" by fastforce
  have "process_find (of_nat 1) blank_kernel = None" by (simp add: process_find_def blank_kernel_def)
  then have "r \<noteq> None" using process_alloc_correct [OF blank_kernel_ok e] by fastforce
  then have "table_ok k' \<and> (\<exists>p. r = Some 4096 \<and> procs k' 4096 = Some p \<and>
      (\<forall>j. process_find j k' = (if j = pid p then Some 4096 else process_find j blank_kernel)))"
    using process_alloc_correct [OF blank_kernel_ok e] by blast
  then show ?thesis using e by blast
qed

section \<open>Boot\<close>

lemma process_alloc_at:
  assumes "table_ok k" "process_table k ! unat (next_pid k) = None"
  shows "find_slot k = unat (next_pid k)"
proof -
  have "find (\<lambda>i. process_table k ! i = None) [unat (next_pid k)..<MAX_PROCESSES] = Some (unat (next_pid k))"
    using assms unfolding find_upt_Some_iff table_ok_def by auto
  then show ?thesis by (simp only: find_slot_eq [OF assms(1)] option.case)
qed

lemma init_alloc:
  "process_alloc (Some a) (Some f) (process_subsystem_init k) =
    (Some a, (process_subsystem_init k)\<lparr>procs := (procs k)(a \<mapsto> blank_process\<lparr>pid := 1, refcount := 1, state := PROCESS_STATE_EMBRYO\<rparr>),
       process_table := (replicate MAX_PROCESSES None)[1 := Some a], next_pid := 2\<rparr>)"
proof -
  have "table_ok (process_subsystem_init k)"
    by (simp add: table_ok_def process_subsystem_init_def scheduler_init_def process_table_init_def)
  then have "find_slot (process_subsystem_init k) = 1"
    using process_alloc_at by (simp add: process_subsystem_init_def scheduler_init_def process_table_init_def)
  then show ?thesis
    by (simp add: process_alloc_def process_subsystem_init_def scheduler_init_def process_table_init_def)
qed

lemma reparent_without_init:
  assumes "process_find 1 k = None"
  shows "reparent_children b k = upd_proc b (children_update (\<lambda>_. None)) k"
proof (cases "procs k b")
  case (Some p)
  have "k\<lparr>procs := (procs k)(b \<mapsto> p\<lparr>children := None\<rparr>)\<rparr> = k" if "children p = None"
  proof -
    have "p\<lparr>children := None\<rparr> = p" using that by simp
    then have "(procs k)(b \<mapsto> p\<lparr>children := None\<rparr>) = procs k" using Some by (simp add: map_upd_triv)
    then show ?thesis by simp
  qed
  then show ?thesis using Some assms by (simp add: reparent_children_def upd_proc_def)
qed (simp add: reparent_children_def upd_proc_def)

text \<open>C33. The boot of the process subsystem makes its first process the idle process under id 0: it takes
  id 1 from the allocator, gives the id up again and leaves the search position at 2. So the first process that is
  made afterwards, meant to be init, gets id 2, id 1 has no process, and the exit of a process with children finds
  no init to give them to: its children keep the exiting process as their parent.\<close>

theorem boot_leaves_no_init:
  "\<exists>k'. process_management_init (Some a) (Some f) (Some st) k = Some k' \<and> table_ok k' \<and>
     current k' = Some a \<and> process_find 0 k' = Some a \<and> (\<forall>i. i \<noteq> 0 \<longrightarrow> process_find i k' = None) \<and>
     fst (process_alloc_pid k') = 2 \<and>
     (\<forall>k''. process_find 1 k'' = None \<longrightarrow> reparent_children b k'' = upd_proc b (children_update (\<lambda>_. None)) k'')"
proof -
  obtain k' where k': "process_management_init (Some a) (Some f) (Some st) k = Some k'"
    "process_table k' = (replicate MAX_PROCESSES None)[0 := Some a]" "current k' = Some a" "next_pid k' = 2"
    by (simp add: process_management_init_def init_alloc upd_proc_def list_update_swap list_update_same_conv)
  have "process_alloc_pid k' = (2, k'\<lparr>next_pid := pid_after 2\<rparr>)"
  proof -
    have "MAX_PROCESSES - 1 = Suc 254" by simp
    then show ?thesis using k'(2,4) unfolding process_alloc_pid_def by (simp only: alloc_pid_loop.simps) simp
  qed
  moreover have "process_find i k' = (if i = 0 then Some a else None)" for i
    using k'(2) by (auto simp: process_find_def nth_list_update unat_eq_0)
  moreover have "table_ok k'" using k'(2,4) by (simp add: table_ok_def)
  ultimately show ?thesis using k'(1,3) reparent_without_init by auto
qed

theorem boot_leaves_no_init_witness:
  "\<exists>k'. process_management_init (Some 4096) (Some 8192) (Some 16384) blank_kernel = Some k' \<and>
     process_find 0 k' = Some 4096 \<and> process_find 1 k' = None \<and> fst (process_alloc_pid k') = 2 \<and>
     reparent_children 4096 k' = upd_proc 4096 (children_update (\<lambda>_. None)) k'"
  using boot_leaves_no_init [of 4096 8192 16384 blank_kernel 4096] by (metis one_neq_zero)

end
