(* ===== verification/Sched_Tree.thy ===== *)
theory Sched_Tree
  imports Sched "HOL-Library.Tree" "HOL-Library.Multiset"
begin

text \<open>
  The run queue's pointer structure as a tree. A tree whose labels are a node's address and colour is laid
  out in the node map below a pointer (\<^verbatim>\<open>tree_at\<close>); the rest of the queue around a subtree is a path of
  frames to the root (\<^verbatim>\<open>ctx_at\<close>). The predicate \<^verbatim>\<open>zip_at\<close> says that the queue is the given path around
  the given subtree. The lemmas about it are what the proofs about the tree operations use: the focus moves
  along the path, the fields of a node can be read off, and each pointer assignment of the source is a change
  of the tree.
\<close>

section \<open>Trees in the node map\<close>

type_synonym label = "nat \<times> bool"

fun tree_at :: "(nat \<rightharpoonup> rb_node) \<Rightarrow> nat option \<Rightarrow> nat option \<Rightarrow> label tree \<Rightarrow> bool" where
  "tree_at h p par Leaf \<longleftrightarrow> p = None"
| "tree_at h p par (Node l (x, c) r) \<longleftrightarrow>
     p = Some x \<and> (\<exists>n. h x = Some n \<and> n_parent n = par \<and> n_red n = c \<and>
       tree_at h (n_left n) (Some x) l \<and> tree_at h (n_right n) (Some x) r)"

text \<open>A frame is a node with one child missing: the left one in \<^verbatim>\<open>InL\<close>, the right one in \<^verbatim>\<open>InR\<close>.\<close>

datatype frame = InL label "label tree" | InR "label tree" label

fun plug :: "frame list \<Rightarrow> label tree \<Rightarrow> label tree" where
  "plug [] t = t"
| "plug (InL a r # fs) t = plug fs (Node t a r)"
| "plug (InR l a # fs) t = plug fs (Node l a t)"

fun ctx_at :: "(nat \<rightharpoonup> rb_node) \<Rightarrow> nat option \<Rightarrow> frame list \<Rightarrow> nat option \<Rightarrow> nat option \<Rightarrow> bool" where
  "ctx_at h rt [] p par \<longleftrightarrow> rt = p \<and> par = None"
| "ctx_at h rt (InL (x, c) r # fs) p par \<longleftrightarrow>
     par = Some x \<and> (\<exists>n. h x = Some n \<and> n_left n = p \<and> n_red n = c \<and>
       tree_at h (n_right n) (Some x) r \<and> ctx_at h rt fs (Some x) (n_parent n))"
| "ctx_at h rt (InR l (x, c) # fs) p par \<longleftrightarrow>
     par = Some x \<and> (\<exists>n. h x = Some n \<and> n_right n = p \<and> n_red n = c \<and>
       tree_at h (n_left n) (Some x) l \<and> ctx_at h rt fs (Some x) (n_parent n))"

definition addrs :: "label tree \<Rightarrow> nat list" where
  "addrs t = map fst (inorder t)"

fun ctx_addrs :: "frame list \<Rightarrow> nat list" where
  "ctx_addrs [] = []"
| "ctx_addrs (InL a r # fs) = fst a # addrs r @ ctx_addrs fs"
| "ctx_addrs (InR l a # fs) = fst a # addrs l @ ctx_addrs fs"

definition root_of :: "label tree \<Rightarrow> nat option" where
  "root_of t = (case t of Leaf \<Rightarrow> None | Node l a r \<Rightarrow> Some (fst a))"

definition ctx_parent :: "frame list \<Rightarrow> nat option" where
  "ctx_parent fs = (case fs of [] \<Rightarrow> None | InL a r # _ \<Rightarrow> Some (fst a) | InR l a # _ \<Rightarrow> Some (fst a))"

lemma addrs_simps [simp]: "addrs Leaf = []" "addrs (Node l a r) = addrs l @ fst a # addrs r"
  by (simp_all add: addrs_def)

lemma root_of_simps [simp]: "root_of Leaf = None" "root_of (Node l a r) = Some (fst a)"
  by (simp_all add: root_of_def)

lemma ctx_parent_simps [simp]:
  "ctx_parent [] = None" "ctx_parent (InL a r # fs) = Some (fst a)" "ctx_parent (InR l a # fs) = Some (fst a)"
  by (simp_all add: ctx_parent_def)

lemma root_of_in: "root_of t = Some x \<Longrightarrow> x \<in> set (addrs t)"
  by (cases t) auto

lemma tree_at_root: "tree_at h p par t \<Longrightarrow> p = root_of t"
  by (cases t) auto

lemma ctx_at_parent: "ctx_at h rt fs p par \<Longrightarrow> par = ctx_parent fs"
  by (cases fs rule: ctx_addrs.cases) auto

lemma tree_at_upd [simp]: "z \<notin> set (addrs t) \<Longrightarrow> tree_at (h(z := v)) p par t = tree_at h p par t"
  by (induction t arbitrary: p par) auto

lemma ctx_at_upd [simp]: "z \<notin> set (ctx_addrs fs) \<Longrightarrow> ctx_at (h(z := v)) rt fs p par = ctx_at h rt fs p par"
  by (induction fs arbitrary: p par rule: ctx_addrs.induct) auto

lemma addrs_plug: "mset (addrs (plug fs t)) = mset (addrs t @ ctx_addrs fs)"
  by (induction fs t rule: plug.induct) (auto simp: ac_simps)

lemma distinct_plug: "distinct (addrs (plug fs t)) \<longleftrightarrow> distinct (addrs t @ ctx_addrs fs)"
  using addrs_plug [of fs t] by (rule mset_eq_imp_distinct_iff)

lemma plug_at: "tree_at h rt None (plug fs t) \<longleftrightarrow> ctx_at h rt fs (root_of t) (ctx_parent fs) \<and> tree_at h (root_of t) (ctx_parent fs) t"
proof (induction fs t rule: plug.induct)
  case (1 t)
  show ?case using tree_at_root by auto
next
  case (2 a r fs t)
  obtain x c where [simp]: "a = (x, c)" by (cases a)
  show ?case
  proof (cases "h x")
    case (Some n)
    then show ?thesis
      using 2 tree_at_root [of h "n_left n" "Some x" t] ctx_at_parent [of h rt fs "Some x" "n_parent n"]
      by auto
  qed (use 2 in simp)
next
  case (3 l a fs t)
  obtain x c where [simp]: "a = (x, c)" by (cases a)
  show ?case
  proof (cases "h x")
    case (Some n)
    then show ?thesis
      using 3 tree_at_root [of h "n_right n" "Some x" t] ctx_at_parent [of h rt fs "Some x" "n_parent n"]
      by auto
  qed (use 3 in simp)
qed

section \<open>The queue around a focus\<close>

definition zip_at :: "sched_state \<Rightarrow> frame list \<Rightarrow> label tree \<Rightarrow> bool" where
  "zip_at s fs t \<longleftrightarrow> distinct (addrs (plug fs t)) \<and> tree_at (nodes s) (root s) None (plug fs t)"

lemma zip_at_move: "zip_at s (InL a r # fs) t = zip_at s fs (Node t a r)" "zip_at s (InR l a # fs) t = zip_at s fs (Node l a t)"
  by (simp_all add: zip_at_def)

lemma zip_at_plug: "zip_at s fs t \<longleftrightarrow> zip_at s [] (plug fs t)"
  by (simp add: zip_at_def)

lemma zip_at_iff: "zip_at s fs t \<longleftrightarrow> distinct (addrs t @ ctx_addrs fs) \<and>
    ctx_at (nodes s) (root s) fs (root_of t) (ctx_parent fs) \<and> tree_at (nodes s) (root_of t) (ctx_parent fs) t"
  by (simp only: zip_at_def distinct_plug plug_at)

lemma zip_read:
  assumes "zip_at s fs (Node l (x, c) r)"
  shows "nodes s x = Some \<lparr>n_left = root_of l, n_right = root_of r, n_parent = ctx_parent fs, n_red = c,
           n_process = n_process (the (nodes s x)), n_vruntime = n_vruntime (the (nodes s x))\<rparr>"
  using assms tree_at_root unfolding zip_at_iff by auto

section \<open>What the tree operations leave alone\<close>

text \<open>The links and colours change; the processes and keys of the nodes and the rest of the state do not.\<close>

definition payload :: "(nat \<rightharpoonup> rb_node) \<Rightarrow> nat \<Rightarrow> (nat \<times> u64) option" where
  "payload h x = map_option (\<lambda>n. (n_process n, n_vruntime n)) (h x)"

definition same_data :: "sched_state \<Rightarrow> sched_state \<Rightarrow> bool" where
  "same_data s s' \<longleftrightarrow> payload (nodes s') = payload (nodes s) \<and> leftmost s' = leftmost s \<and>
     min_vruntime s' = min_vruntime s \<and> clock_ticks s' = clock_ticks s \<and> sched_nodes s' = sched_nodes s \<and>
     sched_enabled s' = sched_enabled s"

lemma same_data_refl [simp]: "same_data s s"
  by (simp add: same_data_def)

lemma same_data_trans [trans]: "same_data s s' \<Longrightarrow> same_data s' s'' \<Longrightarrow> same_data s s''"
  by (simp add: same_data_def)

lemma same_data_node:
  assumes "nodes s x = Some n" "n_process n' = n_process n" "n_vruntime n' = n_vruntime n"
  shows "same_data s (s\<lparr>nodes := (nodes s)(x \<mapsto> n')\<rparr>)"
  using assms by (auto simp: same_data_def payload_def)

lemma same_data_root: "same_data s (s\<lparr>root := r\<rparr>)"
  by (simp add: same_data_def)

section \<open>Assignments to a subtree and to its place\<close>

lemma tree_at_cong: "(\<And>z. z \<in> set (addrs t) \<Longrightarrow> h' z = h z) \<Longrightarrow> tree_at h' p par t = tree_at h p par t"
  by (induction t arbitrary: p par) auto

lemma ctx_at_cong: "(\<And>z. z \<in> set (ctx_addrs fs) \<Longrightarrow> h' z = h z) \<Longrightarrow> ctx_at h' rt fs p par = ctx_at h rt fs p par"
proof (induction fs arbitrary: p par rule: ctx_addrs.induct)
  case (2 a r fs)
  then have "tree_at h' q par' r = tree_at h q par' r" for q par' by (intro tree_at_cong) auto
  then show ?case using 2 by (cases a) auto
next
  case (3 l a fs)
  then have "tree_at h' q par' l = tree_at h q par' l" for q par' by (intro tree_at_cong) auto
  then show ?case using 3 by (cases a) auto
qed auto

lemma tree_at_notin: "x \<notin> set (addrs t) \<Longrightarrow> \<not> tree_at h (Some x) par t"
  by (cases t) auto

text \<open>A subtree gets a new parent.\<close>

lemma reparent_subtree:
  assumes "tree_at (nodes s) (root_of t) par t" "distinct (addrs t)"
  shows "\<exists>s'. upd_opt (root_of t) (n_parent_update (\<lambda>_. q)) s = Some s' \<and> tree_at (nodes s') (root_of t) q t \<and>
    (\<forall>z. z \<notin> set (addrs t) \<longrightarrow> nodes s' z = nodes s z) \<and> root s' = root s \<and> same_data s s'"
proof (cases t)
  case (Node l a r)
  obtain x c where "a = (x, c)" by (cases a)
  then show ?thesis using assms Node by (auto simp: upd_opt_def upd_node_def intro!: same_data_node)
qed (simp add: upd_opt_def)

text \<open>Another subtree takes the place of the one at \<^verbatim>\<open>x\<close>.\<close>

lemma replace_in_context:
  assumes "ctx_at (nodes s) (root s) fs (Some x) (ctx_parent fs)" "x \<notin> set (ctx_addrs fs)" "distinct (ctx_addrs fs)"
  shows "\<exists>s'. replace_child (ctx_parent fs) x p s = Some s' \<and> ctx_at (nodes s') (root s') fs p (ctx_parent fs) \<and>
    (\<forall>z. z \<notin> set (ctx_addrs fs) \<longrightarrow> nodes s' z = nodes s z) \<and> same_data s s'"
proof (cases fs rule: ctx_addrs.cases)
  case 1
  then show ?thesis using assms by (simp add: replace_child_def same_data_root)
next
  case (2 a r fs')
  obtain q c where "a = (q, c)" by (cases a)
  then show ?thesis using assms 2
    by (auto simp: replace_child_def upd_node_def intro!: same_data_node)
next
  case (3 l a fs')
  obtain q c where a: "a = (q, c)" by (cases a)
  have "\<not> tree_at (nodes s) (Some x) (Some q) l" using assms(2) 3 by (intro tree_at_notin) auto
  then show ?thesis using assms 3 a
    by (auto simp: replace_child_def upd_node_def intro!: same_data_node)
qed

section \<open>Rotations\<close>

lemma rotate_left_zip:
  assumes "zip_at s fs (Node a (x, cx) (Node b (y, cy) c))"
  shows "\<exists>s'. rbtree_rotate_left x s = Some s' \<and> zip_at s' fs (Node (Node a (x, cx) b) (y, cy) c) \<and> same_data s s'"
proof -
  from assms have dist: "distinct (addrs (Node a (x, cx) (Node b (y, cy) c)) @ ctx_addrs fs)"
    and ctx: "ctx_at (nodes s) (root s) fs (Some x) (ctx_parent fs)"
    and t: "tree_at (nodes s) (Some x) (ctx_parent fs) (Node a (x, cx) (Node b (y, cy) c))"
    by (simp_all add: zip_at_iff)
  from t obtain n m where n: "nodes s x = Some n" "n_parent n = ctx_parent fs" "n_red n = cx" "n_right n = Some y"
    and m: "nodes s y = Some m" "n_red m = cy"
    and a: "tree_at (nodes s) (n_left n) (Some x) a" and b: "tree_at (nodes s) (n_left m) (Some y) b"
    and c: "tree_at (nodes s) (n_right m) (Some y) c" by auto
  have mb: "n_left m = root_of b" using b by (rule tree_at_root)
  let ?n1 = "n\<lparr>n_right := root_of b\<rparr>"
  let ?s1 = "s\<lparr>nodes := (nodes s)(x \<mapsto> ?n1)\<rparr>"
  have "tree_at (nodes ?s1) (root_of b) (Some y) b" using b mb dist by simp
  with dist obtain s2 where s2: "upd_opt (root_of b) (n_parent_update (\<lambda>_. Some x)) ?s1 = Some s2"
    "tree_at (nodes s2) (root_of b) (Some x) b" "\<forall>z. z \<notin> set (addrs b) \<longrightarrow> nodes s2 z = nodes ?s1 z"
    "root s2 = root s" "same_data ?s1 s2"
    using reparent_subtree [of ?s1 b "Some y" "Some x"] by auto
  have x2: "nodes s2 x = Some ?n1" and y2: "nodes s2 y = Some m" using s2(3) dist m(1) by auto
  let ?m1 = "m\<lparr>n_parent := ctx_parent fs\<rparr>"
  let ?s3 = "s2\<lparr>nodes := (nodes s2)(y \<mapsto> ?m1)\<rparr>"
  have "ctx_at (nodes ?s3) (root ?s3) fs (Some x) (ctx_parent fs)"
    using ctx dist s2(3,4) by (subst ctx_at_cong [of fs _ "nodes s"]) auto
  with dist obtain s4 where s4: "replace_child (ctx_parent fs) x (Some y) ?s3 = Some s4"
    "ctx_at (nodes s4) (root s4) fs (Some y) (ctx_parent fs)"
    "\<forall>z. z \<notin> set (ctx_addrs fs) \<longrightarrow> nodes s4 z = nodes ?s3 z" "same_data ?s3 s4"
    using replace_in_context [of ?s3 fs x "Some y"] by auto
  let ?m2 = "?m1\<lparr>n_left := Some x\<rparr>" and ?n2 = "?n1\<lparr>n_parent := Some y\<rparr>"
  let ?s6 = "s4\<lparr>nodes := (nodes s4)(y \<mapsto> ?m2, x \<mapsto> ?n2)\<rparr>"
  have x4: "nodes s4 x = Some ?n1" and y4: "nodes s4 y = Some ?m1" using s4(3) dist x2 by auto
  have rot: "rbtree_rotate_left x s = Some ?s6"
    using n m mb s2(1) x2 y2 s4(1) x4 y4 dist by (simp add: rbtree_rotate_left_def upd_node_def)
  have other: "nodes ?s6 z = nodes s2 z" if "z \<notin> set (ctx_addrs fs)" "z \<noteq> x" "z \<noteq> y" for z
    using that s4(3) by simp
  have "tree_at (nodes ?s6) (root_of b) (Some x) b"
    using s2(2) dist other by (subst tree_at_cong [of b _ "nodes s2"]) auto
  moreover have "nodes ?s6 z = nodes s z" if "z \<in> set (addrs a) \<union> set (addrs c)" for z
  proof -
    have "z \<notin> set (ctx_addrs fs)" "z \<noteq> x" "z \<noteq> y" "z \<notin> set (addrs b)" using that dist by auto
    then show ?thesis using other s2(3) by simp
  qed
  then have "tree_at (nodes ?s6) (n_left n) (Some x) a" "tree_at (nodes ?s6) (n_right m) (Some y) c"
    using a c tree_at_cong [of a "nodes ?s6" "nodes s"] tree_at_cong [of c "nodes ?s6" "nodes s"] by simp_all
  moreover have "ctx_at (nodes ?s6) (root ?s6) fs (Some y) (ctx_parent fs)"
    using s4(2) dist by simp
  ultimately have "zip_at ?s6 fs (Node (Node a (x, cx) b) (y, cy) c)"
    using n(3) m(2) dist unfolding zip_at_iff by auto
  moreover have "same_data s ?s6"
  proof -
    have "same_data s ?s1" using n(1) by (intro same_data_node) auto
    also note s2(5)
    also have "same_data s2 ?s3" using y2 by (intro same_data_node) auto
    also note s4(4)
    also have "same_data s4 ?s6" using x4 y4 by (auto simp: same_data_def payload_def)
    finally show ?thesis .
  qed
  ultimately show ?thesis using rot by blast
qed

lemma rotate_right_zip:
  assumes "zip_at s fs (Node (Node c (y, cy) b) (x, cx) a)"
  shows "\<exists>s'. rbtree_rotate_right x s = Some s' \<and> zip_at s' fs (Node c (y, cy) (Node b (x, cx) a)) \<and> same_data s s'"
proof -
  from assms have dist: "distinct (addrs (Node (Node c (y, cy) b) (x, cx) a) @ ctx_addrs fs)"
    and ctx: "ctx_at (nodes s) (root s) fs (Some x) (ctx_parent fs)"
    and t: "tree_at (nodes s) (Some x) (ctx_parent fs) (Node (Node c (y, cy) b) (x, cx) a)"
    by (simp_all add: zip_at_iff)
  from t obtain n m where n: "nodes s x = Some n" "n_parent n = ctx_parent fs" "n_red n = cx" "n_left n = Some y"
    and m: "nodes s y = Some m" "n_red m = cy"
    and a: "tree_at (nodes s) (n_right n) (Some x) a" and b: "tree_at (nodes s) (n_right m) (Some y) b"
    and c: "tree_at (nodes s) (n_left m) (Some y) c" by auto
  have mb: "n_right m = root_of b" using b by (rule tree_at_root)
  let ?n1 = "n\<lparr>n_left := root_of b\<rparr>"
  let ?s1 = "s\<lparr>nodes := (nodes s)(x \<mapsto> ?n1)\<rparr>"
  have "tree_at (nodes ?s1) (root_of b) (Some y) b" using b mb dist by simp
  with dist obtain s2 where s2: "upd_opt (root_of b) (n_parent_update (\<lambda>_. Some x)) ?s1 = Some s2"
    "tree_at (nodes s2) (root_of b) (Some x) b" "\<forall>z. z \<notin> set (addrs b) \<longrightarrow> nodes s2 z = nodes ?s1 z"
    "root s2 = root s" "same_data ?s1 s2"
    using reparent_subtree [of ?s1 b "Some y" "Some x"] by auto
  have x2: "nodes s2 x = Some ?n1" and y2: "nodes s2 y = Some m" using s2(3) dist m(1) by auto
  let ?m1 = "m\<lparr>n_parent := ctx_parent fs\<rparr>"
  let ?s3 = "s2\<lparr>nodes := (nodes s2)(y \<mapsto> ?m1)\<rparr>"
  have "ctx_at (nodes ?s3) (root ?s3) fs (Some x) (ctx_parent fs)"
    using ctx dist s2(3,4) by (subst ctx_at_cong [of fs _ "nodes s"]) auto
  with dist obtain s4 where s4: "replace_child (ctx_parent fs) x (Some y) ?s3 = Some s4"
    "ctx_at (nodes s4) (root s4) fs (Some y) (ctx_parent fs)"
    "\<forall>z. z \<notin> set (ctx_addrs fs) \<longrightarrow> nodes s4 z = nodes ?s3 z" "same_data ?s3 s4"
    using replace_in_context [of ?s3 fs x "Some y"] by auto
  let ?m2 = "?m1\<lparr>n_right := Some x\<rparr>" and ?n2 = "?n1\<lparr>n_parent := Some y\<rparr>"
  let ?s6 = "s4\<lparr>nodes := (nodes s4)(y \<mapsto> ?m2, x \<mapsto> ?n2)\<rparr>"
  have x4: "nodes s4 x = Some ?n1" and y4: "nodes s4 y = Some ?m1" using s4(3) dist x2 by auto
  have rot: "rbtree_rotate_right x s = Some ?s6"
    using n m mb s2(1) x2 y2 s4(1) x4 y4 dist by (simp add: rbtree_rotate_right_def upd_node_def)
  have other: "nodes ?s6 z = nodes s2 z" if "z \<notin> set (ctx_addrs fs)" "z \<noteq> x" "z \<noteq> y" for z
    using that s4(3) by simp
  have "tree_at (nodes ?s6) (root_of b) (Some x) b"
    using s2(2) dist other by (subst tree_at_cong [of b _ "nodes s2"]) auto
  moreover have "nodes ?s6 z = nodes s z" if "z \<in> set (addrs a) \<union> set (addrs c)" for z
  proof -
    have "z \<notin> set (ctx_addrs fs)" "z \<noteq> x" "z \<noteq> y" "z \<notin> set (addrs b)" using that dist by auto
    then show ?thesis using other s2(3) by simp
  qed
  then have "tree_at (nodes ?s6) (n_right n) (Some x) a" "tree_at (nodes ?s6) (n_left m) (Some y) c"
    using a c tree_at_cong [of a "nodes ?s6" "nodes s"] tree_at_cong [of c "nodes ?s6" "nodes s"] by simp_all
  moreover have "ctx_at (nodes ?s6) (root ?s6) fs (Some y) (ctx_parent fs)"
    using s4(2) dist by simp
  ultimately have "zip_at ?s6 fs (Node c (y, cy) (Node b (x, cx) a))"
    using n(3) m(2) dist unfolding zip_at_iff by auto
  moreover have "same_data s ?s6"
  proof -
    have "same_data s ?s1" using n(1) by (intro same_data_node) auto
    also note s2(5)
    also have "same_data s2 ?s3" using y2 by (intro same_data_node) auto
    also note s4(4)
    also have "same_data s4 ?s6" using x4 y4 by (auto simp: same_data_def payload_def)
    finally show ?thesis .
  qed
  ultimately show ?thesis using rot by blast
qed

end
