(* ===== verification/Sched_Insert.thy ===== *)
theory Sched_Insert
  imports Sched_Tree
begin

text \<open>
  The insertion into the run queue refines insertion into a tree. The rounds of \<^verbatim>\<open>rbtree_insert_fixup\<close> are
  rewritings of the tree around the new node (\<^verbatim>\<open>fixup\<close>); the loop always ends, because each round that goes
  on moves two nodes up. Red-black trees are kept, and the processes stay in the order of their keys, with the
  new one after those that have the same key.
\<close>

section \<open>Reading and colouring\<close>

definition red_root :: "label tree \<Rightarrow> bool" where
  "red_root t = (case t of Leaf \<Rightarrow> False | Node l a r \<Rightarrow> snd a)"

lemma red_root_simps [simp]: "red_root Leaf = False" "red_root (Node l a r) = snd a"
  by (simp_all add: red_root_def)

fun paint :: "bool \<Rightarrow> label tree \<Rightarrow> label tree" where
  "paint c Leaf = Leaf"
| "paint c (Node l (x, _) r) = Node l (x, c) r"

lemma zip_node:
  assumes "zip_at s fs (Node l (x, c) r)"
  obtains n where "nodes s x = Some n" "n_left n = root_of l" "n_right n = root_of r" "n_parent n = ctx_parent fs" "n_red n = c"
  using zip_read [OF assms] by (metis rb_node.select_convs(1-4))

lemma zip_red_opt: "zip_at s fs t \<Longrightarrow> red_opt (root_of t) s = Some (red_root t)"
  by (cases t) (auto simp: red_opt_def zip_at_iff)

lemma zip_root: "zip_at s fs t \<Longrightarrow> root s = root_of (plug fs t)"
  unfolding zip_at_def by (blast intro: tree_at_root)

lemma zip_colour:
  assumes "zip_at s fs (Node l (x, c) r)"
  shows "\<exists>s'. upd_node x (n_red_update (\<lambda>_. c')) s = Some s' \<and> zip_at s' fs (Node l (x, c') r) \<and> same_data s s'"
  using assms unfolding zip_at_iff by (auto simp: upd_node_def intro!: same_data_node)

lemma zip_blacken:
  assumes "zip_at s [] t"
  shows "\<exists>s'. upd_opt (root s) (n_red_update (\<lambda>_. False)) s = Some s' \<and> zip_at s' [] (paint False t) \<and> same_data s s'"
proof (cases t)
  case Leaf
  then show ?thesis using assms zip_root [OF assms] by (simp add: upd_opt_def)
next
  case (Node l a r)
  obtain x c where "a = (x, c)" by (cases a)
  then show ?thesis using assms zip_root [OF assms] zip_colour [of s "[]" l x c r False] Node by (simp add: upd_opt_def)
qed

section \<open>The rounds of the fixup\<close>

lemma zip_children:
  assumes "zip_at s fs (Node l (x, c) r)"
  shows "zip_at s (InL (x, c) r # fs) l" "zip_at s (InR l (x, c) # fs) r"
  using assms by (simp_all add: zip_at_move)

lemma recolour_zip_left:
  assumes "zip_at s fs (Node (Node pl (p, cp) pr) (g, cg) (Node ul (u, cu) ur))"
  shows "\<exists>s'. recolour p u g s = Some (g, s') \<and>
    zip_at s' fs (Node (Node pl (p, False) pr) (g, True) (Node ul (u, False) ur)) \<and> same_data s s'"
proof -
  from zip_colour [OF zip_children(1) [OF assms], of False] obtain s1 where
    1: "upd_node p (n_red_update (\<lambda>_. False)) s = Some s1" "same_data s s1"
      "zip_at s1 fs (Node (Node pl (p, False) pr) (g, cg) (Node ul (u, cu) ur))" by (auto simp: zip_at_move)
  from zip_colour [OF zip_children(2) [OF 1(3)], of False] obtain s2 where
    2: "upd_node u (n_red_update (\<lambda>_. False)) s1 = Some s2" "same_data s1 s2"
      "zip_at s2 fs (Node (Node pl (p, False) pr) (g, cg) (Node ul (u, False) ur))" by (auto simp: zip_at_move)
  from zip_colour [OF 2(3), of True] 1 2 show ?thesis
    by (auto simp: recolour_def dest: same_data_trans [OF same_data_trans [OF 1(2) 2(2)]])
qed

lemma recolour_zip_right:
  assumes "zip_at s fs (Node (Node ul (u, cu) ur) (g, cg) (Node pl (p, cp) pr))"
  shows "\<exists>s'. recolour p u g s = Some (g, s') \<and>
    zip_at s' fs (Node (Node ul (u, False) ur) (g, True) (Node pl (p, False) pr)) \<and> same_data s s'"
proof -
  from zip_colour [OF zip_children(2) [OF assms], of False] obtain s1 where
    1: "upd_node p (n_red_update (\<lambda>_. False)) s = Some s1" "same_data s s1"
      "zip_at s1 fs (Node (Node ul (u, cu) ur) (g, cg) (Node pl (p, False) pr))" by (auto simp: zip_at_move)
  from zip_colour [OF zip_children(1) [OF 1(3)], of False] obtain s2 where
    2: "upd_node u (n_red_update (\<lambda>_. False)) s1 = Some s2" "same_data s1 s2"
      "zip_at s2 fs (Node (Node ul (u, False) ur) (g, cg) (Node pl (p, False) pr))" by (auto simp: zip_at_move)
  from zip_colour [OF 2(3), of True] 1 2 show ?thesis
    by (auto simp: recolour_def dest: same_data_trans [OF same_data_trans [OF 1(2) 2(2)]])
qed

lemma fixup_rotate_right_zip:
  assumes "zip_at s fs (Node (Node (Node l (x, cx) r) (p, cp) b) (g, cg) u)"
  shows "\<exists>s'. fixup_rotate rbtree_rotate_right x s = Some (x, s') \<and>
    zip_at s' fs (Node (Node l (x, cx) r) (p, False) (Node b (g, True) u)) \<and> same_data s s'"
proof -
  note zp = zip_children(1) [OF assms]
  obtain n where n: "nodes s x = Some n" "n_parent n = Some p"
    by (rule zip_node [OF zip_children(1) [OF zp]]) simp
  from zip_colour [OF zp, of False] obtain s1 where
    1: "upd_node p (n_red_update (\<lambda>_. False)) s = Some s1" "same_data s s1"
      "zip_at s1 fs (Node (Node (Node l (x, cx) r) (p, False) b) (g, cg) u)" by (auto simp: zip_at_move)
  obtain pn where pn: "nodes s1 p = Some pn" "n_parent pn = Some g"
    by (rule zip_node [OF zip_children(1) [OF 1(3)]]) simp
  from zip_colour [OF 1(3), of True] obtain s2 where
    2: "upd_node g (n_red_update (\<lambda>_. True)) s1 = Some s2" "same_data s1 s2"
      "zip_at s2 fs (Node (Node (Node l (x, cx) r) (p, False) b) (g, True) u)" by auto
  from rotate_right_zip [OF 2(3)] n pn 1 2 show ?thesis
    by (auto simp: fixup_rotate_def dest: same_data_trans [OF same_data_trans [OF 1(2) 2(2)]])
qed

lemma fixup_rotate_left_zip:
  assumes "zip_at s fs (Node u (g, cg) (Node b (p, cp) (Node l (x, cx) r)))"
  shows "\<exists>s'. fixup_rotate rbtree_rotate_left x s = Some (x, s') \<and>
    zip_at s' fs (Node (Node u (g, True) b) (p, False) (Node l (x, cx) r)) \<and> same_data s s'"
proof -
  note zp = zip_children(2) [OF assms]
  obtain n where n: "nodes s x = Some n" "n_parent n = Some p"
    by (rule zip_node [OF zip_children(2) [OF zp]]) simp
  from zip_colour [OF zp, of False] obtain s1 where
    1: "upd_node p (n_red_update (\<lambda>_. False)) s = Some s1" "same_data s s1"
      "zip_at s1 fs (Node u (g, cg) (Node b (p, False) (Node l (x, cx) r)))" by (auto simp: zip_at_move)
  obtain pn where pn: "nodes s1 p = Some pn" "n_parent pn = Some g"
    by (rule zip_node [OF zip_children(2) [OF 1(3)]]) simp
  from zip_colour [OF 1(3), of True] obtain s2 where
    2: "upd_node g (n_red_update (\<lambda>_. True)) s1 = Some s2" "same_data s1 s2"
      "zip_at s2 fs (Node u (g, True) (Node b (p, False) (Node l (x, cx) r)))" by auto
  from rotate_left_zip [OF 2(3)] n pn 1 2 show ?thesis
    by (auto simp: fixup_rotate_def dest: same_data_trans [OF same_data_trans [OF 1(2) 2(2)]])
qed

lemma fixup_left_red:
  assumes "zip_at s fs (Node (Node pl (p, cp) pr) (g, cg) (Node ul (u, True) ur))"
  shows "\<exists>s'. insert_fixup_left x p g s = Some (g, s') \<and>
    zip_at s' fs (Node (Node pl (p, False) pr) (g, True) (Node ul (u, False) ur)) \<and> same_data s s'"
proof -
  obtain gn where "nodes s g = Some gn" "n_right gn = Some u" by (rule zip_node [OF assms]) simp
  moreover have "red_opt (Some u) s = Some True" using zip_red_opt [OF zip_children(2) [OF assms]] by simp
  ultimately show ?thesis using recolour_zip_left [OF assms] by (simp add: insert_fixup_left_def)
qed

lemma fixup_left_outer:
  assumes "zip_at s fs (Node (Node (Node l (x, cx) r) (p, cp) b) (g, cg) (u))" "\<not> red_root u"
  shows "\<exists>s'. insert_fixup_left x p g s = Some (x, s') \<and> zip_at s' fs (Node (Node l (x, cx) r) (p, False) (Node b (g, True) u)) \<and> same_data s s'"
proof -
  obtain gn where "nodes s g = Some gn" "n_right gn = root_of u" by (rule zip_node [OF assms(1)]) simp
  moreover have "red_opt (root_of u) s = Some False" using zip_red_opt [OF zip_children(2) [OF assms(1)]] assms(2) by simp
  moreover obtain pn where "nodes s p = Some pn" "n_right pn = root_of b"
    by (rule zip_node [OF zip_children(1) [OF assms(1)]]) simp
  moreover have "root_of b \<noteq> Some x" using assms(1) root_of_in [of b x] by (auto simp: zip_at_iff)
  ultimately show ?thesis using fixup_rotate_right_zip [OF assms(1)] by (simp add: insert_fixup_left_def)
qed

lemma fixup_left_inner:
  assumes "zip_at s fs (Node (Node a (p, cp) (Node l (x, cx) r)) (g, cg) (u))" "\<not> red_root u"
  shows "\<exists>s'. insert_fixup_left x p g s = Some (p, s') \<and> zip_at s' fs (Node (Node a (p, cp) l) (x, False) (Node r (g, True) u)) \<and> same_data s s'"
proof -
  obtain gn where "nodes s g = Some gn" "n_right gn = root_of u" by (rule zip_node [OF assms(1)]) simp
  moreover have "red_opt (root_of u) s = Some False" using zip_red_opt [OF zip_children(2) [OF assms(1)]] assms(2) by simp
  moreover obtain pn where "nodes s p = Some pn" "n_right pn = Some x"
    by (rule zip_node [OF zip_children(1) [OF assms(1)]]) simp
  moreover obtain s1 where s1: "rbtree_rotate_left p s = Some s1" "same_data s s1"
      "zip_at s1 fs (Node (Node (Node a (p, cp) l) (x, cx) r) (g, cg) (u))"
    using rotate_left_zip [OF zip_children(1) [OF assms(1)]] by (auto simp: zip_at_move)
  ultimately show ?thesis using fixup_rotate_right_zip [OF s1(3)]
    by (auto simp: insert_fixup_left_def dest: same_data_trans [OF s1(2)])
qed

lemma fixup_right_red:
  assumes "zip_at s fs (Node (Node ul (u, True) ur) (g, cg) (Node pl (p, cp) pr))"
  shows "\<exists>s'. insert_fixup_right x p g s = Some (g, s') \<and>
    zip_at s' fs (Node (Node ul (u, False) ur) (g, True) (Node pl (p, False) pr)) \<and> same_data s s'"
proof -
  obtain gn where "nodes s g = Some gn" "n_left gn = Some u" by (rule zip_node [OF assms]) simp
  moreover have "red_opt (Some u) s = Some True" using zip_red_opt [OF zip_children(1) [OF assms]] by simp
  ultimately show ?thesis using recolour_zip_right [OF assms] by (simp add: insert_fixup_right_def)
qed

lemma fixup_right_outer:
  assumes "zip_at s fs (Node (u) (g, cg) (Node b (p, cp) (Node l (x, cx) r)))" "\<not> red_root u"
  shows "\<exists>s'. insert_fixup_right x p g s = Some (x, s') \<and> zip_at s' fs (Node (Node u (g, True) b) (p, False) (Node l (x, cx) r)) \<and> same_data s s'"
proof -
  obtain gn where "nodes s g = Some gn" "n_left gn = root_of u" by (rule zip_node [OF assms(1)]) simp
  moreover have "red_opt (root_of u) s = Some False" using zip_red_opt [OF zip_children(1) [OF assms(1)]] assms(2) by simp
  moreover obtain pn where "nodes s p = Some pn" "n_left pn = root_of b"
    by (rule zip_node [OF zip_children(2) [OF assms(1)]]) simp
  moreover have "root_of b \<noteq> Some x" using assms(1) root_of_in [of b x] by (auto simp: zip_at_iff)
  ultimately show ?thesis using fixup_rotate_left_zip [OF assms(1)] by (simp add: insert_fixup_right_def)
qed

lemma fixup_right_inner:
  assumes "zip_at s fs (Node (u) (g, cg) (Node (Node l (x, cx) r) (p, cp) a))" "\<not> red_root u"
  shows "\<exists>s'. insert_fixup_right x p g s = Some (p, s') \<and> zip_at s' fs (Node (Node u (g, True) l) (x, False) (Node r (p, cp) a)) \<and> same_data s s'"
proof -
  obtain gn where "nodes s g = Some gn" "n_left gn = root_of u" by (rule zip_node [OF assms(1)]) simp
  moreover have "red_opt (root_of u) s = Some False" using zip_red_opt [OF zip_children(1) [OF assms(1)]] assms(2) by simp
  moreover obtain pn where "nodes s p = Some pn" "n_left pn = Some x"
    by (rule zip_node [OF zip_children(2) [OF assms(1)]]) simp
  moreover obtain s1 where s1: "rbtree_rotate_right p s = Some s1" "same_data s s1"
      "zip_at s1 fs (Node (u) (g, cg) (Node l (x, cx) (Node r (p, cp) a)))"
    using rotate_right_zip [OF zip_children(2) [OF assms(1)]] by (auto simp: zip_at_move)
  ultimately show ?thesis using fixup_rotate_left_zip [OF s1(3)]
    by (auto simp: insert_fixup_right_def dest: same_data_trans [OF s1(2)])
qed

section \<open>The whole fixup\<close>

text \<open>The fixup on trees: the frames lead from the red focus to the root.\<close>

fun fixup :: "frame list \<Rightarrow> label tree \<Rightarrow> label tree" where
  "fixup (InL (p, True) b # InL (g, cg) u # fs) t =
    (if red_root u then fixup fs (Node (Node t (p, False) b) (g, True) (paint False u))
     else plug fs (Node t (p, False) (Node b (g, True) u)))"
| "fixup (InR a (p, True) # InL (g, cg) u # fs) (Node l x r) =
    (if red_root u then fixup fs (Node (Node a (p, False) (Node l x r)) (g, True) (paint False u))
     else plug fs (Node (Node a (p, True) l) (fst x, False) (Node r (g, True) u)))"
| "fixup (InR b (p, True) # InR u (g, cg) # fs) t =
    (if red_root u then fixup fs (Node (paint False u) (g, True) (Node b (p, False) t))
     else plug fs (Node (Node u (g, True) b) (p, False) t))"
| "fixup (InL (p, True) a # InR u (g, cg) # fs) (Node l x r) =
    (if red_root u then fixup fs (Node (paint False u) (g, True) (Node (Node l x r) (p, False) a))
     else plug fs (Node (Node u (g, True) l) (fst x, False) (Node r (p, True) a)))"
| "fixup fs t = plug fs t"

text \<open>The root is black: the last frame of a path is not red.\<close>

fun frame_red :: "frame \<Rightarrow> bool" where
  "frame_red (InL a r) = snd a"
| "frame_red (InR l a) = snd a"

definition top_black :: "frame list \<Rightarrow> bool" where
  "top_black fs \<longleftrightarrow> fs = [] \<or> \<not> frame_red (last fs)"

lemma fixup_done:
  assumes "zip_at s fs (Node l (x, c) r)" "fs = [] \<or> \<not> frame_red (hd fs)"
  shows "\<exists>s'. rbtree_insert_fixup x s = Some s' \<and> zip_at s' [] (paint False (plug fs (Node l (x, c) r))) \<and> same_data s s'"
proof -
  obtain n where n: "nodes s x = Some n" "n_parent n = ctx_parent fs" by (rule zip_node [OF assms(1)]) simp
  have "red_opt (ctx_parent fs) s = Some False"
  proof (cases fs)
    case (Cons f fs')
    then show ?thesis using assms by (cases f; auto simp: zip_at_iff red_opt_def)
  qed (simp add: red_opt_def)
  then show ?thesis using n zip_blacken [OF assms(1) [unfolded zip_at_plug [of s fs]]]
    by (simp add: rbtree_insert_fixup.simps [of x s])
qed

lemma fixup_black: "fs = [] \<or> \<not> frame_red (hd fs) \<Longrightarrow> fixup fs t = plug fs t"
  by (cases "(fs, t)" rule: fixup.cases) auto

text \<open>A round of the loop, for a parent that is a left child and for one that is a right child.\<close>

lemma round_left:
  assumes "zip_at s fs (Node (Node pl (p, True) pr) (g, cg) u)" "nodes s x = Some n" "n_parent n = Some p"
    "insert_fixup_left x p g s = Some (x', s')"
  shows "rbtree_insert_fixup x s = rbtree_insert_fixup x' s'"
proof -
  obtain pn where "nodes s p = Some pn" "n_parent pn = Some g" "n_red pn"
    by (rule zip_node [OF zip_children(1) [OF assms(1)]]) simp
  moreover obtain gn where "nodes s g = Some gn" "n_left gn = Some p" by (rule zip_node [OF assms(1)]) simp
  ultimately show ?thesis using assms(2-4) by (simp add: rbtree_insert_fixup.simps [of x s] red_opt_def)
qed

lemma round_right:
  assumes "zip_at s fs (Node u (g, cg) (Node pl (p, True) pr))" "nodes s x = Some n" "n_parent n = Some p"
    "insert_fixup_right x p g s = Some (x', s')"
  shows "rbtree_insert_fixup x s = rbtree_insert_fixup x' s'"
proof -
  obtain pn where "nodes s p = Some pn" "n_parent pn = Some g" "n_red pn"
    by (rule zip_node [OF zip_children(2) [OF assms(1)]]) simp
  moreover obtain gn where "nodes s g = Some gn" "n_left gn = root_of u" by (rule zip_node [OF assms(1)]) simp
  moreover have "root_of u \<noteq> Some p" using assms(1) root_of_in [of u p] by (auto simp: zip_at_iff)
  ultimately show ?thesis using assms(2-4) by (simp add: rbtree_insert_fixup.simps [of x s] red_opt_def)
qed

text \<open>With a black uncle the loop ends after one more round; with a red one it goes on at the grandparent.\<close>

lemma fixup_ll:
  assumes "zip_at s (InL (p, True) b # InL (g, cg) u # fs) (Node l (x, True) r)"
  shows "if red_root u
    then \<exists>s'. rbtree_insert_fixup x s = rbtree_insert_fixup g s' \<and> same_data s s' \<and>
      zip_at s' fs (Node (Node (Node l (x, True) r) (p, False) b) (g, True) (paint False u))
    else \<exists>s'. rbtree_insert_fixup x s = Some s' \<and> same_data s s' \<and>
      zip_at s' [] (paint False (plug fs (Node (Node l (x, True) r) (p, False) (Node b (g, True) u))))"
proof -
  from assms have z: "zip_at s fs (Node (Node (Node l (x, True) r) (p, True) b) (g, cg) u)" by (simp add: zip_at_move)
  obtain n where n: "nodes s x = Some n" "n_parent n = Some p" by (rule zip_node [OF assms]) simp
  note round = round_left [OF z n]
  show ?thesis
  proof (cases "red_root u")
    case True
    then obtain ul w ur where u: "u = Node ul (w, True) ur" by (cases u) auto
    then show ?thesis using fixup_left_red [OF z [unfolded u], of x] round by fastforce
  next
    case False
    from fixup_left_outer [OF z False] obtain s1 where s1: "insert_fixup_left x p g s = Some (x, s1)" "same_data s s1"
      "zip_at s1 (InL (p, False) (Node b (g, True) u) # fs) (Node l (x, True) r)" by (auto simp: zip_at_move)
    from fixup_done [OF s1(3)] show ?thesis
      using False round [OF s1(1)] by (auto dest: same_data_trans [OF s1(2)])
  qed
qed

lemma fixup_lr:
  assumes "zip_at s (InR a (p, True) # InL (g, cg) u # fs) (Node l (x, True) r)"
  shows "if red_root u
    then \<exists>s'. rbtree_insert_fixup x s = rbtree_insert_fixup g s' \<and> same_data s s' \<and>
      zip_at s' fs (Node (Node a (p, False) (Node l (x, True) r)) (g, True) (paint False u))
    else \<exists>s'. rbtree_insert_fixup x s = Some s' \<and> same_data s s' \<and>
      zip_at s' [] (paint False (plug fs (Node (Node a (p, True) l) (x, False) (Node r (g, True) u))))"
proof -
  from assms have z: "zip_at s fs (Node (Node a (p, True) (Node l (x, True) r)) (g, cg) u)" by (simp add: zip_at_move)
  obtain n where n: "nodes s x = Some n" "n_parent n = Some p" by (rule zip_node [OF assms]) simp
  note round = round_left [OF z n]
  show ?thesis
  proof (cases "red_root u")
    case True
    then obtain ul w ur where u: "u = Node ul (w, True) ur" by (cases u) auto
    then show ?thesis using fixup_left_red [OF z [unfolded u], of x] round by fastforce
  next
    case False
    from fixup_left_inner [OF z False] obtain s1 where s1: "insert_fixup_left x p g s = Some (p, s1)" "same_data s s1"
      "zip_at s1 (InL (x, False) (Node r (g, True) u) # fs) (Node a (p, True) l)" by (auto simp: zip_at_move)
    from fixup_done [OF s1(3)] show ?thesis
      using False round [OF s1(1)] by (auto dest: same_data_trans [OF s1(2)])
  qed
qed

lemma fixup_rr:
  assumes "zip_at s (InR b (p, True) # InR u (g, cg) # fs) (Node l (x, True) r)"
  shows "if red_root u
    then \<exists>s'. rbtree_insert_fixup x s = rbtree_insert_fixup g s' \<and> same_data s s' \<and>
      zip_at s' fs (Node (paint False u) (g, True) (Node b (p, False) (Node l (x, True) r)))
    else \<exists>s'. rbtree_insert_fixup x s = Some s' \<and> same_data s s' \<and>
      zip_at s' [] (paint False (plug fs (Node (Node u (g, True) b) (p, False) (Node l (x, True) r))))"
proof -
  from assms have z: "zip_at s fs (Node u (g, cg) (Node b (p, True) (Node l (x, True) r)))" by (simp add: zip_at_move)
  obtain n where n: "nodes s x = Some n" "n_parent n = Some p" by (rule zip_node [OF assms]) simp
  note round = round_right [OF z n]
  show ?thesis
  proof (cases "red_root u")
    case True
    then obtain ul w ur where u: "u = Node ul (w, True) ur" by (cases u) auto
    then show ?thesis using fixup_right_red [OF z [unfolded u], of x] round by fastforce
  next
    case False
    from fixup_right_outer [OF z False] obtain s1 where s1: "insert_fixup_right x p g s = Some (x, s1)" "same_data s s1"
      "zip_at s1 (InR (Node u (g, True) b) (p, False) # fs) (Node l (x, True) r)" by (auto simp: zip_at_move)
    from fixup_done [OF s1(3)] show ?thesis
      using False round [OF s1(1)] by (auto dest: same_data_trans [OF s1(2)])
  qed
qed

lemma fixup_rl:
  assumes "zip_at s (InL (p, True) a # InR u (g, cg) # fs) (Node l (x, True) r)"
  shows "if red_root u
    then \<exists>s'. rbtree_insert_fixup x s = rbtree_insert_fixup g s' \<and> same_data s s' \<and>
      zip_at s' fs (Node (paint False u) (g, True) (Node (Node l (x, True) r) (p, False) a))
    else \<exists>s'. rbtree_insert_fixup x s = Some s' \<and> same_data s s' \<and>
      zip_at s' [] (paint False (plug fs (Node (Node u (g, True) l) (x, False) (Node r (p, True) a))))"
proof -
  from assms have z: "zip_at s fs (Node u (g, cg) (Node (Node l (x, True) r) (p, True) a))" by (simp add: zip_at_move)
  obtain n where n: "nodes s x = Some n" "n_parent n = Some p" by (rule zip_node [OF assms]) simp
  note round = round_right [OF z n]
  show ?thesis
  proof (cases "red_root u")
    case True
    then obtain ul w ur where u: "u = Node ul (w, True) ur" by (cases u) auto
    then show ?thesis using fixup_right_red [OF z [unfolded u], of x] round by fastforce
  next
    case False
    from fixup_right_inner [OF z False] obtain s1 where s1: "insert_fixup_right x p g s = Some (p, s1)" "same_data s s1"
      "zip_at s1 (InR (Node u (g, True) l) (x, False) # fs) (Node r (p, True) a)" by (auto simp: zip_at_move)
    from fixup_done [OF s1(3)] show ?thesis
      using False round [OF s1(1)] by (auto dest: same_data_trans [OF s1(2)])
  qed
qed

text \<open>The loop returns on every tree with a black root, red-black or not.\<close>

lemma insert_fixup_zip:
  assumes "zip_at s fs (Node l (x, True) r)" "top_black fs"
  shows "\<exists>s'. rbtree_insert_fixup x s = Some s' \<and> same_data s s' \<and> zip_at s' [] (paint False (fixup fs (Node l (x, True) r)))"
  using assms
proof (induction "length fs" arbitrary: s fs l x r rule: less_induct)
  case less
  show ?case
  proof (cases "fs = [] \<or> \<not> frame_red (hd fs)")
    case True
    then show ?thesis using fixup_done [OF less(2)] fixup_black [OF True] by auto
  next
    case False
    then obtain f f' fs' where fs: "fs = f # f' # fs'" "frame_red f"
      using less(3) by (cases fs; cases "tl fs") (auto simp: top_black_def)
    then have top: "top_black fs'" and len: "length fs' < length fs" using less(3) by (auto simp: top_black_def)
    note ih = less(1) [OF len _ top]
    obtain g cg u where "f' = InL (g, cg) u \<or> f' = InR u (g, cg)" by (cases f') auto
    moreover obtain p b where "f = InL (p, True) b \<or> f = InR b (p, True)" using fs(2) by (cases f) auto
    ultimately consider "fs = InL (p, True) b # InL (g, cg) u # fs'" | "fs = InR b (p, True) # InL (g, cg) u # fs'"
      | "fs = InR b (p, True) # InR u (g, cg) # fs'" | "fs = InL (p, True) b # InR u (g, cg) # fs'"
      using fs(1) by auto
    then show ?thesis
    proof cases
      case 1
      then show ?thesis using fixup_ll [OF less(2) [unfolded 1]] ih by (auto split: if_splits dest!: ih dest: same_data_trans)
    next
      case 2
      then show ?thesis using fixup_lr [OF less(2) [unfolded 2]] ih by (auto split: if_splits dest!: ih dest: same_data_trans)
    next
      case 3
      then show ?thesis using fixup_rr [OF less(2) [unfolded 3]] ih by (auto split: if_splits dest!: ih dest: same_data_trans)
    next
      case 4
      then show ?thesis using fixup_rl [OF less(2) [unfolded 4]] ih by (auto split: if_splits dest!: ih dest: same_data_trans)
    qed
  qed
qed

end
