(* ===== verification/Sched_Rbt.thy ===== *)
theory Sched_Rbt
  imports Sched_Insert
begin

text \<open>
  What the insertion does to the tree, apart from the pointers: the order of the nodes is kept, the new node
  goes behind those with the same key, and a red-black tree stays one.
\<close>

section \<open>Order\<close>

lemma addrs_paint [simp]: "addrs (paint c t) = addrs t"
  by (cases "(c, t)" rule: paint.cases) auto

lemma addrs_plug_cong: "addrs t = addrs t' \<Longrightarrow> addrs (plug fs t) = addrs (plug fs t')"
  by (induction fs arbitrary: t t' rule: ctx_addrs.induct) auto

lemma addrs_fixup: "addrs (fixup fs t) = addrs (plug fs t)"
  by (induction fs t rule: fixup.induct) (auto intro!: addrs_plug_cong)

text \<open>The path to the place of a new key.\<close>

fun descend :: "(nat \<Rightarrow> u64) \<Rightarrow> u64 \<Rightarrow> label tree \<Rightarrow> frame list \<Rightarrow> frame list" where
  "descend key v Leaf fs = fs"
| "descend key v (Node l a r) fs =
    (if v < key (fst a) then descend key v l (InL a r # fs) else descend key v r (InR l a # fs))"

definition ins :: "(nat \<Rightarrow> u64) \<Rightarrow> u64 \<Rightarrow> nat \<Rightarrow> label tree \<Rightarrow> label tree" where
  "ins key v x t = paint False (fixup (descend key v t []) (Node Leaf (x, True) Leaf))"

lemma plug_descend: "plug (descend key v t fs) Leaf = plug fs t"
  by (induction t arbitrary: fs) auto

lemma addrs_descend:
  assumes "sorted (map key (addrs t))"
  shows "\<exists>t'. plug (descend key v t fs) T = plug fs t' \<and>
    addrs t' = takeWhile (\<lambda>a. key a \<le> v) (addrs t) @ addrs T @ dropWhile (\<lambda>a. key a \<le> v) (addrs t)"
  using assms
proof (induction t arbitrary: fs)
  case Leaf
  show ?case by (intro exI [of _ T]) simp
next
  case (Node l a r)
  show ?case
  proof (cases "v < key (fst a)")
    case True
    have "sorted (map key (addrs l))" using Node.prems by (simp add: sorted_append)
    from Node.IH(1) [OF this, of "InL a r # fs"] obtain t' where t': "plug (descend key v l (InL a r # fs)) T = plug (InL a r # fs) t'"
      "addrs t' = takeWhile (\<lambda>a. key a \<le> v) (addrs l) @ addrs T @ dropWhile (\<lambda>a. key a \<le> v) (addrs l)"
      by blast
    then show ?thesis using True by (intro exI [of _ "Node t' a r"]) (simp add: takeWhile_tail dropWhile_append3)
  next
    case False
    have "sorted (map key (addrs r))" using Node.prems by (simp add: sorted_append)
    from Node.IH(2) [OF this, of "InR l a # fs"] obtain t' where t': "plug (descend key v r (InR l a # fs)) T = plug (InR l a # fs) t'"
      "addrs t' = takeWhile (\<lambda>a. key a \<le> v) (addrs r) @ addrs T @ dropWhile (\<lambda>a. key a \<le> v) (addrs r)"
      by blast
    have "key b \<le> v" if "b \<in> set (addrs l)" for b
      using that Node.prems False by (auto simp: sorted_append)
    moreover have "key (fst a) \<le> v" using False by simp
    ultimately show ?thesis using t' False by (intro exI [of _ "Node l a t'"]) (simp add: takeWhile_append2 dropWhile_append2)
  qed
qed

lemma addrs_ins:
  assumes "sorted (map key (addrs t))"
  shows "addrs (ins key v x t) = takeWhile (\<lambda>a. key a \<le> v) (addrs t) @ x # dropWhile (\<lambda>a. key a \<le> v) (addrs t)"
  using addrs_descend [OF assms, of v "[]" "Node Leaf (x, True) Leaf"] by (auto simp: ins_def addrs_fixup)

section \<open>Balance\<close>

fun bheight :: "label tree \<Rightarrow> nat" where
  "bheight Leaf = 0"
| "bheight (Node l (x, c) r) = (if c then bheight l else bheight l + 1)"

fun invc :: "label tree \<Rightarrow> bool" where
  "invc Leaf \<longleftrightarrow> True"
| "invc (Node l (x, c) r) \<longleftrightarrow> (c \<longrightarrow> \<not> red_root l \<and> \<not> red_root r) \<and> invc l \<and> invc r"

fun invh :: "label tree \<Rightarrow> bool" where
  "invh Leaf \<longleftrightarrow> True"
| "invh (Node l (x, c) r) \<longleftrightarrow> bheight l = bheight r \<and> invh l \<and> invh r"

definition rbt :: "label tree \<Rightarrow> bool" where
  "rbt t \<longleftrightarrow> invc t \<and> invh t \<and> \<not> red_root t"

lemma paint_simps [simp]: "\<not> red_root (paint False t)" "invh (paint c t) = invh t" "invc t \<Longrightarrow> invc (paint False t)"
  by (cases t; auto)+

lemma bheight_paint: "bheight (paint False t) = (if red_root t then bheight t + 1 else bheight t)"
  by (cases t) auto

lemma invh_plug: "invh t = invh t' \<Longrightarrow> bheight t = bheight t' \<Longrightarrow> invh (plug fs t) = invh (plug fs t')"
proof (induction fs arbitrary: t t' rule: ctx_addrs.induct)
  case (2 a r fs)
  then show ?case by (cases a) auto
next
  case (3 l a fs)
  show ?case using 3(2,3) by (cases a) (auto intro!: 3(1))
qed auto

lemma invc_plug:
  "invc (plug fs t) \<Longrightarrow> invc t' \<Longrightarrow> (red_root t' \<Longrightarrow> red_root t) \<Longrightarrow> invc (plug fs t') \<and> invc t"
proof (induction fs arbitrary: t t' rule: ctx_addrs.induct)
  case (2 a r fs)
  have "invc (Node t a r)" using 2(2) 2(1) [of "Node t a r" Leaf] by simp
  moreover have "invc (Node t' a r)" using calculation 2(3,4) by (cases a) auto
  ultimately show ?case using 2(1) [of "Node t a r" "Node t' a r"] 2(2) by (cases a) auto
next
  case (3 l a fs)
  have "invc (Node l a t)" using 3(2) 3(1) [of "Node l a t" Leaf] by simp
  moreover have "invc (Node l a t')" using calculation 3(3,4) by (cases a) auto
  ultimately show ?case using 3(1) [of "Node l a t" "Node l a t'"] 3(2) by (cases a) auto
qed auto

lemma invc_part: "invc (plug fs t) \<Longrightarrow> invc t"
  using invc_plug [of fs t Leaf] by simp

lemma invh_part: "invh (plug fs t) \<Longrightarrow> invh t"
proof (induction fs arbitrary: t rule: ctx_addrs.induct)
  case (2 a r fs)
  then show ?case using 2(1) [of "Node t a r"] by (cases a) auto
next
  case (3 l a fs)
  then show ?case using 3(1) [of "Node l a t"] by (cases a) auto
qed auto

text \<open>The subtree at a place is exchanged for a black one of the same height.\<close>

lemma exchange:
  assumes "invc (plug fs t)" "invh (plug fs t')" "invc u" "\<not> red_root u" "invh t' = invh u" "bheight u = bheight t'"
  shows "invc (plug fs u)" "invh (plug fs u)"
  using invc_plug [OF assms(1,3)] invh_plug [of t' u fs] assms by auto

text \<open>The fixup makes a red-black tree of a tree whose only fault is a red parent of the red focus.\<close>

definition only_fault :: "frame list \<Rightarrow> label tree \<Rightarrow> bool" where
  "only_fault fs t \<longleftrightarrow> (\<exists>l x r. t = Node l (x, True) r \<and> invc (plug fs (Node l (x, False) r)) \<and> invh (plug fs t) \<and>
     \<not> red_root l \<and> \<not> red_root r) \<and> top_black fs"

lemma only_faultI:
  "invc (plug fs (Node l (x, False) r)) \<Longrightarrow> invh (plug fs (Node l (x, True) r)) \<Longrightarrow> \<not> red_root l \<Longrightarrow> \<not> red_root r \<Longrightarrow>
   top_black fs \<Longrightarrow> only_fault fs (Node l (x, True) r)"
  by (simp add: only_fault_def)

lemma fault_gone:
  assumes "only_fault fs t" "fs = [] \<or> \<not> frame_red (hd fs)"
  shows "invc (paint False (plug fs t)) \<and> invh (plug fs t)"
proof -
  from assms(1) obtain l x r where t: "t = Node l (x, True) r" and c: "invc (plug fs (Node l (x, False) r))"
    and h: "invh (plug fs t)" "\<not> red_root l" "\<not> red_root r" by (auto simp: only_fault_def)
  have lr: "invc l" "invc r" using invc_part [OF c] by auto
  from assms(2) consider "fs = []" | p b fs' where "fs = InL (p, False) b # fs'" | p b fs' where "fs = InR b (p, False) # fs'"
    by (cases fs rule: ctx_addrs.cases) auto
  then show ?thesis
  proof cases
    case 1
    then show ?thesis using lr h t by simp
  next
    case (2 p b fs')
    then have c': "invc (plug fs' (Node (Node l (x, False) r) (p, False) b))" using c by simp
    then have "invc (plug fs' (Node t (p, False) b))"
      using invc_part [OF c'] h(2,3) t by (intro conjunct1 [OF invc_plug [OF c']]) auto
    then show ?thesis using h(1) 2 by simp
  next
    case (3 p b fs')
    then have c': "invc (plug fs' (Node b (p, False) (Node l (x, False) r)))" using c by simp
    then have "invc (plug fs' (Node b (p, False) t))"
      using invc_part [OF c'] h(2,3) t by (intro conjunct1 [OF invc_plug [OF c']]) auto
    then show ?thesis using h(1) 3 by simp
  qed
qed

text \<open>One round: with a red uncle the fault moves to the grandparent, with a black one it is gone.\<close>

lemma fault_ll:
  assumes "only_fault (InL (p, True) b # InL (g, cg) u # fs) (t)"
  shows "if red_root u then only_fault fs (Node (Node t (p, False) b) (g, True) (paint False u))
    else invc (plug fs (Node t (p, False) (Node b (g, True) u))) \<and> invh (plug fs (Node t (p, False) (Node b (g, True) u)))"
proof -
  from assms obtain l x r where t: "t = Node l (x, True) r" "\<not> red_root l" "\<not> red_root r"
    and c: "invc (plug fs (Node (Node (Node l (x, False) r) (p, True) b) (g, cg) u))"
    and h: "invh (plug fs (Node (Node (t) (p, True) b) (g, cg) u))" by (auto simp: only_fault_def)
  have top: "top_black fs" using assms by (auto simp: only_fault_def top_black_def split: if_splits)
  have loc: "\<not> cg" "\<not> red_root b" "invc l" "invc r" "invc b" "invc u"
    "bheight (t) = bheight b" "bheight u = bheight b" "invh (t)" "invh b" "invh u"
    using invc_part [OF c] invh_part [OF h] by auto
  show ?thesis
  proof (cases "red_root u")
    case True
    have "invc (plug fs (Node (Node t (p, False) b) (g, False) (paint False u)))"
      using loc t by (intro conjunct1 [OF invc_plug [OF c]]) auto
    moreover have "invh (plug fs (Node (Node t (p, False) b) (g, True) (paint False u)))"
      using h loc True t by (subst invh_plug [of _ "Node (Node (t) (p, True) b) (g, cg) u"]) (auto simp: bheight_paint)
    ultimately show ?thesis using True top by (simp add: only_faultI)
  next
    case False
    have "invc (Node t (p, False) (Node b (g, True) u))" "invh (Node t (p, False) (Node b (g, True) u))"
      "bheight (Node t (p, False) (Node b (g, True) u)) = bheight (Node (Node (t) (p, True) b) (g, cg) u)"
      using loc t False by auto
    from exchange [OF c h this(1)] this(2,3) show ?thesis using False invh_part [OF h] by simp
  qed
qed

lemma fault_lr:
  assumes "only_fault (InR b (p, True) # InL (g, cg) u # fs) (Node l (x, True) r)"
  shows "if red_root u then only_fault fs (Node (Node b (p, False) (Node l (x, True) r)) (g, True) (paint False u))
    else invc (plug fs (Node (Node b (p, True) l) (x, False) (Node r (g, True) u))) \<and> invh (plug fs (Node (Node b (p, True) l) (x, False) (Node r (g, True) u)))"
proof -
  let ?t = "Node l (x, True) r"
  from assms have t: "\<not> red_root l" "\<not> red_root r"
    and c: "invc (plug fs (Node (Node b (p, True) (Node l (x, False) r)) (g, cg) u))"
    and h: "invh (plug fs (Node (Node b (p, True) (?t)) (g, cg) u))" by (auto simp: only_fault_def)
  have top: "top_black fs" using assms by (auto simp: only_fault_def top_black_def split: if_splits)
  have loc: "\<not> cg" "\<not> red_root b" "invc l" "invc r" "invc b" "invc u"
    "bheight (?t) = bheight b" "bheight u = bheight b" "invh (?t)" "invh b" "invh u"
    using invc_part [OF c] invh_part [OF h] by auto
  show ?thesis
  proof (cases "red_root u")
    case True
    have "invc (plug fs (Node (Node b (p, False) (Node l (x, True) r)) (g, False) (paint False u)))"
      using loc t by (intro conjunct1 [OF invc_plug [OF c]]) auto
    moreover have "invh (plug fs (Node (Node b (p, False) (Node l (x, True) r)) (g, True) (paint False u)))"
      using h loc True t by (subst invh_plug [of _ "Node (Node b (p, True) (?t)) (g, cg) u"]) (auto simp: bheight_paint)
    ultimately show ?thesis using True top by (simp add: only_faultI)
  next
    case False
    have "invc (Node (Node b (p, True) l) (x, False) (Node r (g, True) u))" "invh (Node (Node b (p, True) l) (x, False) (Node r (g, True) u))"
      "bheight (Node (Node b (p, True) l) (x, False) (Node r (g, True) u)) = bheight (Node (Node b (p, True) (?t)) (g, cg) u)"
      using loc t False by auto
    from exchange [OF c h this(1)] this(2,3) show ?thesis using False invh_part [OF h] by simp
  qed
qed

lemma fault_rr:
  assumes "only_fault (InR b (p, True) # InR u (g, cg) # fs) (t)"
  shows "if red_root u then only_fault fs (Node (paint False u) (g, True) (Node b (p, False) t))
    else invc (plug fs (Node (Node u (g, True) b) (p, False) t)) \<and> invh (plug fs (Node (Node u (g, True) b) (p, False) t))"
proof -
  from assms obtain l x r where t: "t = Node l (x, True) r" "\<not> red_root l" "\<not> red_root r"
    and c: "invc (plug fs (Node u (g, cg) (Node b (p, True) (Node l (x, False) r))))"
    and h: "invh (plug fs (Node u (g, cg) (Node b (p, True) (t))))" by (auto simp: only_fault_def)
  have top: "top_black fs" using assms by (auto simp: only_fault_def top_black_def split: if_splits)
  have loc: "\<not> cg" "\<not> red_root b" "invc l" "invc r" "invc b" "invc u"
    "bheight (t) = bheight b" "bheight u = bheight b" "invh (t)" "invh b" "invh u"
    using invc_part [OF c] invh_part [OF h] by auto
  show ?thesis
  proof (cases "red_root u")
    case True
    have "invc (plug fs (Node (paint False u) (g, False) (Node b (p, False) t)))"
      using loc t by (intro conjunct1 [OF invc_plug [OF c]]) auto
    moreover have "invh (plug fs (Node (paint False u) (g, True) (Node b (p, False) t)))"
      using h loc True t by (subst invh_plug [of _ "Node u (g, cg) (Node b (p, True) (t))"]) (auto simp: bheight_paint)
    ultimately show ?thesis using True top by (simp add: only_faultI)
  next
    case False
    have "invc (Node (Node u (g, True) b) (p, False) t)" "invh (Node (Node u (g, True) b) (p, False) t)"
      "bheight (Node (Node u (g, True) b) (p, False) t) = bheight (Node u (g, cg) (Node b (p, True) (t)))"
      using loc t False by auto
    from exchange [OF c h this(1)] this(2,3) show ?thesis using False invh_part [OF h] by simp
  qed
qed

lemma fault_rl:
  assumes "only_fault (InL (p, True) b # InR u (g, cg) # fs) (Node l (x, True) r)"
  shows "if red_root u then only_fault fs (Node (paint False u) (g, True) (Node (Node l (x, True) r) (p, False) b))
    else invc (plug fs (Node (Node u (g, True) l) (x, False) (Node r (p, True) b))) \<and> invh (plug fs (Node (Node u (g, True) l) (x, False) (Node r (p, True) b)))"
proof -
  let ?t = "Node l (x, True) r"
  from assms have t: "\<not> red_root l" "\<not> red_root r"
    and c: "invc (plug fs (Node u (g, cg) (Node (Node l (x, False) r) (p, True) b)))"
    and h: "invh (plug fs (Node u (g, cg) (Node (?t) (p, True) b)))" by (auto simp: only_fault_def)
  have top: "top_black fs" using assms by (auto simp: only_fault_def top_black_def split: if_splits)
  have loc: "\<not> cg" "\<not> red_root b" "invc l" "invc r" "invc b" "invc u"
    "bheight (?t) = bheight b" "bheight u = bheight b" "invh (?t)" "invh b" "invh u"
    using invc_part [OF c] invh_part [OF h] by auto
  show ?thesis
  proof (cases "red_root u")
    case True
    have "invc (plug fs (Node (paint False u) (g, False) (Node (Node l (x, True) r) (p, False) b)))"
      using loc t by (intro conjunct1 [OF invc_plug [OF c]]) auto
    moreover have "invh (plug fs (Node (paint False u) (g, True) (Node (Node l (x, True) r) (p, False) b)))"
      using h loc True t by (subst invh_plug [of _ "Node u (g, cg) (Node (?t) (p, True) b)"]) (auto simp: bheight_paint)
    ultimately show ?thesis using True top by (simp add: only_faultI)
  next
    case False
    have "invc (Node (Node u (g, True) l) (x, False) (Node r (p, True) b))" "invh (Node (Node u (g, True) l) (x, False) (Node r (p, True) b))"
      "bheight (Node (Node u (g, True) l) (x, False) (Node r (p, True) b)) = bheight (Node u (g, cg) (Node (?t) (p, True) b))"
      using loc t False by auto
    from exchange [OF c h this(1)] this(2,3) show ?thesis using False invh_part [OF h] by simp
  qed
qed

lemma fixup_rbt:
  assumes "only_fault fs t"
  shows "rbt (paint False (fixup fs t))"
  using assms
proof (induction "length fs" arbitrary: fs t rule: less_induct)
  case less
  obtain l x r where t: "t = Node l (x, True) r" using less(2) by (auto simp: only_fault_def)
  show ?case
  proof (cases "fs = [] \<or> \<not> frame_red (hd fs)")
    case True
    then show ?thesis using fault_gone [OF less(2) True] fixup_black [OF True] by (simp add: rbt_def)
  next
    case False
    then obtain f f' fs' where fs: "fs = f # f' # fs'" "frame_red f"
      using less(2) by (cases fs; cases "tl fs") (auto simp: top_black_def only_fault_def)
    obtain g cg u where "f' = InL (g, cg) u \<or> f' = InR u (g, cg)" by (cases f') auto
    moreover obtain p b where "f = InL (p, True) b \<or> f = InR b (p, True)" using fs(2) by (cases f) auto
    ultimately consider "fs = InL (p, True) b # InL (g, cg) u # fs'" | "fs = InR b (p, True) # InL (g, cg) u # fs'"
      | "fs = InR b (p, True) # InR u (g, cg) # fs'" | "fs = InL (p, True) b # InR u (g, cg) # fs'"
      using fs(1) by auto
    then show ?thesis
    proof cases
      case 1
      then show ?thesis using fault_ll [OF less(2) [unfolded 1]] less(1) t by (auto simp: rbt_def split: if_splits)
    next
      case 2
      then show ?thesis using fault_lr [OF less(2) [unfolded 2 t]] less(1) t by (auto simp: rbt_def split: if_splits)
    next
      case 3
      then show ?thesis using fault_rr [OF less(2) [unfolded 3]] less(1) t by (auto simp: rbt_def split: if_splits)
    next
      case 4
      then show ?thesis using fault_rl [OF less(2) [unfolded 4 t]] less(1) t by (auto simp: rbt_def split: if_splits)
    qed
  qed
qed

text \<open>A path down a tree with a black root starts at a black node, and a red leaf is no change of height.\<close>

lemma last_descend: "fs \<noteq> [] \<Longrightarrow> last (descend key v t fs) = last fs \<and> descend key v t fs \<noteq> []"
  by (induction t arbitrary: fs) auto

lemma top_black_descend: "\<not> red_root t \<Longrightarrow> top_black (descend key v t [])"
proof (cases t)
  case (Node l a r)
  assume "\<not> red_root t"
  then show ?thesis using Node last_descend [of "[InL a r]" key v l] last_descend [of "[InR l a]" key v r]
    by (auto simp: top_black_def)
qed (simp add: top_black_def)

lemma ins_rbt:
  assumes "rbt t"
  shows "rbt (ins key v x t)"
proof -
  let ?fs = "descend key v t []"
  have "invc (plug ?fs Leaf)" "invh (plug ?fs Leaf)" using assms by (simp_all add: plug_descend rbt_def)
  then have "invc (plug ?fs (Node Leaf (x, False) Leaf))" "invh (plug ?fs (Node Leaf (x, True) Leaf))"
    using invc_plug [of ?fs Leaf "Node Leaf (x, False) Leaf"] invh_plug [of Leaf "Node Leaf (x, True) Leaf" ?fs] by simp_all
  then have "only_fault ?fs (Node Leaf (x, True) Leaf)"
    using top_black_descend assms by (intro only_faultI) (auto simp: rbt_def)
  then show ?thesis unfolding ins_def by (rule fixup_rbt)
qed

end
