(* ===== verification/Sched_Queue.thy ===== *)
theory Sched_Queue
  imports Sched_Rbt
begin

text \<open>
  The run queue as a list of processes with their keys, and what insertion and the choice of the next process do
  to it.
\<close>

section \<open>The new node\<close>

definition key_of :: "sched_state \<Rightarrow> nat \<Rightarrow> u64" where
  "key_of s x = n_vruntime (the (nodes s x))"

lemma insert_parent_zip:
  "zip_at s fs (Node l a r) \<Longrightarrow> insert_parent v (fst a) s = ctx_parent (descend (key_of s) v (Node l a r) fs)"
proof (induction "Node l a r" arbitrary: l a r fs)
  case (Node l a r)
  obtain x c where a: "a = (x, c)" by (cases a)
  obtain n where n: "nodes s x = Some n" "n_left n = root_of l" "n_right n = root_of r"
    by (rule zip_node [OF Node(3) [unfolded a]]) simp
  have k: "key_of s x = n_vruntime n" using n by (simp add: key_of_def)
  show ?case
  proof (cases "v < n_vruntime n")
    case True
    then show ?thesis using n k a Node(1) [of _ _ _ "InL a r # fs"] Node(3)
      by (cases l) (auto simp: insert_parent.simps [of v x] zip_at_move)
  next
    case False
    then show ?thesis using n k a Node(2) [of _ _ _ "InR l a # fs"] Node(3)
      by (cases r) (auto simp: insert_parent.simps [of v x] zip_at_move)
  qed
qed

text \<open>A key belongs on the side of the frame where the path goes.\<close>

definition side_ok :: "(nat \<Rightarrow> u64) \<Rightarrow> u64 \<Rightarrow> frame list \<Rightarrow> bool" where
  "side_ok key v fs = (case fs of [] \<Rightarrow> True | InL a r # _ \<Rightarrow> v < key (fst a) | InR l a # _ \<Rightarrow> \<not> v < key (fst a))"

lemma side_ok_descend: "side_ok key v fs \<Longrightarrow> side_ok key v (descend key v t fs)"
proof (induction t arbitrary: fs)
  case (Node l a r)
  then show ?case using Node(1) [of "InL a r # fs"] Node(2) [of "InR l a # fs"] by (simp add: side_ok_def)
qed simp

lemma zip_fresh:
  assumes "zip_at s fs t" "x \<notin> set (addrs (plug fs t))"
  shows "zip_at (s\<lparr>nodes := (nodes s)(x := v)\<rparr>) fs t"
  using assms by (simp add: zip_at_def)

lemma tree_at_dom: "tree_at h p par t \<Longrightarrow> x \<in> set (addrs t) \<Longrightarrow> \<exists>n. h x = Some n"
  by (induction t arbitrary: p par) auto

lemma link_node_zip:
  assumes z: "zip_at s fs Leaf" "x \<notin> set (ctx_addrs fs)" "fs \<noteq> []"
    and x: "nodes s x = Some n" "n_left n = None" "n_right n = None" "n_red n"
    and v: "side_ok (key_of s) (n_vruntime n) fs"
    and m: "leftmost s = Some y" "nodes s y \<noteq> None"
  shows "\<exists>s'. link_node x (the (ctx_parent fs)) s = Some s' \<and> zip_at s' fs (Node Leaf (x, True) Leaf) \<and>
    same_data (s\<lparr>leftmost := (if n_vruntime n < key_of s y then Some x else Some y)\<rparr>) s'"
proof (cases fs rule: ctx_addrs.cases)
  case (2 a r fs')
  obtain q c where "a = (q, c)" by (cases a)
  then show ?thesis using assms 2
    by (auto simp: zip_at_iff link_node_def upd_node_def side_ok_def key_of_def same_data_def payload_def fun_eq_iff)
next
  case (3 l a fs')
  obtain q c where "a = (q, c)" by (cases a)
  then show ?thesis using assms 3
    by (auto simp: zip_at_iff link_node_def upd_node_def side_ok_def key_of_def same_data_def payload_def fun_eq_iff)
qed (use z(3) in simp)

definition first_of :: "'a list \<Rightarrow> 'a option" where
  "first_of xs = (case xs of [] \<Rightarrow> None | y # _ \<Rightarrow> Some y)"

lemma first_of_simps [simp]: "first_of [] = None" "first_of (y # ys) = Some y"
  by (simp_all add: first_of_def)

lemma first_of_None [simp]: "first_of xs = None \<longleftrightarrow> xs = []"
  by (cases xs) auto

lemma first_of_in: "first_of xs = Some y \<Longrightarrow> y \<in> set xs"
  by (cases xs) auto

lemma first_of_insert:
  assumes "first_of ys = Some y"
  shows "first_of (takeWhile P ys @ x # dropWhile P ys) = (if P y then Some y else Some x)"
  using assms by (cases ys) auto

lemma zip_leaf_root: "zip_at s [] Leaf \<longleftrightarrow> root s = None"
  by (simp add: zip_at_def)

lemma tree_insert_zip:
  assumes z: "zip_at s [] t" "\<not> red_root t" "x \<notin> set (addrs t)"
    and m: "leftmost s = first_of (addrs t)" "sorted (map (key_of s) (addrs t))"
    and x: "nodes s x = Some n" "n_left n = None" "n_right n = None" "n_parent n = None" "n_red n"
  shows "\<exists>s'. tree_insert x s = Some s' \<and> zip_at s' [] (ins (key_of s) (n_vruntime n) x t) \<and>
    leftmost s' = first_of (addrs (ins (key_of s) (n_vruntime n) x t)) \<and> same_data (s\<lparr>leftmost := leftmost s'\<rparr>) s'"
proof (cases t)
  case Leaf
  then show ?thesis using assms
    by (auto simp: tree_insert_def upd_node_def ins_def zip_at_def same_data_def payload_def fun_eq_iff)
next
  case (Node l a r)
  let ?v = "n_vruntime n"
  let ?fs = "descend (key_of s) ?v t []"
  have zl: "zip_at s ?fs Leaf" using z(1) by (simp add: zip_at_plug [of s ?fs] plug_descend)
  have ne: "?fs \<noteq> []" using Node last_descend [of "[InL a r]"] last_descend [of "[InR l a]"] by auto
  have xf: "x \<notin> set (ctx_addrs ?fs)"
    using z(3) addrs_plug [of ?fs Leaf] by (simp add: plug_descend) (metis set_mset_mset)
  obtain y where y: "first_of (addrs t) = Some y" "y \<in> set (addrs t)"
    using Node by (cases "first_of (addrs t)") (auto dest: first_of_in)
  have "nodes s y \<noteq> None" using y(2) z(1) by (auto simp: zip_at_def tree_at_dom)
  from link_node_zip [OF zl xf ne x(1-3,5) side_ok_descend _ this] m(1) y(1)
  obtain s1 where s1: "link_node x (the (ctx_parent ?fs)) s = Some s1" "zip_at s1 ?fs (Node Leaf (x, True) Leaf)"
    "same_data (s\<lparr>leftmost := (if ?v < key_of s y then Some x else Some y)\<rparr>) s1" by (auto simp: side_ok_def)
  from insert_fixup_zip [OF s1(2) top_black_descend [OF z(2)]] obtain s2 where
    s2: "rbtree_insert_fixup x s1 = Some s2" "same_data s1 s2" "zip_at s2 [] (ins (key_of s) ?v x t)" by (auto simp: ins_def)
  have sd: "same_data (s\<lparr>leftmost := (if ?v < key_of s y then Some x else Some y)\<rparr>) s2"
    using same_data_trans [OF s1(3) s2(2)] .
  then have l2: "leftmost s2 = (if ?v < key_of s y then Some x else Some y)" by (simp add: same_data_def)
  then have "leftmost s2 = first_of (addrs (ins (key_of s) ?v x t))"
    using first_of_insert [OF y(1), of "\<lambda>a. key_of s a \<le> ?v" x] by (auto simp: addrs_ins [OF m(2)])
  moreover have "root s = Some (fst a)" using zip_root [OF z(1)] Node by simp
  moreover have "insert_parent ?v (fst a) s = Some (the (ctx_parent ?fs))"
    using insert_parent_zip [of s "[]" l a r ?v] z(1) Node ne by (cases ?fs rule: ctx_addrs.cases) auto
  ultimately show ?thesis using x(1) s1(1) s2 sd l2 by (simp add: tree_insert_def)
qed

section \<open>The queue of a kernel\<close>

text \<open>The tree of a run queue: its nodes are all the nodes there are, in the order of their keys, and the table of
  nodes leads from the process of each node back to it.\<close>

definition nodes_ok :: "kernel \<Rightarrow> bool" where
  "nodes_ok k \<longleftrightarrow> length (sched_nodes (sched k)) = MAX_PROCESSES \<and>
    (\<forall>x n. nodes (sched k) x = Some n \<longrightarrow>
      (\<exists>p. procs k (n_process n) = Some p \<and> unat (pid p) < MAX_PROCESSES \<and> sched_nodes (sched k) ! unat (pid p) = Some x))"

definition queue_tree :: "kernel \<Rightarrow> label tree \<Rightarrow> bool" where
  "queue_tree k t \<longleftrightarrow> zip_at (sched k) [] t \<and> \<not> red_root t \<and> sorted (map (key_of (sched k)) (addrs t)) \<and>
     leftmost (sched k) = first_of (addrs t) \<and> dom (nodes (sched k)) = set (addrs t) \<and> nodes_ok k"

text \<open>Its contents: the processes with their keys, in order.\<close>

definition contents :: "kernel \<Rightarrow> label tree \<Rightarrow> (nat \<times> u64) list" where
  "contents k t = map (\<lambda>x. the (payload (nodes (sched k)) x)) (addrs t)"

definition run_queue :: "kernel \<Rightarrow> (nat \<times> u64) list \<Rightarrow> bool" where
  "run_queue k q \<longleftrightarrow> (\<exists>t. queue_tree k t \<and> contents k t = q)"

definition balanced_queue :: "kernel \<Rightarrow> (nat \<times> u64) list \<Rightarrow> bool" where
  "balanced_queue k q \<longleftrightarrow> (\<exists>t. queue_tree k t \<and> rbt t \<and> contents k t = q)"

text \<open>The place of a new process is behind all those with a key that is not greater.\<close>

definition enqueue :: "nat \<times> u64 \<Rightarrow> (nat \<times> u64) list \<Rightarrow> (nat \<times> u64) list" where
  "enqueue e q = takeWhile (\<lambda>d. snd d \<le> snd e) q @ e # dropWhile (\<lambda>d. snd d \<le> snd e) q"

lemma key_of_payload: "payload (nodes s) x = Some (a, v) \<Longrightarrow> key_of s x = v"
  by (auto simp: payload_def key_of_def)

lemma sorted_insert_key:
  assumes "sorted (map f xs)" "f x = v"
  shows "sorted (map f (takeWhile (\<lambda>a. f a \<le> v) xs @ x # dropWhile (\<lambda>a. f a \<le> v) xs))"
  using assms by (induction xs) (auto dest: set_takeWhileD set_dropWhileD)

lemma key_of_cong:
  assumes "payload (nodes s') = payload (nodes s)"
  shows "key_of s' = key_of s"
proof
  fix y
  have "payload (nodes s') y = payload (nodes s) y" using assms by simp
  then show "key_of s' y = key_of s y" by (cases "nodes s y"; cases "nodes s' y") (auto simp: payload_def key_of_def)
qed

lemma dom_payload: "dom (payload h) = dom h"
  by (auto simp: payload_def)

lemma payload_Some: "h x = Some n \<Longrightarrow> payload h x = Some (n_process n, n_vruntime n)"
  by (simp add: payload_def)

lemma payload_upd: "payload (h(x \<mapsto> n)) = (payload h)(x \<mapsto> (n_process n, n_vruntime n))"
  by (auto simp: payload_def)

text \<open>The table of nodes stays right when a node is added for a process that has none.\<close>

lemma nodes_ok_add:
  assumes "nodes_ok k" "procs k a = Some p" "unat (pid p) < MAX_PROCESSES" "sched_nodes (sched k) ! unat (pid p) = None"
    "payload (nodes s') = (payload (nodes (sched k)))(x \<mapsto> (a, v))"
    "sched_nodes s' = (sched_nodes (sched k))[unat (pid p) := Some x]"
  shows "nodes_ok (k\<lparr>sched := s'\<rparr>)"
proof -
  have "\<exists>p'. procs k (n_process n) = Some p' \<and> unat (pid p') < MAX_PROCESSES \<and> sched_nodes s' ! unat (pid p') = Some y"
    if y: "nodes s' y = Some n" for y n
  proof (cases "y = x")
    case True
    then have "n_process n = a" using payload_Some [of "nodes s'" y n] y assms(5) by simp
    then show ?thesis using True assms by (simp add: nodes_ok_def)
  next
    case False
    then obtain n' where "nodes (sched k) y = Some n'" "n_process n' = n_process n"
      using payload_Some [of "nodes s'" y n] y assms(5) by (auto simp: payload_def)
    then obtain p' where p': "procs k (n_process n) = Some p'" "unat (pid p') < MAX_PROCESSES"
      "sched_nodes (sched k) ! unat (pid p') = Some y" using assms(1) by (fastforce simp: nodes_ok_def)
    then have "unat (pid p') \<noteq> unat (pid p)" using assms(4) by auto
    then show ?thesis using p' assms(6) by (simp add: nth_list_update)
  qed
  then show ?thesis using assms(1,6) by (simp add: nodes_ok_def)
qed

lemma map_insert_key:
  assumes "\<And>y. y \<in> set ys \<Longrightarrow> snd (f y) = g y" "f x = e"
  shows "map f (takeWhile (\<lambda>y. g y \<le> snd e) ys @ x # dropWhile (\<lambda>y. g y \<le> snd e) ys) = enqueue e (map f ys)"
  using assms by (induction ys) (auto simp: enqueue_def)

lemma contents_add:
  assumes "payload (nodes s) = (payload h)(x \<mapsto> (a, v))" "x \<notin> set ys" "set ys \<subseteq> dom h"
  shows "map (\<lambda>y. the (payload (nodes s) y)) (takeWhile (\<lambda>y. key_of s y \<le> v) ys @ x # dropWhile (\<lambda>y. key_of s y \<le> v) ys) =
    enqueue (a, v) (map (\<lambda>y. the (payload h y)) ys)"
proof -
  have keys: "snd (the (payload (nodes s) y)) = key_of s y" if "y \<in> set ys" for y
  proof -
    have "y \<in> dom (payload (nodes s))" using that assms(1,3) by (auto simp: dom_payload)
    then show ?thesis by (auto simp: payload_def key_of_def)
  qed
  have old: "map (\<lambda>y. the (payload (nodes s) y)) ys = map (\<lambda>y. the (payload h y)) ys"
    using assms(1,2) by auto
  have "the (payload (nodes s) x) = (a, v)" using assms(1) by simp
  from map_insert_key [of ys "\<lambda>y. the (payload (nodes s) y)" "key_of s" x, OF keys this]
  show ?thesis unfolding old snd_conv .
qed

lemma rbtree_insert_queue:
  assumes q: "queue_tree k t" and p: "procs k a = Some p" "unat (pid p) < MAX_PROCESSES"
    "sched_nodes (sched k) ! unat (pid p) = None" and x: "kz (nodes (sched k)) = Some x" "nodes (sched k) x = None"
  shows "\<exists>s' t'. rbtree_insert kz a k = Some (k\<lparr>sched := s'\<rparr>) \<and> queue_tree (k\<lparr>sched := s'\<rparr>) t' \<and> (rbt t \<longrightarrow> rbt t') \<and>
    contents (k\<lparr>sched := s'\<rparr>) t' = enqueue (a, vruntime p) (contents k t) \<and>
    min_vruntime s' = min_vruntime (sched k) \<and> sched_enabled s' = sched_enabled (sched k) \<and>
    sched_nodes s' = (sched_nodes (sched k))[unat (pid p) := Some x]"
proof -
  define s where "s = (sched k)\<lparr>nodes := (nodes (sched k))(x \<mapsto> new_node a (vruntime p)),
    sched_nodes := (sched_nodes (sched k))[unat (pid p) := Some x]\<rparr>"
  have xt: "x \<notin> set (addrs t)" and dt: "set (addrs t) = dom (nodes (sched k))" using q x(2) by (auto simp: queue_tree_def)
  have keys: "\<And>y. y \<in> set (addrs t) \<Longrightarrow> key_of s y = key_of (sched k) y" and kx: "key_of s x = vruntime p"
    using xt by (auto simp: key_of_def s_def new_node_def)
  then have srt: "sorted (map (key_of s) (addrs t))" using q by (simp add: queue_tree_def cong: map_cong)
  have z: "zip_at s [] t" using q xt by (simp add: queue_tree_def zip_at_def s_def)
  define t' where "t' = ins (key_of s) (vruntime p) x t"
  obtain s' where s': "tree_insert x s = Some s'" "zip_at s' [] t'" "leftmost s' = first_of (addrs t')"
    "same_data (s\<lparr>leftmost := leftmost s'\<rparr>) s'"
    using tree_insert_zip [OF z _ xt _ srt, of "new_node a (vruntime p)"] q
    by (auto simp: queue_tree_def new_node_def s_def t'_def)
  have pay: "payload (nodes s') = (payload (nodes (sched k)))(x \<mapsto> (a, vruntime p))"
    and sn: "sched_nodes s' = (sched_nodes (sched k))[unat (pid p) := Some x]"
    and more: "min_vruntime s' = min_vruntime (sched k)" "sched_enabled s' = sched_enabled (sched k)"
    using s'(4) by (simp_all add: same_data_def s_def payload_upd new_node_def)
  have key': "key_of s' = key_of s" using s'(4) by (intro key_of_cong) (simp add: same_data_def)
  have at: "addrs t' = takeWhile (\<lambda>y. key_of s' y \<le> vruntime p) (addrs t) @ x # dropWhile (\<lambda>y. key_of s' y \<le> vruntime p) (addrs t)"
    unfolding t'_def key' by (rule addrs_ins [OF srt])
  have set': "set (addrs t') = insert x (set (addrs t))"
    unfolding at by (metis Un_insert_right list.simps(15) set_append takeWhile_dropWhile_id)
  have "sorted (map (key_of s') (addrs t'))"
    unfolding at key' by (rule sorted_insert_key [OF srt kx])
  moreover have "dom (nodes s') = set (addrs t')"
    using pay dom_payload [of "nodes s'"] dom_payload [of "nodes (sched k)"] set' dt by simp
  moreover have "nodes_ok (k\<lparr>sched := s'\<rparr>)" using q p pay sn by (intro nodes_ok_add) (auto simp: queue_tree_def)
  moreover have "\<not> red_root t'" by (simp add: t'_def ins_def)
  ultimately have "queue_tree (k\<lparr>sched := s'\<rparr>) t'" using s' by (simp add: queue_tree_def)
  moreover have "contents (k\<lparr>sched := s'\<rparr>) t' = enqueue (a, vruntime p) (contents k t)"
    using contents_add [OF pay xt] dt at by (simp add: contents_def)
  moreover have "rbt t \<longrightarrow> rbt t'" by (simp add: t'_def ins_rbt)
  moreover have "rbtree_insert kz a k = Some (k\<lparr>sched := s'\<rparr>)"
    using p x(1) s'(1) by (simp add: rbtree_insert_def set_sched_node_def s_def)
  ultimately show ?thesis using more sn by blast
qed

end
