(* ===== verification/Sched_Pick.thy ===== *)
theory Sched_Pick
  imports Sched_Queue
begin

text \<open>
  The choice of the next process on a run queue that is a red-black tree: the leftmost node has at most a red
  leaf below it, so its removal never needs the recursion or the loop of the removal fixup.
\<close>

section \<open>The left end of a tree\<close>

definition all_left :: "frame list \<Rightarrow> bool" where
  "all_left fs \<longleftrightarrow> (\<forall>f \<in> set fs. \<exists>a r. f = InL a r)"

lemma all_left_simps [simp]: "all_left []" "all_left (InL a r # fs) = all_left fs" "\<not> all_left (InR l a # fs)"
  by (auto simp: all_left_def)

lemma left_end: "t \<noteq> Leaf \<Longrightarrow> all_left fs \<Longrightarrow> \<exists>gs x c r. plug fs t = plug gs (Node Leaf (x, c) r) \<and> all_left gs"
proof (induction t arbitrary: fs)
  case (Node l a r)
  show ?case
  proof (cases "l = Leaf")
    case True
    obtain x c where "a = (x, c)" by (cases a)
    then show ?thesis using True Node(4) by blast
  next
    case False
    then show ?thesis using Node(1) [of "InL a r # fs"] Node(4) by simp
  qed
qed simp

lemma addrs_all_left: "all_left fs \<Longrightarrow> addrs (plug fs t) = addrs t @ addrs (plug fs Leaf)"
proof (induction fs arbitrary: t rule: ctx_addrs.induct)
  case (2 a r fs)
  show ?case using 2(1) [of "Node t a r"] 2(1) [of "Node Leaf a r"] 2(2) by simp
qed auto

lemma first_of_all_left: "all_left fs \<Longrightarrow> first_of (addrs (plug fs Leaf)) = ctx_parent fs"
proof (cases fs rule: ctx_addrs.cases)
  case (2 a r fs')
  assume "all_left fs"
  then show ?thesis using 2 addrs_all_left [of fs' "Node Leaf a r"] by simp
qed auto

lemma red_leaf:
  assumes "invc (Node Leaf (x, c) r)" "invh (Node Leaf (x, c) r)"
  shows "r = Leaf \<or> (\<not> c \<and> (\<exists>y. r = Node Leaf (y, True) Leaf))"
proof (cases r)
  case (Node l a r')
  obtain y d where a: "a = (y, d)" by (cases a)
  have leaf: "u = Leaf" if "bheight u = 0" "\<not> red_root u" for u using that by (cases u) (auto split: if_splits)
  have "d" using assms Node a by (auto split: if_splits)
  moreover have "l = Leaf" "r' = Leaf" using assms Node a \<open>d\<close> by (auto intro: leaf)
  ultimately show ?thesis using assms Node a by auto
qed simp

section \<open>Unlinking\<close>

lemma unlink_zip:
  assumes "zip_at s fs (Node Leaf (x, c) r)"
  shows "\<exists>s'. unlink_no_left x s = Some (root_of r, ctx_parent fs, s') \<and> zip_at s' fs r \<and>
    same_data (s\<lparr>leftmost := (if leftmost s = Some x then if r = Leaf then ctx_parent fs else root_of r else leftmost s)\<rparr>) s'"
proof -
  obtain n where n: "nodes s x = Some n" "n_right n = root_of r" "n_parent n = ctx_parent fs" by (rule zip_node [OF assms]) simp
  have dist: "distinct (addrs (Node Leaf (x, c) r) @ ctx_addrs fs)"
    and ctx: "ctx_at (nodes s) (root s) fs (Some x) (ctx_parent fs)"
    and r: "tree_at (nodes s) (root_of r) (Some x) r" using assms n by (auto simp: zip_at_iff)
  from reparent_subtree [OF r, of "ctx_parent fs"] dist obtain s1 where
    s1: "upd_opt (root_of r) (n_parent_update (\<lambda>_. ctx_parent fs)) s = Some s1" "tree_at (nodes s1) (root_of r) (ctx_parent fs) r"
      "\<forall>z. z \<notin> set (addrs r) \<longrightarrow> nodes s1 z = nodes s z" "root s1 = root s" "same_data s s1" by auto
  have "ctx_at (nodes s1) (root s1) fs (Some x) (ctx_parent fs)"
    using ctx dist s1(3,4) by (subst ctx_at_cong [of fs _ "nodes s"]) auto
  with dist obtain s2 where s2: "replace_child (ctx_parent fs) x (root_of r) s1 = Some s2"
    "ctx_at (nodes s2) (root s2) fs (root_of r) (ctx_parent fs)"
    "\<forall>z. z \<notin> set (ctx_addrs fs) \<longrightarrow> nodes s2 z = nodes s1 z" "same_data s1 s2"
    using replace_in_context [of s1 fs x "root_of r"] by auto
  have "tree_at (nodes s2) (root_of r) (ctx_parent fs) r"
    using s1(2) s2(3) dist by (subst tree_at_cong [of r _ "nodes s1"]) auto
  then have "zip_at s2 fs r" using s2(2) dist by (simp add: zip_at_iff)
  moreover have "zip_at (s2\<lparr>leftmost := l\<rparr>) fs r = zip_at s2 fs r" for l by (simp add: zip_at_def)
  moreover have "leftmost s2 = leftmost s" "same_data s s2"
    using same_data_trans [OF s1(5) s2(4)] by (simp_all add: same_data_def)
  moreover have "root_of r \<noteq> None \<longleftrightarrow> r \<noteq> Leaf" by (cases r) auto
  ultimately show ?thesis using n s1(1) s2(1) by (simp add: unlink_no_left_def same_data_def Let_def)
qed

text \<open>The end of the removal, for a node with no child or with a red one below a black one.\<close>

lemma finish_zip:
  assumes "zip_at s fs r" "r = Leaf \<or> (\<not> c \<and> red_root r)" "x \<notin> set (addrs (plug fs r))"
  shows "\<exists>h. finish_remove c x (root_of r, par, s) = Some (s\<lparr>nodes := h\<rparr>) \<and> zip_at (s\<lparr>nodes := h\<rparr>) fs (paint False r) \<and>
    payload h = (payload (nodes s))(x := None)"
proof (cases r)
  case Leaf
  then show ?thesis using assms
    by (auto simp: finish_remove_def zip_at_def payload_def intro!: exI [of _ "(nodes s)(x := None)"])
next
  case (Node l a r')
  then obtain y where r: "r = Node l (y, True) r'" "\<not> c" using assms(2) by (cases a) auto
  obtain n where n: "nodes s y = Some n" "n_red n" by (rule zip_node [OF assms(1) [unfolded r]]) simp
  from zip_colour [OF assms(1) [unfolded r], of False] obtain s1 where
    s1: "upd_node y (n_red_update (\<lambda>_. False)) s = Some s1" "zip_at s1 fs (paint False r)" "same_data s s1" by (auto simp: r)
  obtain h where h: "s1 = s\<lparr>nodes := h\<rparr>" using s1(1) by (auto simp: upd_node_def)
  have "addrs (plug fs (paint False r)) = addrs (plug fs r)" by (rule addrs_plug_cong) simp
  then have "zip_at (s\<lparr>nodes := h(x := None)\<rparr>) fs (paint False r)"
    using zip_fresh [OF s1(2), of x None] assms(3) by (simp add: h)
  moreover have "payload (h(x := None)) = (payload (nodes s))(x := None)"
    using s1(3) by (auto simp: same_data_def payload_def fun_eq_iff h)
  moreover have "rbtree_remove_fixup y par s = Some s1"
    using n s1(1) by (simp add: rbtree_remove_fixup.simps [of y])
  ultimately show ?thesis using r h by (auto simp: finish_remove_def intro!: exI [of _ "h(x := None)"])
qed

section \<open>Removal of the first node\<close>

lemma red_root_plug: "red_root (plug fs t) = (if fs = [] then red_root t else frame_red (last fs))"
  by (induction fs arbitrary: t rule: ctx_addrs.induct) auto

lemma key_of_eq: "payload (nodes s') y = payload (nodes s) y \<Longrightarrow> key_of s' y = key_of s y"
  by (cases "nodes s y"; cases "nodes s' y") (auto simp: payload_def key_of_def)

lemma nodes_ok_drop:
  assumes "nodes_ok k" "procs k a = Some p" "unat (pid p) < MAX_PROCESSES" "sched_nodes (sched k) ! unat (pid p) = Some x"
    "payload (nodes s') = (payload (nodes (sched k)))(x := None)"
    "sched_nodes s' = (sched_nodes (sched k))[unat (pid p) := None]"
  shows "nodes_ok (k\<lparr>sched := s'\<rparr>)"
proof -
  have "\<exists>p'. procs k (n_process n) = Some p' \<and> unat (pid p') < MAX_PROCESSES \<and> sched_nodes s' ! unat (pid p') = Some y"
    if y: "nodes s' y = Some n" for y n
  proof -
    have "y \<noteq> x" using payload_Some [of "nodes s'" y n] y assms(5) by auto
    then obtain n' where "nodes (sched k) y = Some n'" "n_process n' = n_process n"
      using payload_Some [of "nodes s'" y n] y assms(5) by (auto simp: payload_def)
    then obtain p' where p': "procs k (n_process n) = Some p'" "unat (pid p') < MAX_PROCESSES"
      "sched_nodes (sched k) ! unat (pid p') = Some y" using assms(1) by (fastforce simp: nodes_ok_def)
    then have "unat (pid p') \<noteq> unat (pid p)" using assms(4) \<open>y \<noteq> x\<close> by auto
    then show ?thesis using p' assms(6) by (simp add: nth_list_update)
  qed
  then show ?thesis using assms(1,6) by (simp add: nodes_ok_def)
qed

lemma remove_first:
  assumes q: "queue_tree k (plug fs (Node Leaf (x, c) r))" and fs: "all_left fs"
    and r: "r = Leaf \<or> (\<not> c \<and> (\<exists>y. r = Node Leaf (y, True) Leaf))" and n: "nodes (sched k) x = Some n"
  shows "\<exists>s'. rbtree_remove (n_process n) k = Some (k\<lparr>sched := s'\<rparr>) \<and> queue_tree (k\<lparr>sched := s'\<rparr>) (plug fs (paint False r)) \<and>
    contents (k\<lparr>sched := s'\<rparr>) (plug fs (paint False r)) = tl (contents k (plug fs (Node Leaf (x, c) r))) \<and>
    min_vruntime s' = min_vruntime (sched k) \<and> sched_enabled s' = sched_enabled (sched k)"
proof -
  let ?s = "sched k" and ?t = "plug fs (Node Leaf (x, c) r)" and ?t' = "plug fs (paint False r)"
  have z: "zip_at ?s fs (Node Leaf (x, c) r)" using q by (simp add: queue_tree_def zip_at_plug [of _ fs])
  have at: "addrs ?t = x # addrs ?t'"
    using addrs_all_left [OF fs, of "Node Leaf (x, c) r"] addrs_all_left [OF fs, of "paint False r"] by simp
  have dist: "distinct (addrs ?t)" using z by (simp add: zip_at_def)
  then have xt: "x \<notin> set (addrs ?t')" using at by simp
  have lm: "leftmost ?s = Some x" using q at by (simp add: queue_tree_def)
  obtain p where p: "procs k (n_process n) = Some p" "unat (pid p) < MAX_PROCESSES" "sched_nodes ?s ! unat (pid p) = Some x"
    using q n by (fastforce simp: queue_tree_def nodes_ok_def)
  have nl: "n_left n = None" "n_red n = c" using zip_read [OF z] n by (metis option.inject rb_node.select_convs(1) root_of_simps(1), metis option.inject rb_node.select_convs(4))
  from unlink_zip [OF z] lm obtain s1 where s1: "unlink_no_left x ?s = Some (root_of r, ctx_parent fs, s1)" "zip_at s1 fs r"
    "same_data (?s\<lparr>leftmost := (if r = Leaf then ctx_parent fs else root_of r)\<rparr>) s1" by auto
  have "x \<notin> set (addrs (plug fs r))" using xt addrs_plug_cong [of r "paint False r" fs] by simp
  from finish_zip [OF s1(2) _ this, of c] r obtain h where
    s2: "finish_remove c x (root_of r, ctx_parent fs, s1) = Some (s1\<lparr>nodes := h\<rparr>)" "zip_at (s1\<lparr>nodes := h\<rparr>) fs (paint False r)"
      "payload h = (payload (nodes s1))(x := None)" by fastforce
  define s' where "s' = s1\<lparr>nodes := h, sched_nodes := (sched_nodes ?s)[unat (pid p) := None]\<rparr>"
  have pay: "payload (nodes s') = (payload (nodes ?s))(x := None)" using s2(3) s1(3) by (simp add: s'_def same_data_def)
  have more: "leftmost s' = (if r = Leaf then ctx_parent fs else root_of r)" "min_vruntime s' = min_vruntime ?s"
    "sched_enabled s' = sched_enabled ?s" "sched_nodes s1 = sched_nodes ?s"
    using s1(3) by (simp_all add: s'_def same_data_def)
  have rem: "rbtree_remove (n_process n) k = Some (k\<lparr>sched := s'\<rparr>)"
    using p n nl s1(1) s2(1) more(4)
    by (simp add: rbtree_remove.simps [of "n_process n"] remove_step_def get_sched_node_def set_sched_node_def s'_def)
  have "zip_at s' [] ?t'" using s2(2) by (simp add: s'_def zip_at_def)
  moreover have "\<not> red_root ?t'" using q by (auto simp: queue_tree_def red_root_plug split: if_splits)
  moreover have "sorted (map (key_of s') (addrs ?t'))"
  proof -
    have same: "map (key_of s') (addrs ?t') = map (key_of ?s) (addrs ?t')" using xt pay by (auto intro!: key_of_eq)
    show ?thesis unfolding same using q at by (simp add: queue_tree_def)
  qed
  moreover have "leftmost s' = first_of (addrs ?t')"
    using r more(1) addrs_all_left [OF fs, of "paint False r"] first_of_all_left [OF fs] by auto
  moreover have "dom (nodes s') = set (addrs ?t')"
    using pay dom_payload [of "nodes s'"] dom_payload [of "nodes ?s"] q at xt by (auto simp: queue_tree_def)
  moreover have "nodes_ok (k\<lparr>sched := s'\<rparr>)"
    using q p pay by (intro nodes_ok_drop) (auto simp: queue_tree_def s'_def)
  ultimately have "queue_tree (k\<lparr>sched := s'\<rparr>) ?t'" by (simp add: queue_tree_def)
  moreover have "contents (k\<lparr>sched := s'\<rparr>) ?t' = tl (contents k ?t)"
    using xt pay at by (auto simp: contents_def)
  ultimately show ?thesis using rem more by blast
qed

lemma queue_sorted:
  assumes "run_queue k q"
  shows "sorted (map snd q)"
proof -
  from assms obtain t where t: "queue_tree k t" "contents k t = q" by (auto simp: run_queue_def)
  have "snd (the (payload (nodes (sched k)) y)) = key_of (sched k) y" if "y \<in> set (addrs t)" for y
  proof -
    have "y \<in> dom (nodes (sched k))" using that t(1) by (simp add: queue_tree_def)
    then show ?thesis by (auto simp: payload_def key_of_def)
  qed
  then have "map snd q = map (key_of (sched k)) (addrs t)" using t(2) by (auto simp: contents_def)
  then show ?thesis using t(1) by (simp add: queue_tree_def)
qed

lemma pick_next_empty: "run_queue k [] \<Longrightarrow> pick_next k = Some (None, k)"
  by (auto simp: run_queue_def queue_tree_def contents_def pick_next_def)

lemma pick_next_first:
  assumes "balanced_queue k ((a, v) # q)"
  shows "\<exists>s'. pick_next k = Some (Some a, k\<lparr>sched := s'\<rparr>) \<and> run_queue (k\<lparr>sched := s'\<rparr>) q \<and> min_vruntime s' = min_vruntime (sched k)"
proof -
  from assms obtain t where t: "queue_tree k t" "rbt t" "contents k t = (a, v) # q" by (auto simp: balanced_queue_def)
  then have "t \<noteq> Leaf" by (auto simp: contents_def)
  then obtain fs x c r where fs: "t = plug fs (Node Leaf (x, c) r)" "all_left fs" using left_end [of t "[]"] by auto
  have at: "addrs t = x # addrs (plug fs (paint False r))"
    using addrs_all_left [OF fs(2), of "Node Leaf (x, c) r"] addrs_all_left [OF fs(2), of "paint False r"] fs(1) by simp
  then obtain n where n: "nodes (sched k) x = Some n" using t(1) by (fastforce simp: queue_tree_def)
  have "n_process n = a" using t(3) at n by (simp add: contents_def payload_def)
  moreover have "leftmost (sched k) = Some x" using t(1) at by (simp add: queue_tree_def)
  moreover have "r = Leaf \<or> (\<not> c \<and> (\<exists>y. r = Node Leaf (y, True) Leaf))"
    using t(2) fs(1) by (intro red_leaf) (auto simp: rbt_def dest: invc_part invh_part)
  ultimately show ?thesis using remove_first [OF t(1) [unfolded fs(1)] fs(2) _ n] n t(3) fs(1)
    by (fastforce simp: pick_next_def run_queue_def)
qed

end
