(* ===== verification/Sched_Correct.thy ===== *)
theory Sched_Correct
  imports Sched_Pick Proc_Table_Props
begin

text \<open>
  The run queue refines a list of processes ordered by virtual runtime as far as insertion goes, and for one
  choice of the next process. Removal does not keep the tree balanced, and five processes are enough to make the
  scheduler call itself without end.
\<close>

section \<open>Insertion and choice\<close>

text \<open>A kernel with processes but an empty queue, for the examples.\<close>

definition idle_sched :: sched_state where
  "idle_sched = \<lparr>nodes = Map.empty, root = None, leftmost = None, min_vruntime = 0, clock_ticks = 0,
     sched_nodes = replicate MAX_PROCESSES None, sched_enabled = True\<rparr>"

definition ready_process :: "u32 \<Rightarrow> u64 \<Rightarrow> process" where
  "ready_process i v = blank_process\<lparr>pid := i, weight := 1024, vruntime := v, state := PROCESS_STATE_READY\<rparr>"

definition five_processes :: kernel where
  "five_processes = \<lparr>procs = [1 \<mapsto> ready_process 1 4, 2 \<mapsto> ready_process 2 7, 3 \<mapsto> ready_process 3 10, 4 \<mapsto> ready_process 4 8,
     5 \<mapsto> ready_process 5 9], process_table = replicate MAX_PROCESSES None, current = None, next_pid = 1, sched = idle_sched\<rparr>"

definition first_free :: node_alloc where
  "first_free h = find (\<lambda>i. h i = None) [100..<200]"

lemma five_empty: "balanced_queue five_processes []"
  unfolding balanced_queue_def
  by (intro exI [of _ Leaf])
    (simp add: queue_tree_def zip_at_def nodes_ok_def contents_def rbt_def five_processes_def idle_sched_def)

text \<open>C1. On a run queue that is a red-black tree, \<^verbatim>\<open>rbtree_insert\<close> of a process that is not queued returns,
  whatever its virtual runtime, provided \<^verbatim>\<open>kzalloc\<close> gives a block that is not in use. The queue is a red-black tree
  again, with the processes in the order of their virtual runtimes: the new one stands behind all those with the same
  or a smaller one, in front of the others, and the leftmost pointer is the first of them. Nothing but the queue
  changes.\<close>

theorem rbtree_insert_correct:
  assumes "balanced_queue k q" "procs k a = Some p" "unat (pid p) < MAX_PROCESSES"
    "sched_nodes (sched k) ! unat (pid p) = None" "kz (nodes (sched k)) = Some x" "nodes (sched k) x = None"
  shows "\<exists>s'. rbtree_insert kz a k = Some (k\<lparr>sched := s'\<rparr>) \<and> balanced_queue (k\<lparr>sched := s'\<rparr>) (enqueue (a, vruntime p) q) \<and>
    min_vruntime s' = min_vruntime (sched k)"
proof -
  from assms(1) obtain t where t: "queue_tree k t" "rbt t" "contents k t = q" by (auto simp: balanced_queue_def)
  show ?thesis using rbtree_insert_queue [of k t a p kz x, OF t(1) assms(2-6)] t(2,3)
    by (auto simp: balanced_queue_def)
qed

theorem rbtree_insert_correct_witness:
  "\<exists>s'. rbtree_insert first_free 3 five_processes = Some (five_processes\<lparr>sched := s'\<rparr>) \<and>
     balanced_queue (five_processes\<lparr>sched := s'\<rparr>) [(3, 10)]"
proof -
  have "first_free (nodes (sched five_processes)) = Some 100"
    unfolding first_free_def find_upt_Some_iff by (simp add: five_processes_def idle_sched_def)
  with rbtree_insert_correct [OF five_empty, of 3 "ready_process 3 10" first_free 100] show ?thesis
    by (auto simp: five_processes_def idle_sched_def ready_process_def enqueue_def)
qed

text \<open>C8. On a run queue that is a red-black tree, \<^verbatim>\<open>pick_next\<close> returns and takes the first process, one
  with the least virtual runtime, out of the queue; the others stay in their order, and the leftmost pointer is the
  first of them. On an empty queue it answers null and changes nothing. The queue need not be a red-black tree
  afterwards.\<close>

theorem pick_next_correct:
  assumes "balanced_queue k q"
  shows "case q of
      [] \<Rightarrow> pick_next k = Some (None, k)
    | (a, v) # q' \<Rightarrow> (\<exists>s'. pick_next k = Some (Some a, k\<lparr>sched := s'\<rparr>) \<and> run_queue (k\<lparr>sched := s'\<rparr>) q') \<and> (\<forall>e \<in> set q'. v \<le> snd e)"
proof (cases q)
  case Nil
  then show ?thesis using assms pick_next_empty by (auto simp: balanced_queue_def run_queue_def)
next
  case (Cons e q')
  obtain a v where e: "e = (a, v)" by (cases e)
  have "\<forall>e \<in> set q'. v \<le> snd e" using queue_sorted [of k q] assms Cons e
    by (auto simp: balanced_queue_def run_queue_def)
  then show ?thesis using pick_next_first assms Cons e by fastforce
qed

lemma one_queued: "\<exists>k. balanced_queue k [(3, 10)]"
proof -
  obtain t where t: "queue_tree five_processes t" "rbt t" "contents five_processes t = []"
    using five_empty by (auto simp: balanced_queue_def)
  have "first_free (nodes (sched five_processes)) = Some 100"
    unfolding first_free_def find_upt_Some_iff by (simp add: five_processes_def idle_sched_def)
  then obtain s' t' where "queue_tree (five_processes\<lparr>sched := s'\<rparr>) t'" "rbt t'"
      "contents (five_processes\<lparr>sched := s'\<rparr>) t' = enqueue (3, 10) []"
    using rbtree_insert_queue [of five_processes t 3 "ready_process 3 10" first_free 100] t
    by (auto simp: five_processes_def idle_sched_def ready_process_def)
  then show ?thesis by (auto simp: balanced_queue_def enqueue_def)
qed

theorem pick_next_correct_witness:
  "\<exists>k s'. balanced_queue k [(3, 10)] \<and> pick_next k = Some (Some 3, k\<lparr>sched := s'\<rparr>) \<and> run_queue (k\<lparr>sched := s'\<rparr>) []"
  using one_queued pick_next_correct [of _ "[(3, 10)]"] by fastforce

section \<open>Removal of a node with two children\<close>

lemma in_addrs_plug: "set (addrs (plug fs t)) = set (addrs t) \<union> set (ctx_addrs fs)"
  using arg_cong [OF addrs_plug [of fs t], of set_mset] by simp

lemma leftmost_from_zip:
  "zip_at s fs (Node l (x, c) r) \<Longrightarrow> leftmost_from x s = Some (hd (addrs (Node l (x, c) r)))"
proof (induction l arbitrary: fs x c r)
  case Leaf
  obtain n where "nodes s x = Some n" "n_left n = None" by (rule zip_node [OF Leaf]) simp
  then show ?case by (simp add: leftmost_from.simps [of x])
next
  case (Node ll a lr)
  obtain y d where a: "a = (y, d)" by (cases a)
  obtain n where "nodes s x = Some n" "n_left n = Some y" by (rule zip_node [OF Node(3)]) (simp add: a)
  then show ?case using Node(1) [of "InL (x, c) r # fs" y d lr] Node(3) a by (simp add: leftmost_from.simps [of x] zip_at_move hd_append)
qed

text \<open>The nodes at the addresses belong to processes with ids of the table.\<close>

definition owned :: "kernel \<Rightarrow> nat list \<Rightarrow> bool" where
  "owned k ys \<longleftrightarrow> (\<forall>y \<in> set ys. \<exists>n p. nodes (sched k) y = Some n \<and> procs k (n_process n) = Some p \<and> unat (pid p) < MAX_PROCESSES)"

text \<open>The process has a node with two children, in a well-linked tree whose nodes belong to processes.\<close>

definition two_children :: "nat \<Rightarrow> kernel \<Rightarrow> bool" where
  "two_children a k \<longleftrightarrow> length (sched_nodes (sched k)) = MAX_PROCESSES \<and>
    (\<exists>p x fs c l r. procs k a = Some p \<and> unat (pid p) < MAX_PROCESSES \<and> sched_nodes (sched k) ! unat (pid p) = Some x \<and>
      zip_at (sched k) fs (Node l (x, c) r) \<and> l \<noteq> Leaf \<and> r \<noteq> Leaf \<and> owned k (addrs (plug fs (Node l (x, c) r))))"

lemma zip_payload:
  assumes "zip_at s fs t" "nodes s x = Some n"
  shows "zip_at (s\<lparr>nodes := (nodes s)(x \<mapsto> n\<lparr>n_vruntime := v, n_process := b\<rparr>)\<rparr>) fs t"
proof -
  have "tree_at ((nodes s)(x \<mapsto> n\<lparr>n_vruntime := v, n_process := b\<rparr>)) p par u = tree_at (nodes s) p par u" for p par u
    using assms(2) by (induction u arbitrary: p par) (auto split: if_splits)
  then show ?thesis using assms(1) by (simp add: zip_at_def)
qed

lemma successor_zip:
  assumes "zip_at s fs (Node l (x, c) r)" "r \<noteq> Leaf"
  shows "rbtree_successor x s = Some (Some (hd (addrs r)))"
proof -
  obtain rl y d rr where r: "r = Node rl (y, d) rr" using assms(2) by (cases r) auto
  obtain n where n: "nodes s x = Some n" "n_right n = root_of r" by (rule zip_node [OF assms(1)]) simp
  have "leftmost_from y s = Some (hd (addrs r))" using leftmost_from_zip [OF zip_children(2) [OF assms(1), unfolded r]] r by simp
  then show ?thesis using n r by (simp add: rbtree_successor_def)
qed

text \<open>The body of the removal for such a process: it calls itself for the process of the successor, which has this
  node now, and that call repeats itself.\<close>

lemma remove_step_repeats:
  assumes "two_children a k"
  shows "\<exists>x b k'. get_sched_node a k = Some (Some x) \<and> get_sched_node b k' = Some (Some x) \<and>
    remove_step a k = Some (Again b k') \<and> remove_step b k' = Some (Again b k')"
proof -
  from assms obtain p x fs c l r where p: "procs k a = Some p" "unat (pid p) < MAX_PROCESSES"
    "sched_nodes (sched k) ! unat (pid p) = Some x" and z: "zip_at (sched k) fs (Node l (x, c) r)" "l \<noteq> Leaf" "r \<noteq> Leaf"
      "owned k (addrs (plug fs (Node l (x, c) r)))" and len: "length (sched_nodes (sched k)) = MAX_PROCESSES"
    by (auto simp: two_children_def)
  obtain n where n: "nodes (sched k) x = Some n" "n_left n = root_of l" "n_right n = root_of r" by (rule zip_node [OF z(1)]) simp
  have kids: "n_left n \<noteq> None" "n_right n \<noteq> None" using n z(2,3) by (cases l; cases r; simp)+
  define w where "w = hd (addrs r)"
  have "w \<in> set (addrs (plug fs (Node l (x, c) r)))" using z(3) by (cases r) (auto simp: w_def in_addrs_plug hd_append)
  then obtain m pb where m: "nodes (sched k) w = Some m" and pb: "procs k (n_process m) = Some pb" "unat (pid pb) < MAX_PROCESSES"
    using z(4) by (auto simp: owned_def)
  let ?n = "n\<lparr>n_vruntime := n_vruntime m, n_process := n_process m\<rparr>" and ?b = "n_process m"
  let ?s = "(sched k)\<lparr>nodes := (nodes (sched k))(x \<mapsto> ?n), sched_nodes := (sched_nodes (sched k))[unat (pid pb) := Some x]\<rparr>"
  let ?k = "k\<lparr>sched := ?s\<rparr>"
  have succ: "rbtree_successor x (sched k) = Some (Some w)" using successor_zip [OF z(1,3)] by (simp add: w_def)
  have z': "zip_at ?s fs (Node l (x, c) r)" using zip_payload [OF z(1) n(1)] by (simp add: zip_at_def)
  have succ': "rbtree_successor x ?s = Some (Some w)" using successor_zip [OF z' z(3)] by (simp add: w_def)
  have at: "get_sched_node a k = Some (Some x)" "get_sched_node ?b ?k = Some (Some x)"
    using p pb len by (simp_all add: get_sched_node_def)
  have "remove_step a k = Some (Again ?b ?k)"
    using at(1) n(1) kids succ m pb by (simp add: remove_step_def upd_node_def set_sched_node_def)
  moreover have "remove_step ?b ?k = Some (Again ?b ?k)"
  proof -
    obtain m' where m': "nodes ?s w = Some m'" "n_vruntime m' = n_vruntime m" "n_process m' = n_process m"
      using m n(1) by (cases "w = x") auto
    have "upd_node x (\<lambda>n. n\<lparr>n_vruntime := n_vruntime m, n_process := n_process m\<rparr>) ?s = Some ?s" by (simp add: upd_node_def)
    moreover have "set_sched_node ?b (Some x) ?k = Some ?k" using pb by (simp add: set_sched_node_def)
    ultimately show ?thesis using at(2) kids succ' m' by (simp add: remove_step_def)
  qed
  ultimately show ?thesis using at by blast
qed

lemma self_call_diverges:
  assumes "remove_step a k = Some (Again a k)"
  shows "rbtree_remove a k = None"
proof -
  have "remove_step a k \<noteq> Some (Again a k)" if "rbtree_remove a k = Some y" for a k y
  proof (rule rbtree_remove.raw_induct [OF _ that, where P = "\<lambda>a k y. remove_step a k \<noteq> Some (Again a k)"], goal_cases)
    case (1 f a k y)
    then show ?case by fastforce
  qed
  then show ?thesis using assms by (cases "rbtree_remove a k") auto
qed

text \<open>C7. The removal of a node with two children never returns, although every step of it is defined.
  \<^verbatim>\<open>rbtree_remove\<close> copies the successor's process into the node, makes the table lead from that process to this node
  and calls itself for that process. That call finds the same node, does the same, and calls itself with the same
  argument in the same state. So the calls go on without end and the function has no result.\<close>

theorem rbtree_remove_diverges:
  assumes "two_children a k"
  shows "\<exists>x b k'. get_sched_node a k = Some (Some x) \<and> get_sched_node b k' = Some (Some x) \<and>
    remove_step a k = Some (Again b k') \<and> remove_step b k' = Some (Again b k') \<and>
    rbtree_remove a k = None"
proof -
  obtain x b k' where r: "get_sched_node a k = Some (Some x)" "get_sched_node b k' = Some (Some x)"
    "remove_step a k = Some (Again b k')" "remove_step b k' = Some (Again b k')"
    using remove_step_repeats [OF assms] by blast
  have "rbtree_remove a k = rbtree_remove b k'" using r(3) by (simp add: rbtree_remove.simps [of a])
  then show ?thesis using r self_call_diverges [OF r(4)] by auto
qed

section \<open>Five processes\<close>

text \<open>The loops of the queue are executed by their equations.\<close>

declare leftmost_from.simps [code] insert_parent.simps [code] rbtree_insert_fixup.simps [code]
  rbtree_remove_fixup.simps [code] rbtree_remove.simps [code]

primrec add_all :: "node_alloc \<Rightarrow> nat list \<Rightarrow> kernel \<Rightarrow> kernel option" where
  "add_all kz [] k = Some k"
| "add_all kz (a # as) k = Option.bind (scheduler_add_process kz a k) (add_all kz as)"

definition two_picks :: "(nat option \<times> nat option \<times> kernel) option" where
  "two_picks = do {
     k \<leftarrow> add_all first_free [1, 2, 3, 4, 5] five_processes;
     (a, k) \<leftarrow> pick_next k;
     (b, k) \<leftarrow> pick_next k;
     Some (a, b, k)
   }"

lemma two_picks_view:
  "map_option (\<lambda>(a, b, k). (a, b, root (sched k), leftmost (sched k), map (nodes (sched k)) [102, 103, 104],
      map (map_option pid \<circ> procs k) [3, 4, 5], sched_nodes (sched k) ! 5, length (sched_nodes (sched k)))) two_picks =
   Some (Some 1, Some 2, Some 104, Some 104,
     [Some \<lparr>n_left = None, n_right = None, n_parent = Some 104, n_red = True, n_process = 3, n_vruntime = 10\<rparr>,
      Some \<lparr>n_left = None, n_right = None, n_parent = Some 104, n_red = True, n_process = 4, n_vruntime = 8\<rparr>,
      Some \<lparr>n_left = Some 103, n_right = Some 102, n_parent = None, n_red = False, n_process = 5, n_vruntime = 9\<rparr>],
     [Some 3, Some 4, Some 5], Some 104, MAX_PROCESSES)"
  by code_simp

lemma two_picks_result:
  "\<exists>k n. two_picks = Some (Some 1, Some 2, k) \<and> leftmost (sched k) = Some 104 \<and> nodes (sched k) 104 = Some n \<and>
    n_process n = 5 \<and> two_children 5 k"
proof -
  from two_picks_view obtain k where k: "two_picks = Some (Some 1, Some 2, k)" "root (sched k) = Some 104" "leftmost (sched k) = Some 104"
    "nodes (sched k) 102 = Some \<lparr>n_left = None, n_right = None, n_parent = Some 104, n_red = True, n_process = 3, n_vruntime = 10\<rparr>"
    "nodes (sched k) 103 = Some \<lparr>n_left = None, n_right = None, n_parent = Some 104, n_red = True, n_process = 4, n_vruntime = 8\<rparr>"
    "nodes (sched k) 104 = Some \<lparr>n_left = Some 103, n_right = Some 102, n_parent = None, n_red = False, n_process = 5, n_vruntime = 9\<rparr>"
    and p: "map_option pid (procs k 3) = Some 3" "map_option pid (procs k 4) = Some 4" "map_option pid (procs k 5) = Some 5"
    and s: "sched_nodes (sched k) ! 5 = Some 104" "length (sched_nodes (sched k)) = MAX_PROCESSES"
    by auto
  let ?l = "Node Leaf (103, True) Leaf" and ?r = "Node Leaf (102, True) Leaf"
  have "zip_at (sched k) [] (Node ?l (104, False) ?r)" using k(2-6) by (simp add: zip_at_def)
  moreover have "owned k (addrs (plug [] (Node ?l (104, False) ?r)))" using k(4-6) p by (auto simp: owned_def)
  ultimately have "two_children 5 k" using p(3) s unfolding two_children_def by fastforce
  then show ?thesis using k by auto
qed

text \<open>Five processes with the virtual runtimes 4, 7, 10, 8 and 9 are added to an empty queue. The first two choices
  return processes 1 and 2. The leftmost pointer then leads to process 5, although process 4 has a smaller virtual
  runtime, and its node has two children: the third choice never returns.\<close>

theorem rbtree_remove_diverges_witness:
  "\<exists>k b k'. two_picks = Some (Some 1, Some 2, k) \<and> remove_step 5 k = Some (Again b k') \<and>
     remove_step b k' = Some (Again b k') \<and> rbtree_remove 5 k = None \<and> pick_next k = None"
proof -
  obtain k n where k: "two_picks = Some (Some 1, Some 2, k)" "leftmost (sched k) = Some 104" "nodes (sched k) 104 = Some n"
    "n_process n = 5" "two_children 5 k" using two_picks_result by blast
  from rbtree_remove_diverges [OF k(5)] obtain b k' where "remove_step 5 k = Some (Again b k')"
    "remove_step b k' = Some (Again b k')" "rbtree_remove 5 k = None" by blast
  moreover then have "pick_next k = None" using k(2-4) by (simp add: pick_next_def)
  ultimately show ?thesis using k(1) by blast
qed

end
