(* ===== verification/Proc_Family.thy ===== *)
theory Proc_Family
  imports Proc_Life
begin

text \<open>
  The children of a process as a list. \<^verbatim>\<open>seg\<close> says that a pointer leads through the structures of a list of
  processes, linked in both directions, up to another pointer. The lemmas show what the loops of exit and wait do to
  such lists.
\<close>

section \<open>Sibling lists\<close>

fun seg :: "(nat \<rightharpoonup> process) \<Rightarrow> nat option \<Rightarrow> nat option \<Rightarrow> nat list \<Rightarrow> nat option \<Rightarrow> bool" where
  "seg h prv p [] q \<longleftrightarrow> p = q"
| "seg h prv p (a # as) q \<longleftrightarrow> p = Some a \<and>
     (\<exists>c. h a = Some c \<and> sibling_prev c = prv \<and> seg h (Some a) (sibling_next c) as q)"

definition family :: "kernel \<Rightarrow> nat \<Rightarrow> nat list \<Rightarrow> bool" where
  "family k a cs \<longleftrightarrow> distinct (a # cs) \<and> (\<exists>p. procs k a = Some p \<and> seg (procs k) None (children p) cs None)"

abbreviation last_or :: "nat option \<Rightarrow> nat list \<Rightarrow> nat option" where
  "last_or prv as \<equiv> (if as = [] then prv else Some (last as))"

abbreviation head_or :: "nat list \<Rightarrow> nat option \<Rightarrow> nat option" where
  "head_or as q \<equiv> (if as = [] then q else Some (hd as))"

lemma seg_head: "seg h prv p as q \<Longrightarrow> p = head_or as q"
  by (cases as) auto

lemma seg_upd [simp]: "a \<notin> set as \<Longrightarrow> seg (h(a := v)) prv p as q = seg h prv p as q"
  by (induction as arbitrary: prv p) auto

lemma seg_cong: "(\<And>a. a \<in> set as \<Longrightarrow> h' a = h a) \<Longrightarrow> seg h' prv p as q = seg h prv p as q"
  by (induction as arbitrary: prv p) auto

lemma seg_dom: "seg h prv p as q \<Longrightarrow> a \<in> set as \<Longrightarrow> \<exists>c. h a = Some c"
  by (induction as arbitrary: prv p) auto

lemma seg_append: "seg h prv p (as @ bs) q \<longleftrightarrow> (\<exists>m. seg h prv p as m \<and> seg h (last_or prv as) m bs q)"
  by (induction as arbitrary: prv p) auto

text \<open>Links that change at the end and at the start of a segment.\<close>

lemma seg_new_end:
  "seg h prv p as q \<Longrightarrow> distinct as \<Longrightarrow> as \<noteq> [] \<Longrightarrow> h (last as) = Some c \<Longrightarrow> seg (h(last as \<mapsto> c\<lparr>sibling_next := q'\<rparr>)) prv p as q'"
proof (induction as arbitrary: prv p)
  case (Cons a as)
  then show ?case by (cases "as = []") auto
qed simp

lemma seg_new_start:
  "seg h prv p (d # ds) q \<Longrightarrow> d \<notin> set ds \<Longrightarrow> h d = Some c \<Longrightarrow> seg (h(d \<mapsto> c\<lparr>sibling_prev := prv'\<rparr>)) prv' p (d # ds) q"
  by simp

section \<open>Searching\<close>

text \<open>The search of \<^verbatim>\<open>do_waitpid\<close> finds the first process of the list with the property.\<close>

lemma find_child_seg:
  "seg (procs k) prv p cs None \<Longrightarrow> find_child P p k = Some (find (\<lambda>a. P (the (procs k a))) cs)"
proof (induction cs arbitrary: prv p)
  case Nil
  then show ?case by (simp add: find_child.simps)
next
  case (Cons a cs)
  then obtain c where c: "p = Some a" "procs k a = Some c" "seg (procs k) (Some a) (sibling_next c) cs None" by auto
  then show ?case using Cons.IH [OF c(3)] by (simp add: find_child.simps [of P "Some a"])
qed

section \<open>Unlinking\<close>

text \<open>What the family links leave alone.\<close>

definition person :: "process \<Rightarrow> process" where
  "person p = p\<lparr>sibling_next := None, sibling_prev := None, children := None\<rparr>"

lemma person_simps [simp]:
  "person (p\<lparr>sibling_next := x\<rparr>) = person p" "person (p\<lparr>sibling_prev := x\<rparr>) = person p" "person (p\<lparr>children := x\<rparr>) = person p"
  by (simp_all add: person_def)

lemma person_fields:
  assumes "person p = person q"
  shows "pid p = pid q" "ppid p = ppid q" "pgid p = pgid q" "state p = state q" "exit_code p = exit_code q"
    "p_parent p = p_parent q" "wait_channel p = wait_channel q"
  using arg_cong [OF assms, of pid] arg_cong [OF assms, of ppid] arg_cong [OF assms, of pgid] arg_cong [OF assms, of state]
    arg_cong [OF assms, of exit_code] arg_cong [OF assms, of p_parent] arg_cong [OF assms, of wait_channel]
  by (simp_all add: person_def)

text \<open>The two assignments of the unlinking: to the one before, or to the parent, and to the one behind.\<close>

lemma link_before:
  assumes "procs k a = Some p" "seg (procs k) None (children p) as q" "distinct (a # as)"
  shows "\<exists>h p'. (case last_or None as of
             Some b \<Rightarrow> upd_proc b (sibling_next_update (\<lambda>_. m)) k
           | None \<Rightarrow> upd_proc a (children_update (\<lambda>_. m)) k) = Some (k\<lparr>procs := h\<rparr>) \<and>
    h a = Some p' \<and> seg h None (children p') as m \<and> (\<forall>x. map_option person (h x) = map_option person (procs k x)) \<and>
    (\<forall>x. x \<noteq> a \<and> x \<notin> set as \<longrightarrow> h x = procs k x)"
proof (cases "as = []")
  case True
  then show ?thesis using assms by (auto simp: upd_proc_def intro!: exI [of _ "(procs k)(a \<mapsto> p\<lparr>children := m\<rparr>)"])
next
  case False
  then have l: "last as \<in> set as" "last as \<noteq> a" using assms(3) by auto
  then obtain c where c: "procs k (last as) = Some c" using seg_dom [OF assms(2)] by auto
  then have "seg ((procs k)(last as \<mapsto> c\<lparr>sibling_next := m\<rparr>)) None (children p) as m"
    using seg_new_end [OF assms(2) _ False c] assms(3) by simp
  then show ?thesis using False c l assms(1)
    by (auto simp: upd_proc_def intro!: exI [of _ "(procs k)(last as \<mapsto> c\<lparr>sibling_next := m\<rparr>)"])
qed

lemma link_behind:
  assumes "seg (procs k) prv (head_or bs None) bs None" "distinct bs"
  shows "\<exists>h. (case head_or bs None of
             Some b \<Rightarrow> upd_proc b (sibling_prev_update (\<lambda>_. v)) k
           | None \<Rightarrow> Some k) = Some (k\<lparr>procs := h\<rparr>) \<and>
    seg h v (head_or bs None) bs None \<and> (\<forall>x. map_option person (h x) = map_option person (procs k x)) \<and>
    (\<forall>x. x \<notin> set bs \<longrightarrow> h x = procs k x)"
proof (cases bs)
  case Nil
  then show ?thesis by (auto intro!: exI [of _ "procs k"])
next
  case (Cons d ds)
  then obtain c where c: "procs k d = Some c" using assms(1) by auto
  then show ?thesis using Cons assms
    by (auto simp: upd_proc_def intro!: exI [of _ "(procs k)(d \<mapsto> c\<lparr>sibling_prev := v\<rparr>)"])
qed

text \<open>One process is taken out of the list: its neighbours are linked to each other.\<close>

lemma unlink_family:
  assumes f: "family k a (as @ b # bs)"
  shows "\<exists>h. unlink_child a b k = Some (k\<lparr>procs := h\<rparr>) \<and> family (k\<lparr>procs := h(b := None)\<rparr>) a (as @ bs) \<and>
    (\<forall>x. map_option person (h x) = map_option person (procs k x)) \<and>
    (\<forall>x. x \<noteq> a \<and> x \<notin> set (as @ bs) \<longrightarrow> h x = procs k x)"
proof -
  from f obtain p where p: "procs k a = Some p" "seg (procs k) None (children p) (as @ b # bs) None" and dist: "distinct (a # as @ b # bs)"
    by (auto simp: family_def)
  from p(2) obtain c where c: "seg (procs k) None (children p) as (Some b)" "procs k b = Some c" "sibling_prev c = last_or None as"
    "seg (procs k) (Some b) (sibling_next c) bs None" unfolding seg_append by auto
  have nx: "sibling_next c = head_or bs None" using c(4) by (rule seg_head)
  obtain h1 p1 where h1: "(case last_or None as of
             Some b \<Rightarrow> upd_proc b (sibling_next_update (\<lambda>_. sibling_next c)) k
           | None \<Rightarrow> upd_proc a (children_update (\<lambda>_. sibling_next c)) k) = Some (k\<lparr>procs := h1\<rparr>)"
    "h1 a = Some p1" "seg h1 None (children p1) as (head_or bs None)"
    "\<forall>x. map_option person (h1 x) = map_option person (procs k x)" "\<forall>x. x \<noteq> a \<and> x \<notin> set as \<longrightarrow> h1 x = procs k x"
    using link_before [OF p(1) c(1), of "sibling_next c"] dist nx by auto
  have "h1 b = Some c" using h1(5) dist c(2) by auto
  have "seg (procs (k\<lparr>procs := h1\<rparr>)) (Some b) (head_or bs None) bs None"
  proof -
    have "seg h1 (Some b) (head_or bs None) bs None = seg (procs k) (Some b) (head_or bs None) bs None"
      using h1(5) dist by (intro seg_cong) auto
    then show ?thesis using c(4) nx by simp
  qed
  from link_behind [OF this, of "last_or None as"] dist obtain h2 where
    h2: "(case head_or bs None of
             Some b \<Rightarrow> upd_proc b (sibling_prev_update (\<lambda>_. last_or None as)) (k\<lparr>procs := h1\<rparr>)
           | None \<Rightarrow> Some (k\<lparr>procs := h1\<rparr>)) = Some (k\<lparr>procs := h2\<rparr>)" "seg h2 (last_or None as) (head_or bs None) bs None"
      "\<forall>x. map_option person (h2 x) = map_option person (h1 x)" "\<forall>x. x \<notin> set bs \<longrightarrow> h2 x = h1 x" by auto
  have "unlink_child a b k = Some (k\<lparr>procs := h2\<rparr>)"
    using c(2,3) h1(1) h2(1,4) \<open>h1 b = Some c\<close> nx dist by (cases "as = []"; cases "bs = []") (simp_all add: unlink_child_def)
  moreover have "family (k\<lparr>procs := h2(b := None)\<rparr>) a (as @ bs)"
  proof -
    have "h2 a = Some p1" using h2(4) h1(2) dist by auto
    moreover have "seg h2 None (children p1) as (head_or bs None)"
      using h1(3) h2(4) dist by (subst seg_cong [of as _ h1]) auto
    ultimately show ?thesis using dist h2(2) by (auto simp: family_def seg_append)
  qed
  moreover have "\<forall>x. map_option person (h2 x) = map_option person (procs k x)" using h1(4) h2(3) by simp
  moreover have "\<forall>x. x \<noteq> a \<and> x \<notin> set (as @ bs) \<longrightarrow> h2 x = procs k x" using h1(5) h2(4) by simp
  ultimately show ?thesis by blast
qed

section \<open>Reparenting\<close>

text \<open>The identity of a process, which neither unlinking nor reparenting changes.\<close>

definition core :: "process \<Rightarrow> u32 \<times> u32 \<times> process_state \<times> int \<times> nat option" where
  "core p = (pid p, pgid p, state p, exit_code p, wait_channel p)"

lemma core_simps [simp]:
  "core (p\<lparr>sibling_next := x\<rparr>) = core p" "core (p\<lparr>sibling_prev := x\<rparr>) = core p" "core (p\<lparr>children := x\<rparr>) = core p"
  "core (p\<lparr>p_parent := y, ppid := z\<rparr>) = core p"
  by (simp_all add: core_def)

text \<open>A process becomes the first child of \<^verbatim>\<open>i\<close>.\<close>

lemma reparent_child_family:
  assumes "family k i ds" "procs k i = Some q" "procs k c = Some pc" "c \<notin> set (i # ds)"
  shows "\<exists>h. reparent_child i c k = Some (k\<lparr>procs := h\<rparr>) \<and> family (k\<lparr>procs := h\<rparr>) i (c # ds) \<and>
    (\<forall>x. x \<notin> set (i # c # ds) \<longrightarrow> h x = procs k x) \<and> (\<exists>c'. h c = Some c' \<and> p_parent c' = Some i \<and> ppid c' = pid q) \<and>
    (\<forall>x. map_option core (h x) = map_option core (procs k x)) \<and>
    (\<forall>x. x \<noteq> c \<longrightarrow> map_option person (h x) = map_option person (procs k x))"
proof (cases ds)
  case Nil
  then show ?thesis using assms
    by (auto simp: reparent_child_def upd_proc_def family_def fun_upd_twist
        intro!: exI [of _ "(procs k)(c \<mapsto> pc\<lparr>p_parent := Some i, ppid := pid q, sibling_next := None, sibling_prev := None\<rparr>,
          i \<mapsto> q\<lparr>children := Some c\<rparr>)"])
next
  case (Cons d ds')
  then obtain pd where pd: "procs k d = Some pd" "children q = Some d" using assms(1,2) by (auto simp: family_def)
  then show ?thesis using assms Cons
    by (auto simp: reparent_child_def upd_proc_def family_def
        intro!: exI [of _ "(procs k)(c \<mapsto> pc\<lparr>p_parent := Some i, ppid := pid q, sibling_next := Some d, sibling_prev := None\<rparr>,
          d \<mapsto> pd\<lparr>sibling_prev := Some c\<rparr>, i \<mapsto> q\<lparr>children := Some c\<rparr>)"])
qed

lemma reparent_from_family:
  assumes "seg (procs k) prv p cs None" "family k i ds" "procs k i = Some q" "distinct (i # cs @ ds)"
  shows "\<exists>h. reparent_from i p k = Some (k\<lparr>procs := h\<rparr>) \<and> family (k\<lparr>procs := h\<rparr>) i (rev cs @ ds) \<and>
    (\<forall>x. x \<notin> set (i # cs @ ds) \<longrightarrow> h x = procs k x) \<and>
    (\<forall>c \<in> set cs. \<exists>c'. h c = Some c' \<and> p_parent c' = Some i \<and> ppid c' = pid q) \<and>
    (\<forall>x. map_option core (h x) = map_option core (procs k x)) \<and>
    (\<forall>x. x \<notin> set cs \<longrightarrow> map_option person (h x) = map_option person (procs k x))"
  using assms
proof (induction cs arbitrary: k prv p ds q)
  case Nil
  then show ?case by (auto simp: reparent_from.simps [of i None] intro!: exI [of _ "procs k"])
next
  case (Cons c cs)
  then obtain pc where pc: "p = Some c" "procs k c = Some pc" "seg (procs k) (Some c) (sibling_next pc) cs None" by auto
  from reparent_child_family [OF Cons.prems(2,3) pc(2)] Cons.prems(4) obtain h1 where
    h1: "reparent_child i c k = Some (k\<lparr>procs := h1\<rparr>)" "family (k\<lparr>procs := h1\<rparr>) i (c # ds)"
      "\<forall>x. x \<notin> set (i # c # ds) \<longrightarrow> h1 x = procs k x" "\<exists>c'. h1 c = Some c' \<and> p_parent c' = Some i \<and> ppid c' = pid q"
      "\<forall>x. map_option core (h1 x) = map_option core (procs k x)"
      "\<forall>x. x \<noteq> c \<longrightarrow> map_option person (h1 x) = map_option person (procs k x)" by auto
  have "seg h1 (Some c) (sibling_next pc) cs None"
    using pc(3) h1(3) Cons.prems(4) by (subst seg_cong [of cs _ "procs k"]) auto
  moreover obtain q1 where q1: "h1 i = Some q1" "person q1 = person q" using h1(6) Cons.prems(3,4) by fastforce
  ultimately obtain h where h: "reparent_from i (sibling_next pc) (k\<lparr>procs := h1\<rparr>) = Some (k\<lparr>procs := h\<rparr>)"
    "family (k\<lparr>procs := h\<rparr>) i (rev cs @ c # ds)" "\<forall>x. x \<notin> set (i # cs @ c # ds) \<longrightarrow> h x = h1 x"
    "\<forall>c \<in> set cs. \<exists>c'. h c = Some c' \<and> p_parent c' = Some i \<and> ppid c' = pid q1"
    "\<forall>x. map_option core (h x) = map_option core (h1 x)"
    "\<forall>x. x \<notin> set cs \<longrightarrow> map_option person (h x) = map_option person (h1 x)"
    using Cons.IH [of "k\<lparr>procs := h1\<rparr>" "Some c" "sibling_next pc" "c # ds" q1] h1(2) Cons.prems(4) by auto
  have "\<exists>c'. h c = Some c' \<and> p_parent c' = Some i \<and> ppid c' = pid q"
  proof -
    obtain c1 where c1: "h1 c = Some c1" "p_parent c1 = Some i" "ppid c1 = pid q" using h1(4) by blast
    then obtain c' where "h c = Some c'" "person c' = person c1" using h(6) Cons.prems(4) by fastforce
    then show ?thesis using c1 person_fields by metis
  qed
  moreover have "pid q1 = pid q" using person_fields(1) [OF q1(2)] .
  moreover have "reparent_from i p k = Some (k\<lparr>procs := h\<rparr>)"
    using pc h1(1) h(1) by (simp add: reparent_from.simps [of i "Some c"])
  ultimately show ?case using h h1 by (intro exI [of _ h]) auto
qed

lemma seg_children [simp]:
  "h a = Some p \<Longrightarrow> seg (h(a \<mapsto> p\<lparr>children := x\<rparr>)) prv c as q = seg h prv c as q"
  by (induction as arbitrary: prv c) auto

text \<open>Exit gives the children to process 1, the last one first.\<close>

lemma reparent_children_family:
  assumes "family k a cs" "process_find 1 k = Some i" "family k i ds" "procs k i = Some q" "distinct (i # cs @ ds)" "a \<notin> set (i # cs)"
  shows "\<exists>h. reparent_children a k = Some (k\<lparr>procs := h\<rparr>) \<and> family (k\<lparr>procs := h\<rparr>) a [] \<and> family (k\<lparr>procs := h\<rparr>) i (rev cs @ ds) \<and>
    (\<forall>c \<in> set cs. \<exists>c'. h c = Some c' \<and> p_parent c' = Some i \<and> ppid c' = pid q) \<and>
    (\<forall>x. x \<notin> set (a # i # cs @ ds) \<longrightarrow> h x = procs k x) \<and> (\<forall>x. map_option core (h x) = map_option core (procs k x)) \<and>
    (\<forall>x. x \<notin> set cs \<longrightarrow> map_option person (h x) = map_option person (procs k x)) \<and>
    (a \<notin> set ds \<longrightarrow> h a = map_option (children_update (\<lambda>_. None)) (procs k a))"
proof -
  from assms(1) obtain p where p: "procs k a = Some p" "seg (procs k) None (children p) cs None" by (auto simp: family_def)
  from reparent_from_family [OF p(2) assms(3,4,5)] obtain h where
    h: "reparent_from i (children p) k = Some (k\<lparr>procs := h\<rparr>)" "family (k\<lparr>procs := h\<rparr>) i (rev cs @ ds)"
      "\<forall>x. x \<notin> set (i # cs @ ds) \<longrightarrow> h x = procs k x"
      "\<forall>c \<in> set cs. \<exists>c'. h c = Some c' \<and> p_parent c' = Some i \<and> ppid c' = pid q"
      "\<forall>x. map_option core (h x) = map_option core (procs k x)"
      "\<forall>x. x \<notin> set cs \<longrightarrow> map_option person (h x) = map_option person (procs k x)" by auto
  obtain pa where ha: "h a = Some pa" using h(5) [rule_format, of a] p(1) by auto
  let ?h = "h(a \<mapsto> pa\<lparr>children := None\<rparr>)"
  have "reparent_children a k = Some (k\<lparr>procs := ?h\<rparr>)"
  proof (cases "children p = None")
    case True
    then have "k\<lparr>procs := h\<rparr> = k" using h(1) by (simp add: reparent_from.simps [of i None])
    then have "h = procs k" by (metis kernel.select_convs(1) kernel.surjective kernel.update_convs(1))
    moreover have "pa\<lparr>children := None\<rparr> = pa" using True ha p(1) \<open>h = procs k\<close> by simp
    ultimately have "?h = procs k" using ha by (simp add: map_upd_triv)
    then show ?thesis using True p(1) by (simp add: reparent_children_def)
  next
    case False
    then show ?thesis using p(1) assms(2) h(1) ha by (auto simp: reparent_children_def upd_proc_def)
  qed
  moreover have "family (k\<lparr>procs := ?h\<rparr>) a []" by (simp add: family_def)
  moreover have "family (k\<lparr>procs := ?h\<rparr>) i (rev cs @ ds)" using h(2) assms(6) ha by (auto simp: family_def)
  moreover have "\<forall>c \<in> set cs. \<exists>c'. ?h c = Some c' \<and> p_parent c' = Some i \<and> ppid c' = pid q" using h(4) assms(6) by auto
  moreover have "map_option core (?h x) = map_option core (procs k x)" for x
    using h(5) [rule_format, of x] ha by (cases "x = a") auto
  moreover have "\<forall>x. x \<notin> set (a # i # cs @ ds) \<longrightarrow> ?h x = procs k x" using h(3) by simp
  moreover have "map_option person (?h x) = map_option person (procs k x)" if "x \<notin> set cs" for x
    using h(6) [rule_format, of x] that ha by (cases "x = a") auto
  moreover have "?h a = map_option (children_update (\<lambda>_. None)) (procs k a)" if "a \<notin> set ds"
    using h(3) [rule_format, of a] that assms(6) ha p(1) by auto
  ultimately show ?thesis by blast
qed

end
