(* ===== verification/Proc_Sched.thy ===== *)
theory Proc_Sched
  imports Sched_Pick Proc_Family Proc_Table_Props
begin

text \<open>
  The scheduler and the process structures together: putting a process on the queue, waking the sleepers of a
  channel and giving up the CPU, on a kernel whose queue is a red-black tree and whose sleeping processes are not
  queued.
\<close>

section \<open>The queue and the processes\<close>

lemma queue_tree_cong:
  assumes "queue_tree k t" "sched k' = sched k" "\<And>y p. procs k y = Some p \<Longrightarrow> \<exists>p'. procs k' y = Some p' \<and> pid p' = pid p"
  shows "queue_tree k' t"
proof -
  have "nodes_ok k'" using assms unfolding queue_tree_def nodes_ok_def by (metis (no_types, lifting))
  then show ?thesis using assms(1,2) by (simp add: queue_tree_def)
qed

lemma balanced_queue_cong:
  assumes "balanced_queue k q" "sched k' = sched k" "\<And>y p. procs k y = Some p \<Longrightarrow> \<exists>p'. procs k' y = Some p' \<and> pid p' = pid p"
  shows "balanced_queue k' q"
  using assms queue_tree_cong [OF _ assms(2,3)] by (fastforce simp: balanced_queue_def contents_def)

text \<open>\<^verbatim>\<open>kzalloc\<close> does not fail and gives a block that is not in use.\<close>

definition alloc_ok :: "node_alloc \<Rightarrow> bool" where
  "alloc_ok kz \<longleftrightarrow> (\<forall>h. finite (dom h) \<longrightarrow> (\<exists>x. kz h = Some x \<and> h x = None))"

lemma place_process_fields [simp]:
  "pid (place_process v p) = pid p" "state (place_process v p) = state p" "exit_code (place_process v p) = exit_code p"
  "sibling_next (place_process v p) = sibling_next p" "sibling_prev (place_process v p) = sibling_prev p"
  "children (place_process v p) = children p" "pgid (place_process v p) = pgid p" "p_parent (place_process v p) = p_parent p"
  by (simp_all add: place_process_def Let_def)

lemma add_process_queue:
  assumes q: "balanced_queue k q" and p: "procs k a = Some p" "state p \<noteq> PROCESS_STATE_ZOMBIE" "unat (pid p) < MAX_PROCESSES"
    "sched_nodes (sched k) ! unat (pid p) = None" and kz: "alloc_ok kz"
  shows "\<exists>s' x. let p' = place_process (min_vruntime (sched k)) p; k' = k\<lparr>sched := s', procs := (procs k)(a \<mapsto> p'\<lparr>state := PROCESS_STATE_READY\<rparr>)\<rparr>
    in scheduler_add_process kz a k = Some k' \<and> balanced_queue k' (enqueue (a, vruntime p') q) \<and>
       sched_nodes s' = (sched_nodes (sched k))[unat (pid p) := Some x] \<and> sched_enabled s' = sched_enabled (sched k)"
proof -
  define p' where "p' = place_process (min_vruntime (sched k)) p"
  let ?k1 = "k\<lparr>procs := (procs k)(a \<mapsto> p')\<rparr>"
  have "balanced_queue ?k1 q" by (rule balanced_queue_cong [OF q]) (use p(1) in \<open>auto simp: p'_def\<close>)
  then obtain t where t: "queue_tree ?k1 t" "rbt t" "contents ?k1 t = q" by (auto simp: balanced_queue_def)
  have "finite (dom (nodes (sched k)))" using t(1) by (simp add: queue_tree_def)
  then obtain x where x: "kz (nodes (sched k)) = Some x" "nodes (sched k) x = None" using kz by (auto simp: alloc_ok_def)
  obtain s' t' where s': "rbtree_insert kz a ?k1 = Some (?k1\<lparr>sched := s'\<rparr>)" "queue_tree (?k1\<lparr>sched := s'\<rparr>) t'" "rbt t'"
      "contents (?k1\<lparr>sched := s'\<rparr>) t' = enqueue (a, vruntime p') q" "sched_enabled s' = sched_enabled (sched k)"
      "sched_nodes s' = (sched_nodes (sched k))[unat (pid p) := Some x]"
    using rbtree_insert_queue [of ?k1 t a p' kz x] t p x by (auto simp: p'_def)
  let ?k' = "k\<lparr>sched := s', procs := (procs k)(a \<mapsto> p'\<lparr>state := PROCESS_STATE_READY\<rparr>)\<rparr>"
  have "balanced_queue (?k1\<lparr>sched := s'\<rparr>) (enqueue (a, vruntime p') q)" using s'(2-4) by (auto simp: balanced_queue_def)
  then have "balanced_queue ?k' (enqueue (a, vruntime p') q)" by (rule balanced_queue_cong) (auto split: if_splits)
  moreover have "scheduler_add_process kz a k = Some ?k'"
    using p s'(1) by (simp add: scheduler_add_process_def upd_proc_def p'_def)
  ultimately show ?thesis using s'(5,6) by (auto simp: Let_def p'_def intro!: exI [of _ s'])
qed

section \<open>Wakeup\<close>

text \<open>The processes of the table have the id of their slot, and a sleeping one has no node in the queue.\<close>

definition sleepers_ok :: "kernel \<Rightarrow> bool" where
  "sleepers_ok k \<longleftrightarrow> length (process_table k) = MAX_PROCESSES \<and> length (sched_nodes (sched k)) = MAX_PROCESSES \<and>
    (\<forall>i a. i < MAX_PROCESSES \<and> process_table k ! i = Some a \<longrightarrow>
      (\<exists>p. procs k a = Some p \<and> unat (pid p) = i \<and> (state p = PROCESS_STATE_SLEEPING \<longrightarrow> sched_nodes (sched k) ! i = None)))"

lemma sleepers_okD:
  assumes "sleepers_ok k" "i < MAX_PROCESSES" "process_table k ! i = Some a"
  obtains p where "procs k a = Some p" "unat (pid p) = i" "state p = PROCESS_STATE_SLEEPING \<longrightarrow> sched_nodes (sched k) ! i = None"
  using assms unfolding sleepers_ok_def by blast

text \<open>The part of a process that the scheduler leaves alone.\<close>

definition rigid :: "process \<Rightarrow> process" where
  "rigid p = p\<lparr>state := PROCESS_STATE_UNUSED, wait_channel := None, weight := 0, vruntime := 0, need_resched := False\<rparr>"

lemma rigid_simps [simp]:
  "rigid (p\<lparr>state := x\<rparr>) = rigid p" "rigid (p\<lparr>wait_channel := c\<rparr>) = rigid p" "rigid (p\<lparr>need_resched := b\<rparr>) = rigid p"
  "rigid (place_process v p) = rigid p"
  by (simp_all add: rigid_def place_process_def Let_def)

lemma rigid_fields:
  assumes "rigid p = rigid q"
  shows "pid p = pid q" "pgid p = pgid q" "exit_code p = exit_code q" "sibling_next p = sibling_next q"
    "sibling_prev p = sibling_prev q" "children p = children q" "p_parent p = p_parent q"
  using arg_cong [OF assms, of pid] arg_cong [OF assms, of pgid] arg_cong [OF assms, of exit_code] arg_cong [OF assms, of sibling_next]
    arg_cong [OF assms, of sibling_prev] arg_cong [OF assms, of children] arg_cong [OF assms, of p_parent]
  by (simp_all add: rigid_def)

definition woke :: "kernel \<Rightarrow> kernel \<Rightarrow> bool" where
  "woke k k' \<longleftrightarrow> process_table k' = process_table k \<and> current k' = current k \<and> sched_enabled (sched k') = sched_enabled (sched k) \<and>
    (\<forall>x. map_option rigid (procs k' x) = map_option rigid (procs k x)) \<and>
    (\<forall>x p p'. procs k x = Some p \<and> procs k' x = Some p' \<longrightarrow> state p' = state p \<or> state p = PROCESS_STATE_SLEEPING)"

lemma woke_refl [simp]: "woke k k"
  by (auto simp: woke_def)

lemma woke_trans: "woke k k' \<Longrightarrow> woke k' k'' \<Longrightarrow> woke k k''"
proof -
  assume 1: "woke k k'" and 2: "woke k' k''"
  have "state p'' = state p \<or> state p = PROCESS_STATE_SLEEPING" if "procs k x = Some p" "procs k'' x = Some p''" for x p p''
  proof -
    have "map_option rigid (procs k' x) = Some (rigid p)" using 1 that(1) by (simp add: woke_def)
    then obtain p' where "procs k' x = Some p'" by auto
    then show ?thesis using 1 2 that unfolding woke_def by metis
  qed
  then show ?thesis using 1 2 by (auto simp: woke_def)
qed

definition queued :: "(nat \<times> u64) list \<Rightarrow> nat set" where
  "queued q = fst ` set q"

lemma queued_simps [simp]: "queued [] = {}" "queued (e # q) = insert (fst e) (queued q)"
  by (simp_all add: queued_def)

lemma queued_enqueue [simp]: "queued (enqueue e q) = insert (fst e) (queued q)"
proof -
  have "set (enqueue e q) = insert e (set q)"
    unfolding enqueue_def by (metis Un_insert_right list.simps(15) set_append takeWhile_dropWhile_id)
  then show ?thesis by (simp add: queued_def)
qed

lemma wakeup_slot_queue:
  assumes q: "balanced_queue k q" and s: "sleepers_ok k" "alloc_ok kz" "i < MAX_PROCESSES"
  shows "\<exists>k' q'. wakeup_slot kz ch i k = Some k' \<and> balanced_queue k' q' \<and> sleepers_ok k' \<and> woke k k' \<and>
    (\<forall>a \<in> queued q'. a \<in> queued q \<or> (\<exists>p. procs k a = Some p \<and> state p = PROCESS_STATE_SLEEPING)) \<and>
    (\<forall>a. process_table k ! i \<noteq> Some a \<longrightarrow> procs k' a = procs k a)"
proof (cases "process_table k ! i")
  case None
  then show ?thesis using assms by (auto simp: wakeup_slot_def)
next
  case (Some a)
  then obtain p where p: "procs k a = Some p" "unat (pid p) = i" "state p = PROCESS_STATE_SLEEPING \<longrightarrow> sched_nodes (sched k) ! i = None"
    using s by (auto simp: sleepers_ok_def)
  show ?thesis
  proof (cases "state p = PROCESS_STATE_SLEEPING \<and> wait_channel p = ch")
    case False
    then show ?thesis using assms Some p by (auto simp: wakeup_slot_def)
  next
    case True
    let ?p = "p\<lparr>wait_channel := None\<rparr>" and ?k = "k\<lparr>procs := (procs k)(a \<mapsto> p\<lparr>wait_channel := None\<rparr>)\<rparr>"
    have "balanced_queue ?k q" by (rule balanced_queue_cong [OF q]) (use p(1) in auto)
    from add_process_queue [OF this, of a ?p kz] p True s obtain s' x where
      s': "scheduler_add_process kz a ?k = Some (?k\<lparr>sched := s', procs := (procs k)(a \<mapsto> (place_process (min_vruntime (sched k)) ?p)\<lparr>state := PROCESS_STATE_READY\<rparr>)\<rparr>)"
      "balanced_queue (?k\<lparr>sched := s', procs := (procs k)(a \<mapsto> (place_process (min_vruntime (sched k)) ?p)\<lparr>state := PROCESS_STATE_READY\<rparr>)\<rparr>)
        (enqueue (a, vruntime (place_process (min_vruntime (sched k)) ?p)) q)"
      "sched_nodes s' = (sched_nodes (sched k))[i := Some x]" "sched_enabled s' = sched_enabled (sched k)"
      by (auto simp: Let_def)
    let ?k' = "?k\<lparr>sched := s', procs := (procs k)(a \<mapsto> (place_process (min_vruntime (sched k)) ?p)\<lparr>state := PROCESS_STATE_READY\<rparr>)\<rparr>"
    have "wakeup_slot kz ch i k = Some ?k'" using Some p True s'(1) by (simp add: wakeup_slot_def upd_proc_def)
    moreover have "woke k ?k'" using p(1) True s'(4) by (auto simp: woke_def)
    moreover have "sleepers_ok ?k'"
    proof -
      have "\<exists>p'. procs ?k' b = Some p' \<and> unat (pid p') = j \<and> (state p' = PROCESS_STATE_SLEEPING \<longrightarrow> sched_nodes s' ! j = None)"
        if j: "j < MAX_PROCESSES" "process_table k ! j = Some b" for j b
      proof (cases "b = a")
        case True
        then have "j = i" using sleepers_okD [OF s(1) j] p(1,2) by (metis option.inject)
        then show ?thesis using True p(2) by simp
      next
        case False
        then have "j \<noteq> i" using j Some by auto
        moreover obtain pb where "procs k b = Some pb" "unat (pid pb) = j"
            "state pb = PROCESS_STATE_SLEEPING \<longrightarrow> sched_nodes (sched k) ! j = None" by (rule sleepers_okD [OF s(1) j])
        ultimately show ?thesis using False s'(3) by simp
      qed
      then show ?thesis using s(1) s'(3) by (simp add: sleepers_ok_def)
    qed
    moreover have "\<forall>b \<in> queued (enqueue (a, v) q). b \<in> queued q \<or> (\<exists>p. procs k b = Some p \<and> state p = PROCESS_STATE_SLEEPING)" for v
      using p(1) True by auto
    moreover have "\<forall>b. process_table k ! i \<noteq> Some b \<longrightarrow> procs ?k' b = procs k b" using Some by auto
    ultimately show ?thesis using s'(2) by blast
  qed
qed

text \<open>The sleepers of a channel become ready.\<close>

definition asleep_at :: "kernel \<Rightarrow> nat option \<Rightarrow> nat \<Rightarrow> nat \<Rightarrow> bool" where
  "asleep_at k ch i a \<longleftrightarrow> process_table k ! i = Some a \<and>
    (\<exists>p. procs k a = Some p \<and> state p = PROCESS_STATE_SLEEPING \<and> wait_channel p = ch)"

lemma wakeup_slot_ready:
  "wakeup_slot kz ch i k = Some k' \<Longrightarrow> asleep_at k ch i a \<Longrightarrow> map_option state (procs k' a) = Some PROCESS_STATE_READY"
  by (auto simp: asleep_at_def wakeup_slot_def scheduler_add_process_def upd_proc_def split: bind_splits)

lemma woke_state:
  assumes w: "woke k k'" and p: "procs k a = Some p" "state p \<noteq> PROCESS_STATE_SLEEPING"
  obtains p' where "procs k' a = Some p'" "state p' = state p" "rigid p' = rigid p"
proof -
  have "map_option rigid (procs k' a) = map_option rigid (procs k a)" using w by (simp add: woke_def)
  then obtain p' where p': "procs k' a = Some p'" "rigid p' = rigid p" using p by auto
  moreover have "state p' = state p" using w p p' unfolding woke_def by metis
  ultimately show thesis using that by blast
qed

lemma wakeup_from_queue:
  assumes "balanced_queue k q" "sleepers_ok k" "alloc_ok kz" "\<forall>i \<in> set is. i < MAX_PROCESSES"
  shows "\<exists>k' q'. wakeup_from kz ch is k = Some k' \<and> balanced_queue k' q' \<and> sleepers_ok k' \<and> woke k k' \<and>
    (\<forall>a \<in> queued q'. a \<in> queued q \<or> (\<exists>p. procs k a = Some p \<and> state p = PROCESS_STATE_SLEEPING)) \<and>
    (\<forall>i \<in> set is. \<forall>a. asleep_at k ch i a \<longrightarrow> map_option state (procs k' a) = Some PROCESS_STATE_READY)"
  using assms
proof (induction "is" arbitrary: k q)
  case Nil
  then show ?case by auto
next
  case (Cons i "is")
  obtain k1 q1 where 1: "wakeup_slot kz ch i k = Some k1" "balanced_queue k1 q1" "sleepers_ok k1" "woke k k1"
    "\<forall>a \<in> queued q1. a \<in> queued q \<or> (\<exists>p. procs k a = Some p \<and> state p = PROCESS_STATE_SLEEPING)"
    "\<forall>a. process_table k ! i \<noteq> Some a \<longrightarrow> procs k1 a = procs k a"
    using wakeup_slot_queue [of k q kz i ch] Cons.prems by auto
  obtain k2 q2 where 2: "wakeup_from kz ch is k1 = Some k2" "balanced_queue k2 q2" "sleepers_ok k2" "woke k1 k2"
    "\<forall>a \<in> queued q2. a \<in> queued q1 \<or> (\<exists>p. procs k1 a = Some p \<and> state p = PROCESS_STATE_SLEEPING)"
    "\<forall>i \<in> set is. \<forall>a. asleep_at k1 ch i a \<longrightarrow> map_option state (procs k2 a) = Some PROCESS_STATE_READY"
    using Cons.IH [OF 1(2,3) Cons.prems(3)] Cons.prems(4) by auto
  have "map_option state (procs k2 a) = Some PROCESS_STATE_READY" if j: "j \<in> set (i # is)" "asleep_at k ch j a" for j a
  proof (cases "process_table k ! i = Some a")
    case True
    then have "asleep_at k ch i a" using j(2) by (simp add: asleep_at_def)
    then obtain p1 where p1: "procs k1 a = Some p1" "state p1 = PROCESS_STATE_READY" using wakeup_slot_ready [OF 1(1)] by auto
    then show ?thesis using woke_state [OF 2(4) p1(1)] by auto
  next
    case False
    then have "asleep_at k1 ch j a" "j \<in> set is" using j 1(4,6) by (auto simp: asleep_at_def woke_def)
    then show ?thesis using 2(6) by blast
  qed
  moreover have "\<exists>p. procs k a = Some p \<and> state p = PROCESS_STATE_SLEEPING" if p1: "procs k1 a = Some p1" "state p1 = PROCESS_STATE_SLEEPING" for a p1
  proof -
    have "map_option rigid (procs k1 a) = map_option rigid (procs k a)" using 1(4) by (simp add: woke_def)
    then obtain p where "procs k a = Some p" using p1(1) by (cases "procs k a") auto
    then show ?thesis using 1(4) p1 unfolding woke_def by metis
  qed
  then have "\<forall>a \<in> queued q2. a \<in> queued q \<or> (\<exists>p. procs k a = Some p \<and> state p = PROCESS_STATE_SLEEPING)"
    using 1(5) 2(5) by blast
  moreover have "wakeup_from kz ch (i # is) k = Some k2" using 1(1) 2(1) by simp
  ultimately show ?case using 2(2,3) woke_trans [OF 1(4) 2(4)] by blast
qed

section \<open>Giving up the CPU\<close>

lemma queued_exists: "balanced_queue k q \<Longrightarrow> a \<in> queued q \<Longrightarrow> \<exists>p. procs k a = Some p"
proof -
  assume "balanced_queue k q" "a \<in> queued q"
  then obtain t where t: "queue_tree k t" "a \<in> fst ` set (contents k t)" by (auto simp: balanced_queue_def queued_def)
  then obtain x where "x \<in> set (addrs t)" "a = fst (the (payload (nodes (sched k)) x))" by (auto simp: contents_def)
  moreover then obtain n where "nodes (sched k) x = Some n" using t(1) by (auto simp: queue_tree_def)
  ultimately show ?thesis using t(1) by (fastforce simp: queue_tree_def nodes_ok_def payload_def)
qed

text \<open>A process that has become a zombie leaves the CPU to another one and is not put back.\<close>

lemma schedule_zombie:
  assumes q: "balanced_queue k q" and a: "current k = Some a" "procs k a = Some p" "state p = PROCESS_STATE_ZOMBIE" "a \<notin> queued q"
    and e: "sched_enabled (sched k)" "process_find 0 k = Some z" "z \<noteq> a" "procs k z = Some pz"
  shows "\<exists>b k'. schedule kz k = Some (b, k') \<and> process_table k' = process_table k \<and>
    (\<forall>x. map_option rigid (procs k' x) = map_option rigid (procs k x)) \<and>
    (\<forall>x. map_option state (procs k' x) = map_option state (procs k x) \<or> (Some x = b \<and> map_option state (procs k' x) = Some PROCESS_STATE_RUNNING)) \<and>
    map_option state (procs k' a) = Some PROCESS_STATE_ZOMBIE"
proof -
  let ?k = "k\<lparr>procs := (procs k)(a \<mapsto> p\<lparr>need_resched := False\<rparr>)\<rparr>"
  have q1: "balanced_queue ?k q" by (rule balanced_queue_cong [OF q]) (use a(2) in auto)
  obtain b c s' where pick: "pick_next ?k = Some (c, ?k\<lparr>sched := s'\<rparr>)" "(if c = None then process_find 0 ?k else c) = Some b"
    "b \<noteq> a" "procs k b \<noteq> None"
  proof (cases q)
    case Nil
    then have "pick_next ?k = Some (None, ?k\<lparr>sched := sched ?k\<rparr>)"
      using q1 pick_next_empty [of ?k] by (auto simp: balanced_queue_def run_queue_def)
    then show thesis using that [of None "sched ?k" z] e by simp
  next
    case (Cons d q')
    then show thesis using that [of "Some (fst d)" _ "fst d"] pick_next_first [of ?k "fst d" "snd d" q'] q1 a(4) queued_exists [OF q, of "fst d"]
      by auto
  qed
  then obtain pb where pb: "procs k b = Some pb" by auto
  let ?k' = "?k\<lparr>sched := s', procs := (procs ?k)(b \<mapsto> pb\<lparr>state := PROCESS_STATE_RUNNING, need_resched := False\<rparr>), current := Some b\<rparr>"
  have "schedule kz k = Some (Some b, ?k')"
    using a e(1) pick pb by (cases c) (auto simp: schedule_def upd_proc_def)
  then show ?thesis using a pick(3) pb by auto
qed

end
