(* ===== verification/Family_Correct.thy ===== *)
theory Family_Correct
  imports Proc_Sched
begin

text \<open>
  Exit and wait are correct: what \<^verbatim>\<open>do_waitpid\<close> answers and reaps, where the children of an exiting process go, and
  that the parent of a process that exits gets its id and status.
\<close>

section \<open>Wait\<close>

lemma remove1_split: "find P cs = Some b \<Longrightarrow> \<exists>as bs. cs = as @ b # bs \<and> b \<notin> set as"
  by (metis find_Some_iff in_set_conv_decomp_first nth_mem)

definition exited :: "int \<Rightarrow> kernel \<Rightarrow> process \<Rightarrow> nat \<Rightarrow> bool" where
  "exited i k p b \<longleftrightarrow> wait_match i p (the (procs k b)) \<and> state (the (procs k b)) = PROCESS_STATE_ZOMBIE"

text \<open>The children the id of the call can mean, without regard to their state.\<close>

definition has_child :: "int \<Rightarrow> kernel \<Rightarrow> nat list \<Rightarrow> bool" where
  "has_child i k cs \<longleftrightarrow> cs \<noteq> [] \<and> (i > 0 \<longrightarrow> (\<exists>c \<in> set cs. pid (the (procs k c)) = word_of_int i))"

lemma person_core: "map_option person x = map_option person y \<Longrightarrow> map_option core x = map_option core y"
  by (cases x; cases y) (auto simp: core_def dest: person_fields)

lemma waitpid_reaps:
  assumes f: "family k a cs" and p: "procs k a = Some p" and z: "find (exited i k p) cs = Some b" and c: "procs k b = Some c"
    and len: "length (process_table k) = MAX_PROCESSES"
  shows "\<exists>k'. waitpid_round i options a k = Some (Ret (sint (pid c)) (Some (exit_code c)), k') \<and> family k' a (remove1 b cs) \<and>
    procs k' b = None \<and> process_find (pid c) k' = None \<and> (\<forall>j. j \<noteq> pid c \<longrightarrow> process_find j k' = process_find j k) \<and>
    (\<forall>x. x \<noteq> b \<longrightarrow> map_option core (procs k' x) = map_option core (procs k x))"
proof -
  have s: "seg (procs k) None (children p) cs None" using f p by (auto simp: family_def)
  from remove1_split [OF z] obtain as bs where cs: "cs = as @ b # bs" "b \<notin> set as" by auto
  have b: "exited i k p b" using z by (auto simp: find_Some_iff)
  have m: "find (\<lambda>d. pid (the (procs k d)) = word_of_int i) cs \<noteq> None" if "i > 0"
    using b that c cs(1) by (auto simp: find_None_iff exited_def wait_match_def)
  have ch: "children p \<noteq> None" using seg_head [OF s] cs(1) by auto
  obtain h where h: "unlink_child a b k = Some (k\<lparr>procs := h\<rparr>)" "family (k\<lparr>procs := h(b := None)\<rparr>) a (as @ bs)"
    "\<forall>x. map_option person (h x) = map_option person (procs k x)" "\<forall>x. x \<noteq> a \<and> x \<notin> set (as @ bs) \<longrightarrow> h x = procs k x"
    using unlink_family [of k a as b bs] f cs(1) by auto
  have dist: "b \<noteq> a" "b \<notin> set (as @ bs)" using f cs(1) by (auto simp: family_def)
  have hb: "h b = Some c" using h(4) dist c by auto
  let ?k = "k\<lparr>process_table := process_table (snd (process_unregister (pid c) k)), procs := h(b := None)\<rparr>"
  have "process_destroy b (k\<lparr>procs := h\<rparr>) = Some ?k"
    using hb by (simp add: process_destroy_def process_unregister_def)
  then have "waitpid_round i options a k = Some (Ret (sint (pid c)) (Some (exit_code c)), ?k)"
    using p ch m c h(1) find_child_seg [OF s] z unfolding waitpid_round_def exited_def by auto
  moreover have "family ?k a (remove1 b cs)" using h(2) cs by (simp add: family_def remove1_append)
  moreover have "process_find j ?k = (if j = pid c then None else process_find j k)" for j
    using len by (auto simp: process_find_def process_unregister_def nth_list_update word_unat_eq_iff)
  ultimately show ?thesis using h(3) by (auto intro!: person_core)
qed

lemma waitpid_none:
  assumes f: "family k a cs" and p: "procs k a = Some p" and z: "find (exited i k p) cs = None"
  shows "waitpid_round i options a k =
    Some (if \<not> has_child i k cs then Ret (- ECHILD) None else if options AND 1 \<noteq> 0 then Ret 0 None else Asleep, k)"
proof -
  have s: "seg (procs k) None (children p) cs None" using f p by (auto simp: family_def)
  have ch: "children p = None \<longleftrightarrow> cs = []" using seg_head [OF s] by auto
  have "find (\<lambda>d. pid (the (procs k d)) = word_of_int i) cs = None \<longleftrightarrow> (\<forall>d \<in> set cs. pid (the (procs k d)) \<noteq> word_of_int i)"
    by (auto simp: find_None_iff)
  then show ?thesis
    using p ch find_child_seg [OF s] z unfolding waitpid_round_def exited_def has_child_def by auto
qed

section \<open>Links\<close>

text \<open>The lists of children depend on the links alone.\<close>

definition links :: "process \<Rightarrow> nat option \<times> nat option \<times> nat option" where
  "links p = (sibling_next p, sibling_prev p, children p)"

lemma links_seg:
  assumes "\<And>x. x \<in> set as \<Longrightarrow> map_option links (h' x) = map_option links (h x)" "seg h prv p as q"
  shows "seg h' prv p as q"
  using assms
proof (induction as arbitrary: prv p)
  case (Cons a as)
  then obtain c where c: "p = Some a" "h a = Some c" "sibling_prev c = prv" "seg h (Some a) (sibling_next c) as q" by auto
  obtain c' where c': "h' a = Some c'" "links c' = links c" using Cons.prems(1) [of a] c(2) by auto
  have "seg h' (Some a) (sibling_next c) as q" using Cons.IH [OF _ c(4)] Cons.prems(1) by simp
  then show ?case using c c' by (simp add: links_def)
qed simp

lemma links_family:
  assumes r: "\<forall>x. map_option links (procs k' x) = map_option links (procs k x)" and f: "family k a cs"
  shows "family k' a cs"
proof -
  obtain p where p: "procs k a = Some p" "seg (procs k) None (children p) cs None" using f by (auto simp: family_def)
  obtain p' where p': "procs k' a = Some p'" "links p' = links p" using r p(1) by (metis map_option_eq_Some)
  have "seg (procs k') None (children p) cs None" by (rule links_seg [OF _ p(2)]) (simp add: r)
  then show ?thesis using f p' by (auto simp: family_def links_def)
qed

lemma rigid_links: "map_option rigid x = map_option rigid y \<Longrightarrow> map_option links x = map_option links y"
  by (cases x; cases y) (auto simp: links_def dest: rigid_fields)

section \<open>The orphans of an exiting process\<close>

text \<open>The process \<^verbatim>\<open>a\<close> with the children \<^verbatim>\<open>cs\<close> is one of the children \<^verbatim>\<open>ds\<close> of \<^verbatim>\<open>q\<close>. If process 1 is to inherit the
  children, it is \<^verbatim>\<open>q\<close> itself or a process outside these two lists.\<close>

definition orphans_ok :: "kernel \<Rightarrow> nat \<Rightarrow> nat list \<Rightarrow> nat \<Rightarrow> nat list \<Rightarrow> bool" where
  "orphans_ok k a cs q ds \<longleftrightarrow> family k a cs \<and> family k q ds \<and> a \<in> set ds \<and> set cs \<inter> set (q # ds) = {} \<and>
    (\<forall>i. process_find 1 k = Some i \<and> cs \<noteq> [] \<and> i \<noteq> q \<longrightarrow> (\<exists>es. family k i es \<and> set (i # es) \<inter> set (q # cs @ ds) = {}))"

text \<open>The children of \<^verbatim>\<open>q\<close> afterwards.\<close>

definition heirs :: "kernel \<Rightarrow> nat list \<Rightarrow> nat \<Rightarrow> nat list \<Rightarrow> nat list" where
  "heirs k cs q ds = (if process_find 1 k = Some q then rev cs @ ds else ds)"

lemma children_family:
  assumes "family k q ds" "a \<noteq> q" "procs k a = Some p"
    "\<forall>x \<in> set (q # ds). h x = ((procs k)(a \<mapsto> p\<lparr>children := None\<rparr>)) x"
  shows "family (k\<lparr>procs := h\<rparr>) q ds"
proof -
  obtain pq where pq: "procs k q = Some pq" "seg (procs k) None (children pq) ds None" using assms(1) by (auto simp: family_def)
  have "seg h None (children pq) ds None = seg ((procs k)(a \<mapsto> p\<lparr>children := None\<rparr>)) None (children pq) ds None"
    using assms(4) by (intro seg_cong) auto
  then show ?thesis using pq assms by (auto simp: family_def)
qed

lemma reparent_nothing:
  assumes "procs k a = Some p" "children p = None \<or> process_find 1 k = None"
  shows "reparent_children a k = Some (k\<lparr>procs := (procs k)(a \<mapsto> p\<lparr>children := None\<rparr>)\<rparr>)"
proof (cases "children p = None")
  case True
  then have "p\<lparr>children := None\<rparr> = p" by simp
  then have "(procs k)(a \<mapsto> p\<lparr>children := None\<rparr>) = procs k" using assms(1) by (simp add: map_upd_triv)
  then show ?thesis using assms(1) True by (simp add: reparent_children_def)
next
  case False
  then show ?thesis using assms by (auto simp: reparent_children_def upd_proc_def)
qed

lemma reparent_orphans:
  assumes o: "orphans_ok k a cs q ds" and p: "procs k a = Some p"
  shows "\<exists>h pa. reparent_children a k = Some (k\<lparr>procs := h\<rparr>) \<and> h a = Some pa \<and> person pa = person p \<and>
    family (k\<lparr>procs := h\<rparr>) q (heirs k cs q ds) \<and> (\<forall>x. map_option core (h x) = map_option core (procs k x))"
proof -
  note o' = o [unfolded orphans_ok_def]
  have d: "a \<noteq> q" "distinct (q # ds)" "distinct (a # cs)" "a \<notin> set cs" using o' by (auto simp: family_def)
  have ch: "children p = head_or cs None" using o' p by (auto simp: family_def dest: seg_head)
  show ?thesis
  proof (cases "cs = [] \<or> process_find 1 k = None")
    case True
    then have "heirs k cs q ds = ds" by (auto simp: heirs_def)
    moreover have "reparent_children a k = Some (k\<lparr>procs := (procs k)(a \<mapsto> p\<lparr>children := None\<rparr>)\<rparr>)"
      using True ch p by (intro reparent_nothing) auto
    moreover have "family (k\<lparr>procs := (procs k)(a \<mapsto> p\<lparr>children := None\<rparr>)\<rparr>) q ds"
      using o' d(1) p by (intro children_family) auto
    ultimately show ?thesis using p by (intro exI [of _ "(procs k)(a \<mapsto> p\<lparr>children := None\<rparr>)"] exI [of _ "p\<lparr>children := None\<rparr>"]) auto
  next
    case False
    then obtain i where i: "process_find 1 k = Some i" by auto
    obtain es where es: "family k i es" "i = q \<and> es = ds \<or> i \<noteq> q \<and> set (i # es) \<inter> set (q # cs @ ds) = {}"
      using o' i False by (cases "i = q") auto
    obtain pi where pi: "procs k i = Some pi" using es(1) by (auto simp: family_def)
    have dist: "distinct (i # cs @ es)" "a \<notin> set (i # cs)" using es d o' by (auto simp: family_def)
    obtain h where h: "reparent_children a k = Some (k\<lparr>procs := h\<rparr>)" "family (k\<lparr>procs := h\<rparr>) i (rev cs @ es)"
      "\<forall>x. x \<notin> set (a # i # cs @ es) \<longrightarrow> h x = procs k x" "\<forall>x. map_option core (h x) = map_option core (procs k x)"
      "\<forall>x. x \<notin> set cs \<longrightarrow> map_option person (h x) = map_option person (procs k x)"
      "a \<notin> set es \<longrightarrow> h a = map_option (children_update (\<lambda>_. None)) (procs k a)"
      using reparent_children_family [of k a cs i es pi] o' i es(1) pi dist by blast
    have "map_option person (h a) = map_option person (procs k a)" using h(5) d(4) by blast
    then obtain pa where "h a = Some pa" "person pa = person p" using p by auto
    moreover have "family (k\<lparr>procs := h\<rparr>) q (heirs k cs q ds)"
    proof (cases "i = q")
      case True
      then show ?thesis using h(2) es(2) i by (auto simp: heirs_def)
    next
      case False
      then have ha: "a \<notin> set es" using es(2) o' by auto
      have "\<forall>x \<in> set (q # ds). h x = ((procs k)(a \<mapsto> p\<lparr>children := None\<rparr>)) x"
        using h(3,6) ha p es(2) False o' by auto
      then show ?thesis using children_family [of k q ds a p h] o' d(1) p i False by (simp add: heirs_def)
    qed
    ultimately show ?thesis using h(1,4) by blast
  qed
qed

section \<open>Exit\<close>

text \<open>The process, running and not queued, with a parent, on a kernel with an idle process.\<close>

definition may_exit :: "node_alloc \<Rightarrow> (nat \<times> u64) list \<Rightarrow> nat \<Rightarrow> process \<Rightarrow> nat \<Rightarrow> kernel \<Rightarrow> bool" where
  "may_exit kz Q a p q k \<longleftrightarrow> alloc_ok kz \<and> balanced_queue k Q \<and> sleepers_ok k \<and> sched_enabled (sched k) \<and>
    current k = Some a \<and> procs k a = Some p \<and> a \<notin> queued Q \<and> unat (pid p) < MAX_PROCESSES \<and>
    sched_nodes (sched k) ! unat (pid p) = None \<and> p_parent p = Some q \<and>
    process_find 0 k \<noteq> None \<and> process_find 0 k \<noteq> Some a"

lemma core_Some: "map_option core x = map_option core (Some p) \<Longrightarrow> \<exists>p'. x = Some p' \<and> pid p' = pid p \<and> state p' = state p \<and> wait_channel p' = wait_channel p"
  by (auto simp: core_def)

lemma may_exit_cong:
  assumes m: "may_exit kz Q a p q k" and k': "sched k' = sched k" "process_table k' = process_table k" "current k' = current k"
    and e: "procs k' a = Some e" "pid e = pid p" "p_parent e = p_parent p" "state e = PROCESS_STATE_ZOMBIE"
    and c: "\<forall>x. x \<noteq> a \<longrightarrow> map_option core (procs k' x) = map_option core (procs k x)"
  shows "may_exit kz Q a e q k'"
proof -
  note m' = m [unfolded may_exit_def]
  have same: "\<exists>p'. procs k' x = Some p' \<and> pid p' = pid px \<and> (x \<noteq> a \<longrightarrow> state p' = state px)" if "procs k x = Some px" for x px
    using that c e(1,2) m' core_Some [of "procs k' x" px] by (cases "x = a") auto
  have "balanced_queue k Q" using m' by blast
  from balanced_queue_cong [OF this k'(1)] have "balanced_queue k' Q" using same by blast
  moreover have "sleepers_ok k'"
  proof -
    have s: "sleepers_ok k" using m' by blast
    have "\<exists>p'. procs k' x = Some p' \<and> unat (pid p') = i \<and> (state p' = PROCESS_STATE_SLEEPING \<longrightarrow> sched_nodes (sched k) ! i = None)"
      if x: "i < MAX_PROCESSES" "process_table k ! i = Some x" for i x
    proof (rule sleepers_okD [OF s x])
      fix px
      assume px: "procs k x = Some px" "unat (pid px) = i" "state px = PROCESS_STATE_SLEEPING \<longrightarrow> sched_nodes (sched k) ! i = None"
      then show ?thesis using same [OF px(1)] e(1,4) by (cases "x = a") auto
    qed
    then show ?thesis using s k' by (simp add: sleepers_ok_def)
  qed
  ultimately show ?thesis using m' k' e by (simp add: may_exit_def process_find_def)
qed

text \<open>What follows the marking as a zombie: the removal from the queue, which has no effect, the wakeup and the
  switch.\<close>

lemma exit_switch:
  assumes m: "may_exit kz Q a e q k" and e: "state e = PROCESS_STATE_ZOMBIE"
  shows "scheduler_remove_process a k = Some k \<and> (\<exists>k2 b k' p'. wakeup kz (Some q) k = Some k2 \<and> schedule kz k2 = Some (b, k') \<and>
    procs k' a = Some p' \<and> state p' = PROCESS_STATE_ZOMBIE \<and> process_table k' = process_table k \<and>
    (\<forall>x. map_option rigid (procs k' x) = map_option rigid (procs k x)) \<and>
    (\<forall>i < MAX_PROCESSES. \<forall>x. asleep_at k (Some q) i x \<longrightarrow>
      map_option state (procs k' x) \<in> {Some PROCESS_STATE_READY, Some PROCESS_STATE_RUNNING}))"
proof -
  note m' = m [unfolded may_exit_def]
  have rm: "scheduler_remove_process a k = Some k"
    using m' by (simp add: scheduler_remove_process_def rbtree_remove.simps [of a] remove_step_def get_sched_node_def)
  obtain k2 q2 where 2: "wakeup kz (Some q) k = Some k2" "balanced_queue k2 q2" "sleepers_ok k2" "woke k k2"
    "\<forall>a \<in> queued q2. a \<in> queued Q \<or> (\<exists>p. procs k a = Some p \<and> state p = PROCESS_STATE_SLEEPING)"
    "\<forall>i < MAX_PROCESSES. \<forall>a. asleep_at k (Some q) i a \<longrightarrow> map_option state (procs k2 a) = Some PROCESS_STATE_READY"
    using wakeup_from_queue [of k Q kz "[0..<MAX_PROCESSES]" "Some q"] m' by (auto simp: wakeup_def)
  obtain p2 where p2: "procs k2 a = Some p2" "state p2 = PROCESS_STATE_ZOMBIE"
    using woke_state [OF 2(4), of a e] m' e by auto
  have aq: "a \<notin> queued q2" using 2(5) m' e by fastforce
  have w: "process_table k2 = process_table k" "current k2 = Some a" "sched_enabled (sched k2)"
    "\<forall>x. map_option rigid (procs k2 x) = map_option rigid (procs k x)" using 2(4) m' by (simp_all add: woke_def)
  obtain z where z: "process_find 0 k = Some z" "z \<noteq> a" using m' by auto
  have pf: "process_find 0 k2 = Some z" using z(1) w(1) by (simp add: process_find_def)
  have "\<exists>pz. procs k2 z = Some pz" using sleepers_okD [OF 2(3), of 0 z] pf by (auto simp: process_find_def)
  then obtain pz where pz: "procs k2 z = Some pz" by blast
  obtain b k' where k': "schedule kz k2 = Some (b, k')" "process_table k' = process_table k2"
    "\<forall>x. map_option rigid (procs k' x) = map_option rigid (procs k2 x)"
    "\<forall>x. map_option state (procs k' x) = map_option state (procs k2 x) \<or> (Some x = b \<and> map_option state (procs k' x) = Some PROCESS_STATE_RUNNING)"
    "map_option state (procs k' a) = Some PROCESS_STATE_ZOMBIE"
    using schedule_zombie [OF 2(2) w(2) p2(1,2) aq w(3) pf z(2) pz, of kz] by blast
  moreover obtain p' where "procs k' a = Some p'" "state p' = PROCESS_STATE_ZOMBIE" using k'(5) by auto
  moreover have "map_option state (procs k' x) \<in> {Some PROCESS_STATE_READY, Some PROCESS_STATE_RUNNING}"
    if x: "i < MAX_PROCESSES" "asleep_at k (Some q) i x" for i x
  proof -
    have "map_option state (procs k2 x) = Some PROCESS_STATE_READY" using 2(6) x by blast
    then show ?thesis using k'(4) [rule_format, of x] by auto
  qed
  moreover have "\<forall>x. map_option rigid (procs k' x) = map_option rigid (procs k x)" using k'(3) w(4) by simp
  moreover have "process_table k' = process_table k" using w(1) k'(2) by simp
  ultimately show ?thesis using rm 2(1) by blast
qed

lemma do_exit_zombie:
  assumes m: "may_exit kz Q a p q k" and o: "orphans_ok k a cs q ds"
  shows "\<exists>b k' p'. do_exit kz st k = Some (b, k') \<and> procs k' a = Some p' \<and> state p' = PROCESS_STATE_ZOMBIE \<and>
    pid p' = pid p \<and> exit_code p' = exit_status st \<and> family k' q (heirs k cs q ds) \<and> process_table k' = process_table k \<and>
    (\<forall>x. x \<noteq> a \<longrightarrow> map_option pid (procs k' x) = map_option pid (procs k x)) \<and>
    (\<forall>i < MAX_PROCESSES. \<forall>x. x \<noteq> a \<and> asleep_at k (Some q) i x \<longrightarrow>
      map_option state (procs k' x) \<in> {Some PROCESS_STATE_READY, Some PROCESS_STATE_RUNNING})"
proof -
  note m' = m [unfolded may_exit_def]
  let ?p = "p\<lparr>fd_table := map (\<lambda>_. None) (fd_table p)\<rparr>"
  let ?k = "k\<lparr>procs := (procs k)(a \<mapsto> ?p)\<rparr>"
  have pa: "procs k a = Some p" using m' by blast
  have "\<forall>x. map_option links (procs ?k x) = map_option links (procs k x)" using pa by (simp add: links_def)
  from links_family [OF this] have "orphans_ok ?k a cs q ds" using o unfolding orphans_ok_def by (simp, blast)
  from reparent_orphans [OF this, of ?p] obtain h e where h: "reparent_children a ?k = Some (k\<lparr>procs := h\<rparr>)" "h a = Some e"
    "person e = person ?p" "family (k\<lparr>procs := h\<rparr>) q (heirs k cs q ds)" "\<forall>x. map_option core (h x) = map_option core (procs ?k x)"
    by (auto simp: heirs_def)
  let ?e = "e\<lparr>state := PROCESS_STATE_ZOMBIE, exit_code := exit_status st\<rparr>"
  let ?K = "k\<lparr>procs := h(a \<mapsto> ?e)\<rparr>"
  have pe: "pid e = pid p" "p_parent e = Some q" using person_fields [OF h(3)] m' by simp_all
  have c: "\<forall>x. x \<noteq> a \<longrightarrow> map_option core (procs ?K x) = map_option core (procs k x)" using h(5) by simp
  have mK: "may_exit kz Q a ?e q ?K" by (rule may_exit_cong [OF m]) (use pe m' c in auto)
  obtain k2 b k' p' where k': "scheduler_remove_process a ?K = Some ?K" "wakeup kz (Some q) ?K = Some k2" "schedule kz k2 = Some (b, k')"
    "procs k' a = Some p'" "state p' = PROCESS_STATE_ZOMBIE" "process_table k' = process_table k"
    and r: "\<forall>x. map_option rigid (procs k' x) = map_option rigid (procs ?K x)"
    and w: "\<forall>i < MAX_PROCESSES. \<forall>x. asleep_at ?K (Some q) i x \<longrightarrow>
      map_option state (procs k' x) \<in> {Some PROCESS_STATE_READY, Some PROCESS_STATE_RUNNING}"
    using exit_switch [OF mK] by auto
  have "do_exit kz st k = Some (b, k')" using m' h(1,2) k'(1-3) pe(2) by (simp add: do_exit_def upd_proc_def)
  moreover have "family k' q (heirs k cs q ds)"
  proof -
    have "\<forall>x. map_option links (procs k' x) = map_option links (procs (k\<lparr>procs := h\<rparr>) x)"
    proof
      fix x
      have "map_option links (procs k' x) = map_option links ((h(a \<mapsto> ?e)) x)" using rigid_links [OF r [rule_format, of x]] by simp
      then show "map_option links (procs k' x) = map_option links (procs (k\<lparr>procs := h\<rparr>) x)" using h(2) by (simp add: links_def)
    qed
    from links_family [OF this h(4)] show ?thesis .
  qed
  moreover have "pid p' = pid p" "exit_code p' = exit_status st"
    using r [rule_format, of a] k'(4) pe(1) rigid_fields [of p' ?e] by auto
  moreover have "map_option pid (procs k' x) = map_option pid (procs k x)" if "x \<noteq> a" for x
  proof -
    have "map_option pid (procs k' x) = map_option pid (procs ?K x)"
      using r [rule_format, of x] by (cases "procs k' x"; cases "procs ?K x") (auto dest: rigid_fields(1))
    also have "\<dots> = map_option pid (procs k x)"
      using c [rule_format, OF that] by (cases "procs ?K x"; cases "procs k x") (auto simp: core_def)
    finally show ?thesis .
  qed
  moreover have "asleep_at ?K (Some q) i x" if x: "x \<noteq> a" "asleep_at k (Some q) i x" for i x
    using x c [rule_format, OF x(1)] core_Some [of "procs ?K x"] by (fastforce simp: asleep_at_def)
  ultimately show ?thesis using k'(4-6) w by blast
qed

section \<open>A family\<close>

text \<open>A parent that sleeps until a child exits, its two children, of which the first runs, and the idle process.\<close>

definition member :: "u32 \<Rightarrow> process_state \<Rightarrow> process" where
  "member i st = blank_process\<lparr>pid := i, pgid := 2, weight := 1024, state := st\<rparr>"

abbreviation idle_addr :: nat where "idle_addr \<equiv> 0xFFFF800000000000"
abbreviation parent_addr :: nat where "parent_addr \<equiv> 0xFFFF800000001000"
abbreviation first_addr :: nat where "first_addr \<equiv> 0xFFFF800000002000"
abbreviation second_addr :: nat where "second_addr \<equiv> 0xFFFF800000003000"

definition household :: kernel where
  "household = \<lparr>procs = [idle_addr \<mapsto> member 0 PROCESS_STATE_READY,
       parent_addr \<mapsto> (member 2 PROCESS_STATE_SLEEPING)\<lparr>wait_channel := Some parent_addr, children := Some first_addr\<rparr>,
       first_addr \<mapsto> (member 3 PROCESS_STATE_RUNNING)\<lparr>p_parent := Some parent_addr, sibling_next := Some second_addr\<rparr>,
       second_addr \<mapsto> (member 4 PROCESS_STATE_READY)\<lparr>p_parent := Some parent_addr, sibling_prev := Some first_addr\<rparr>],
     process_table = (replicate MAX_PROCESSES None)[0 := Some idle_addr, 2 := Some parent_addr, 3 := Some first_addr, 4 := Some second_addr],
     current = Some first_addr, next_pid = 5,
     sched = \<lparr>nodes = Map.empty, root = None, leftmost = None, min_vruntime = 0, clock_ticks = 0,
       sched_nodes = replicate MAX_PROCESSES None, sched_enabled = True\<rparr>\<rparr>"

definition above :: node_alloc where
  "above h = Some (Suc (Max (insert 0 (dom h))))"

lemma above_ok: "alloc_ok above"
proof -
  have "h (Suc (Max (insert 0 (dom h)))) = None" if fin: "finite (dom h)" for h :: "nat \<rightharpoonup> rb_node"
  proof -
    define x where "x = Suc (Max (insert 0 (dom h)))"
    have "x \<le> Max (insert 0 (dom h))" if "x \<in> dom h" using fin that by (intro Max_ge) auto
    then have "x \<notin> dom h" by (auto simp: x_def)
    then show ?thesis by (simp add: x_def domIff)
  qed
  then show ?thesis by (auto simp: alloc_ok_def above_def)
qed

lemma household_family: "family household parent_addr [first_addr, second_addr]"
  by (simp add: family_def household_def member_def blank_process_def)

lemma household_queue: "balanced_queue household []"
  unfolding balanced_queue_def
  by (intro exI [of _ Leaf]) (simp add: queue_tree_def zip_at_def nodes_ok_def contents_def rbt_def household_def)

lemma household_sleepers: "sleepers_ok household"
proof -
  have "\<exists>p. procs household a = Some p \<and> unat (pid p) = i \<and> (state p = PROCESS_STATE_SLEEPING \<longrightarrow> sched_nodes (sched household) ! i = None)"
    if "i < MAX_PROCESSES" "process_table household ! i = Some a" for i a
    using that by (auto simp: household_def member_def nth_list_update split: if_splits)
  then show ?thesis by (simp add: sleepers_ok_def household_def)
qed

lemma household_first: "procs household first_addr = Some ((member 3 PROCESS_STATE_RUNNING)\<lparr>p_parent := Some parent_addr, sibling_next := Some second_addr\<rparr>)"
  by (simp add: household_def)

lemma household_may_exit:
  "may_exit above [] first_addr ((member 3 PROCESS_STATE_RUNNING)\<lparr>p_parent := Some parent_addr, sibling_next := Some second_addr\<rparr>) parent_addr household"
  using above_ok household_queue household_sleepers household_first
  by (simp add: may_exit_def) (simp add: household_def member_def process_find_def)

lemma household_orphans: "orphans_ok household first_addr [] parent_addr [first_addr, second_addr]"
  using household_family by (simp add: orphans_ok_def) (simp add: family_def household_def member_def blank_process_def)

section \<open>Correctness\<close>

lemma waitpid_loop_ret:
  "waitpid_round i options a k = Some (Ret v st, k') \<Longrightarrow> waitpid_loop kz i options a fs k = Some (Ret v st, k')"
  by (cases fs) auto

text \<open>C9. \<^verbatim>\<open>do_waitpid\<close> called by a process with a given list of children. When a child the id means is a
  zombie, the first such child is reaped: its id and exit code are returned, it leaves the list, the table and the
  memory, the other children stay in their order, and every other process keeps its identity, state and exit code.
  When no such child exists the call changes nothing: it returns \<^verbatim>\<open>-ECHILD\<close> if there is no child at all or none with
  the positive id asked for, 0 if it was asked not to wait, and otherwise the caller goes to sleep.\<close>

theorem do_waitpid_correct:
  assumes "current k = Some a" "a \<ge> 0xFFFF800000000000" "procs k a = Some p" "family k a cs"
    "length (process_table k) = MAX_PROCESSES"
  shows "case find (exited i k p) cs of
    Some b \<Rightarrow> \<exists>c k'. procs k b = Some c \<and> do_waitpid kz i options fs k = Some (Ret (sint (pid c)) (Some (exit_code c)), k') \<and>
      family k' a (remove1 b cs) \<and> procs k' b = None \<and> process_find (pid c) k' = None \<and>
      (\<forall>j. j \<noteq> pid c \<longrightarrow> process_find j k' = process_find j k) \<and>
      (\<forall>x. x \<noteq> b \<longrightarrow> map_option core (procs k' x) = map_option core (procs k x))
  | None \<Rightarrow>
      if \<not> has_child i k cs then do_waitpid kz i options fs k = Some (Ret (- ECHILD) None, k)
      else if options AND 1 \<noteq> 0 then do_waitpid kz i options fs k = Some (Ret 0 None, k)
      else do_waitpid kz i options [] k = map_option (\<lambda>(b, k'). (Asleep, k')) (sleep_on kz (Some a) k)"
proof (cases "find (exited i k p) cs")
  case None
  have d: "do_waitpid kz i options fs k = waitpid_loop kz i options a fs k" for fs using assms(1,2) by (simp add: do_waitpid_def)
  show ?thesis
  proof (cases "has_child i k cs \<and> options AND 1 = 0")
    case True
    then have "waitpid_round i options a k = Some (Asleep, k)" using waitpid_none [OF assms(4,3) None, of options] by simp
    moreover have "Option.bind x (\<lambda>(b, k'). Some (Asleep, k')) = map_option (\<lambda>(b, k'). (Asleep, k')) x" for x :: "(nat option \<times> kernel) option"
      by (cases x) auto
    ultimately show ?thesis using None True by (simp add: d)
  next
    case False
    then show ?thesis using None waitpid_none [OF assms(4,3) None, of options] waitpid_loop_ret by (auto simp: d)
  qed
next
  case (Some b)
  then have "b \<in> set cs" by (auto simp: find_Some_iff)
  then obtain c where c: "procs k b = Some c" using assms(4) seg_dom by (fastforce simp: family_def)
  then show ?thesis using waitpid_reaps [OF assms(4,3) Some c assms(5), of options] waitpid_loop_ret [of i options a k _ _ _ kz fs] Some assms(1,2)
    by (fastforce simp: do_waitpid_def)
qed

theorem do_waitpid_correct_witness:
  "do_waitpid above 7 0 [] (household\<lparr>current := Some parent_addr\<rparr>) = Some (Ret (- ECHILD) None, household\<lparr>current := Some parent_addr\<rparr>)"
proof -
  let ?k = "household\<lparr>current := Some parent_addr\<rparr>"
  let ?p = "(member 2 PROCESS_STATE_SLEEPING)\<lparr>wait_channel := Some parent_addr, children := Some first_addr\<rparr>"
  have "family ?k parent_addr [first_addr, second_addr]" using household_family by (simp add: family_def)
  moreover have "find (exited 7 ?k ?p) [first_addr, second_addr] = None" "\<not> has_child 7 ?k [first_addr, second_addr]"
    by (simp_all add: exited_def has_child_def household_def member_def)
  moreover have "procs ?k parent_addr = Some ?p" "length (process_table ?k) = MAX_PROCESSES" by (simp_all add: household_def)
  ultimately show ?thesis using do_waitpid_correct [of ?k parent_addr ?p "[first_addr, second_addr]" 7 above 0 "[]"] by simp
qed

lemma small_pid: "unat i < MAX_PROCESSES \<Longrightarrow> sint (i :: u32) = uint i"
proof -
  assume a: "unat i < MAX_PROCESSES"
  have "uint i = int (unat i)" by simp
  then have "uint i < 256" using a by linarith
  then have "signed_take_bit 31 (uint i) = uint i" by (intro signed_take_bit_int_eq_self) (auto intro: order_trans [of _ 0])
  then show ?thesis by (simp add: sint_uint)
qed

lemma pos_pid: "i \<noteq> 0 \<Longrightarrow> uint (i :: u32) > 0"
  by (metis order_le_less uint_0_iff unsigned_greater_eq)

lemma wait_for_one:
  assumes f: "family k q ds" "a \<in> set ds" "procs k q = Some p" and c: "procs k a = Some c" "state c = PROCESS_STATE_ZOMBIE"
    and u: "\<forall>d \<in> set ds. d \<noteq> a \<longrightarrow> map_option pid (procs k d) \<noteq> Some (pid c)" and i: "uint (pid c) > 0"
  shows "find (exited (uint (pid c)) k p) ds = Some a"
proof -
  have "exited (uint (pid c)) k p d \<longleftrightarrow> d = a" if d: "d \<in> set ds" for d
  proof -
    obtain pd where "procs k d = Some pd" using f(1) seg_dom d by (fastforce simp: family_def)
    then show ?thesis using d u c i by (auto simp: exited_def wait_match_def)
  qed
  then have "find (exited (uint (pid c)) k p) ds = find (\<lambda>d. d = a) ds" by (intro find_cong) auto
  also have "\<dots> = Some a" using f(2) by (induction ds) auto
  finally show ?thesis .
qed

text \<open>C5. Exit and wait fit together. A running process with a parent calls \<^verbatim>\<open>do_exit\<close>, on a kernel whose run queue
  is a red-black tree, whose sleeping processes are not queued, where allocations of queue nodes succeed, and whose
  process 1, if it exists and has children to inherit, is the parent or unrelated to the two lists of children. The call
  reaches the switch to another process. The caller is a zombie then, and every process that slept on the parent's
  channel is ready or runs: no wakeup is lost. When the parent runs and waits for the process by its id, it gets that id
  and the encoded exit status, and afterwards the process is gone from the table, from memory and from the list of
  children, which has the orphans in front if the parent is process 1.\<close>

theorem exit_then_wait:
  assumes m: "may_exit kz Q a p q k" and o: "orphans_ok k a cs q ds" and q: "q \<ge> 0xFFFF800000000000" and i: "pid p \<noteq> 0"
    and u: "\<forall>d \<in> set (cs @ ds). d \<noteq> a \<longrightarrow> map_option pid (procs k d) \<noteq> Some (pid p)"
  shows "\<exists>b k'. do_exit kz st k = Some (b, k') \<and> map_option state (procs k' a) = Some PROCESS_STATE_ZOMBIE \<and>
    (\<forall>i < MAX_PROCESSES. \<forall>x. x \<noteq> a \<and> asleep_at k (Some q) i x \<longrightarrow>
      map_option state (procs k' x) \<in> {Some PROCESS_STATE_READY, Some PROCESS_STATE_RUNNING}) \<and>
    (\<exists>k''. do_waitpid kz' (uint (pid p)) options fs (k'\<lparr>current := Some q\<rparr>) = Some (Ret (uint (pid p)) (Some (exit_status st)), k'') \<and>
      family k'' q (remove1 a (heirs k cs q ds)) \<and> procs k'' a = None \<and> process_find (pid p) k'' = None)"
proof -
  let ?ds = "heirs k cs q ds"
  have a: "a \<in> set ?ds" "set ?ds \<subseteq> set (cs @ ds)" using o by (auto simp: orphans_ok_def heirs_def)
  obtain b k' p' where k': "do_exit kz st k = Some (b, k')" "procs k' a = Some p'" "state p' = PROCESS_STATE_ZOMBIE"
    "pid p' = pid p" "exit_code p' = exit_status st" "family k' q ?ds" "process_table k' = process_table k"
    "\<forall>x. x \<noteq> a \<longrightarrow> map_option pid (procs k' x) = map_option pid (procs k x)"
    "\<forall>i < MAX_PROCESSES. \<forall>x. x \<noteq> a \<and> asleep_at k (Some q) i x \<longrightarrow>
      map_option state (procs k' x) \<in> {Some PROCESS_STATE_READY, Some PROCESS_STATE_RUNNING}"
    using do_exit_zombie [OF m o, of st] by blast
  let ?k = "k'\<lparr>current := Some q\<rparr>"
  have small: "unat (pid p) < MAX_PROCESSES" "length (process_table ?k) = MAX_PROCESSES"
    using m k'(7) by (simp_all add: may_exit_def sleepers_ok_def)
  have s: "sint (pid p) = uint (pid p)" by (rule small_pid [OF small(1)])
  obtain pq where pq: "procs ?k q = Some pq" and f': "family ?k q ?ds" using k'(6) by (auto simp: family_def)
  have u': "\<forall>d \<in> set ?ds. d \<noteq> a \<longrightarrow> map_option pid (procs ?k d) \<noteq> Some (pid p')" using u a(2) k'(4,8) by auto
  have "find (exited (uint (pid p)) ?k pq) ?ds = Some a"
    using wait_for_one [OF f' a(1) pq _ k'(3) u'] k'(2,4) pos_pid [OF i] by simp
  then obtain k'' where k'': "waitpid_round (uint (pid p)) options q ?k = Some (Ret (uint (pid p)) (Some (exit_status st)), k'')"
    "family k'' q (remove1 a ?ds)" "procs k'' a = None" "process_find (pid p) k'' = None"
    using waitpid_reaps [OF f' pq, of "uint (pid p)" a p' options] small(2) k'(2,4,5) s by auto
  then have "do_waitpid kz' (uint (pid p)) options fs ?k = Some (Ret (uint (pid p)) (Some (exit_status st)), k'')"
    using waitpid_loop_ret [OF k''(1), of kz' fs] q by (simp add: do_waitpid_def)
  then show ?thesis using k'(1,2,3,9) k''(2-4) by (intro exI [of _ b] exI [of _ k']) auto
qed

theorem exit_then_wait_witness:
  "\<exists>b k' k''. do_exit above 3 household = Some (b, k') \<and> map_option state (procs k' first_addr) = Some PROCESS_STATE_ZOMBIE \<and>
     map_option state (procs k' parent_addr) \<in> {Some PROCESS_STATE_READY, Some PROCESS_STATE_RUNNING} \<and>
     do_waitpid above 3 0 [] (k'\<lparr>current := Some parent_addr\<rparr>) = Some (Ret 3 (Some 0x300), k'') \<and> family k'' parent_addr [second_addr]"
proof -
  let ?p = "(member 3 PROCESS_STATE_RUNNING)\<lparr>p_parent := Some parent_addr, sibling_next := Some second_addr\<rparr>"
  have z: "asleep_at household (Some parent_addr) 2 parent_addr" by (simp add: asleep_at_def household_def member_def)
  have u: "\<forall>d \<in> set ([] @ [first_addr, second_addr]). d \<noteq> first_addr \<longrightarrow> map_option pid (procs household d) \<noteq> Some (pid ?p)"
    by (simp add: household_def member_def)
  have e: "exit_status 3 = 0x300" "uint (pid ?p) = 3" "pid ?p \<noteq> 0" by (simp_all add: exit_status_def member_def)
  have hd: "heirs household [] parent_addr [first_addr, second_addr] = [first_addr, second_addr]" by (simp add: heirs_def)
  obtain b k' k'' where k': "do_exit above 3 household = Some (b, k')" "map_option state (procs k' first_addr) = Some PROCESS_STATE_ZOMBIE"
    "\<forall>i < MAX_PROCESSES. \<forall>x. x \<noteq> first_addr \<and> asleep_at household (Some parent_addr) i x \<longrightarrow>
      map_option state (procs k' x) \<in> {Some PROCESS_STATE_READY, Some PROCESS_STATE_RUNNING}"
    "do_waitpid above 3 0 [] (k'\<lparr>current := Some parent_addr\<rparr>) = Some (Ret 3 (Some 0x300), k'')"
    "family k'' parent_addr (remove1 first_addr [first_addr, second_addr])"
    using exit_then_wait [OF household_may_exit household_orphans _ e(3) u, of 3 above 0 "[]"] unfolding e hd by auto
  have "map_option state (procs k' parent_addr) \<in> {Some PROCESS_STATE_READY, Some PROCESS_STATE_RUNNING}"
    using k'(3) [rule_format, of 2 parent_addr] z by simp
  moreover have "family k'' parent_addr [second_addr]" using k'(5) by simp
  ultimately show ?thesis using k'(1,2,4) by blast
qed

text \<open>C16. The reparenting of \<^verbatim>\<open>do_exit\<close>, where process 1 exists. The children of the exiting process are put in
  front of the children of process 1, the last one first, each with process 1 as its parent and the id of that as its
  parent id. The links of the new list are right in both directions, the exiting process has no children left, and
  no process changes its id, group, state or exit code. Process 1 may be the parent of the exiting process.\<close>

theorem reparent_children_correct:
  assumes "family k a cs" "process_find 1 k = Some i" "family k i ds" "procs k i = Some q" "distinct (i # cs @ ds)" "a \<notin> set (i # cs)"
  shows "\<exists>h. reparent_children a k = Some (k\<lparr>procs := h\<rparr>) \<and> family (k\<lparr>procs := h\<rparr>) a [] \<and> family (k\<lparr>procs := h\<rparr>) i (rev cs @ ds) \<and>
    (\<forall>c \<in> set cs. \<exists>c'. h c = Some c' \<and> p_parent c' = Some i \<and> ppid c' = pid q) \<and>
    (\<forall>x. x \<notin> set (a # i # cs @ ds) \<longrightarrow> h x = procs k x) \<and> (\<forall>x. map_option core (h x) = map_option core (procs k x))"
  using reparent_children_family [OF assms] by blast

theorem reparent_children_correct_witness:
  "\<exists>h. reparent_children parent_addr (household\<lparr>process_table := (process_table household)[1 := Some idle_addr]\<rparr>) =
      Some (household\<lparr>process_table := (process_table household)[1 := Some idle_addr], procs := h\<rparr>) \<and>
    family (household\<lparr>process_table := (process_table household)[1 := Some idle_addr], procs := h\<rparr>) idle_addr [second_addr, first_addr]"
proof -
  let ?k = "household\<lparr>process_table := (process_table household)[1 := Some idle_addr]\<rparr>"
  have "family ?k parent_addr [first_addr, second_addr]" using household_family by (simp add: family_def)
  moreover have "process_find 1 ?k = Some idle_addr" by (simp add: process_find_def household_def)
  moreover have "family ?k idle_addr []" "procs ?k idle_addr = Some (member 0 PROCESS_STATE_READY)"
    by (simp_all add: family_def household_def member_def blank_process_def)
  ultimately show ?thesis
    using reparent_children_correct [of ?k parent_addr "[first_addr, second_addr]" idle_addr "[]" "member 0 PROCESS_STATE_READY"]
    by auto
qed

end
