(* ===== verification/Signal_Correct.thy ===== *)
theory Signal_Correct
  imports Proc_Life
begin

text \<open>
  The delivery of signals by \<^verbatim>\<open>check_signals\<close>: which signal is acted on, what becomes of the pending ones, and
  what the process does.
\<close>

section \<open>Signals\<close>

text \<open>The signals that may be delivered, and those of them that the process does not ignore.\<close>

definition unblocked :: "process \<Rightarrow> u64" where
  "unblocked p = pending_signals p AND NOT (blocked_signals p)"

definition acted_on :: "process \<Rightarrow> nat \<Rightarrow> bool" where
  "acted_on p sig \<longleftrightarrow> bit (unblocked p) sig \<and> signal_handlers p ! sig \<noteq> 1"

text \<open>The part of a list up to the first element with a property.\<close>

primrec up_to :: "(nat \<Rightarrow> bool) \<Rightarrow> nat list \<Rightarrow> nat list" where
  "up_to P [] = []"
| "up_to P (x # xs) = x # (if P x then [] else up_to P xs)"

lemma up_to_upt: "j \<in> set (up_to P [m..<n]) \<longleftrightarrow> m \<le> j \<and> j < n \<and> (\<forall>i. m \<le> i \<and> i < j \<longrightarrow> \<not> P i)"
proof (induction "n - m" arbitrary: m)
  case (Suc d)
  have mn: "m < n" using Suc.hyps(2) by linarith
  have IH: "j \<in> set (up_to P [Suc m..<n]) \<longleftrightarrow> Suc m \<le> j \<and> j < n \<and> (\<forall>i. Suc m \<le> i \<and> i < j \<longrightarrow> \<not> P i)"
    using Suc.hyps by (intro Suc.hyps(1)) linarith
  have "j \<in> set (up_to P [m..<n]) \<longleftrightarrow> j = m \<or> \<not> P m \<and> j \<in> set (up_to P [Suc m..<n])"
    unfolding upt_conv_Cons [OF mn] by simp
  also have "\<dots> \<longleftrightarrow> m \<le> j \<and> j < n \<and> (\<forall>i. m \<le> i \<and> i < j \<longrightarrow> \<not> P i)"
    unfolding IH using mn by (metis Suc_leD Suc_leI le_less less_irrefl not_less_eq_eq)
  finally show ?case .
qed auto

definition default_action :: "node_alloc \<Rightarrow> nat \<Rightarrow> kernel \<Rightarrow> (signal_outcome \<times> kernel) option" where
  "default_action kz sig k =
    (if sig = SIGKILL \<or> sig = SIGTERM then exit_with kz (- int sig) k
     else if sig = SIGCHLD then Some (Returned, k) else exit_with kz (128 + int sig) k)"

definition deliver :: "node_alloc \<Rightarrow> process \<Rightarrow> nat option \<Rightarrow> kernel \<Rightarrow> (signal_outcome \<times> kernel) option" where
  "deliver kz p s k =
    (case s of
       None \<Rightarrow> Some (Returned, k)
     | Some sig \<Rightarrow> if signal_handlers p ! sig = 0 then default_action kz sig k else Some (Returned, k))"

lemma deliver_upd: "deliver kz (p\<lparr>pending_signals := x\<rparr>) s k = deliver kz p s k"
  by (simp add: deliver_def split: option.splits)

lemma clear_bit: "bit (w AND NOT (push_bit s 1)) j \<longleftrightarrow> bit w j \<and> j \<noteq> s" if "s < 64" for w :: u64
  using that by (auto simp: bit_simps dest: bit_imp_le_length)

lemma check_signals_from_deliver:
  assumes "procs k a = Some p" "\<forall>s \<in> set sigs. s < 64"
  shows "\<exists>w. (\<forall>j. bit w j \<longleftrightarrow> bit (pending_signals p) j \<and> \<not> (bit u j \<and> j \<in> set (up_to (\<lambda>s. bit u s \<and> signal_handlers p ! s \<noteq> 1) sigs))) \<and>
    check_signals_from kz a u sigs k = deliver kz p (find (\<lambda>s. bit u s \<and> signal_handlers p ! s \<noteq> 1) sigs)
      (k\<lparr>procs := (procs k)(a \<mapsto> p\<lparr>pending_signals := w\<rparr>)\<rparr>)"
  using assms
proof (induction sigs arbitrary: k p)
  case Nil
  then have "(procs k)(a \<mapsto> p\<lparr>pending_signals := pending_signals p\<rparr>) = procs k" by (simp add: map_upd_triv)
  then show ?case by (intro exI [of _ "pending_signals p"]) (simp add: deliver_def)
next
  case (Cons s sigs)
  let ?p = "p\<lparr>pending_signals := pending_signals p AND NOT (push_bit s 1)\<rparr>"
  let ?k = "k\<lparr>procs := (procs k)(a \<mapsto> ?p)\<rparr>"
  have c: "bit (pending_signals ?p) j \<longleftrightarrow> bit (pending_signals p) j \<and> j \<noteq> s" for j using Cons.prems(2) clear_bit by simp
  consider "\<not> bit u s" | "bit u s" "signal_handlers p ! s = 1" | "bit u s" "signal_handlers p ! s \<noteq> 1" by blast
  then show ?case
  proof cases
    case 1
    then show ?thesis using Cons.IH [OF Cons.prems(1)] Cons.prems(2) by auto
  next
    case 2
    have "procs ?k a = Some ?p" "\<forall>s \<in> set sigs. s < 64" using Cons.prems(2) by simp_all
    from Cons.IH [OF this] obtain w where
      w: "\<forall>j. bit w j \<longleftrightarrow> bit (pending_signals ?p) j \<and> \<not> (bit u j \<and> j \<in> set (up_to (\<lambda>s. bit u s \<and> signal_handlers ?p ! s \<noteq> 1) sigs))"
        "check_signals_from kz a u sigs ?k = deliver kz ?p (find (\<lambda>s. bit u s \<and> signal_handlers ?p ! s \<noteq> 1) sigs)
          (?k\<lparr>procs := (procs ?k)(a \<mapsto> ?p\<lparr>pending_signals := w\<rparr>)\<rparr>)"
      by blast
    have h: "signal_handlers ?p = signal_handlers p" by simp
    have A: "\<forall>j. bit w j \<longleftrightarrow> bit (pending_signals p) j \<and> \<not> (bit u j \<and> j \<in> set (up_to (\<lambda>s. bit u s \<and> signal_handlers p ! s \<noteq> 1) (s # sigs)))"
      using w(1) 2 unfolding c h by auto
    have step: "check_signals_from kz a u (s # sigs) k = check_signals_from kz a u sigs ?k"
      using 2 Cons.prems(1) by (simp add: upd_proc_def)
    have f: "find (\<lambda>s. bit u s \<and> signal_handlers p ! s \<noteq> 1) (s # sigs) = find (\<lambda>s. bit u s \<and> signal_handlers p ! s \<noteq> 1) sigs"
      using 2 by simp
    have kk: "?k\<lparr>procs := (procs ?k)(a \<mapsto> ?p\<lparr>pending_signals := w\<rparr>)\<rparr> = k\<lparr>procs := (procs k)(a \<mapsto> p\<lparr>pending_signals := w\<rparr>)\<rparr>"
      by simp
    show ?thesis using A w(2) unfolding step f kk h deliver_upd by - (rule exI [of _ w], rule conjI, assumption+)
  next
    case 3
    have "up_to (\<lambda>s. bit u s \<and> signal_handlers p ! s \<noteq> 1) (s # sigs) = [s]" using 3 by simp
    then have A: "\<forall>j. bit (pending_signals ?p) j \<longleftrightarrow> bit (pending_signals p) j \<and>
        \<not> (bit u j \<and> j \<in> set (up_to (\<lambda>s. bit u s \<and> signal_handlers p ! s \<noteq> 1) (s # sigs)))"
      unfolding c using 3(1) by auto
    have f: "find (\<lambda>s. bit u s \<and> signal_handlers p ! s \<noteq> 1) (s # sigs) = Some s" using 3 by simp
    have kk: "p\<lparr>pending_signals := pending_signals ?p\<rparr> = ?p" by simp
    have "check_signals_from kz a u (s # sigs) k = deliver kz p (Some s) ?k"
      using 3 Cons.prems(1) by (simp add: upd_proc_def deliver_def default_action_def)
    then show ?thesis using A unfolding f by - (rule exI [of _ "pending_signals ?p"], unfold kk, rule conjI, assumption+)
  qed
qed

text \<open>C17. \<^verbatim>\<open>check_signals\<close> acts on the lowest pending signal that is neither blocked nor ignored, and on no other.
  It first clears the pending bit of that signal and of the ignored ones below it, and no other bit. Then, if the
  signal has no handler, \<^verbatim>\<open>SIGKILL\<close> and \<^verbatim>\<open>SIGTERM\<close> end the process with the negated number, \<^verbatim>\<open>SIGCHLD\<close> does nothing and
  every other signal ends it with 128 plus the number; with a handler it only returns. Without such a signal
  it returns, with the bits of the ignored ones cleared.\<close>

theorem check_signals_correct:
  assumes "current k = Some a" "procs k a = Some p"
  shows "\<exists>w. (\<forall>j. bit w j \<longleftrightarrow> bit (pending_signals p) j \<and>
      \<not> (bit (unblocked p) j \<and> 1 \<le> j \<and> (\<forall>i. 1 \<le> i \<and> i < j \<longrightarrow> \<not> acted_on p i))) \<and>
    check_signals kz k = deliver kz p (find (acted_on p) [1..<64]) (k\<lparr>procs := (procs k)(a \<mapsto> p\<lparr>pending_signals := w\<rparr>)\<rparr>)"
proof -
  have D: "(\<lambda>s. bit (unblocked p) s \<and> signal_handlers p ! s \<noteq> 1) = acted_on p" by (auto simp: acted_on_def)
  obtain w where w: "\<forall>j. bit w j \<longleftrightarrow> bit (pending_signals p) j \<and> \<not> (bit (unblocked p) j \<and> j \<in> set (up_to (acted_on p) [1..<64]))"
    "check_signals_from kz a (unblocked p) [1..<64] k = deliver kz p (find (acted_on p) [1..<64])
      (k\<lparr>procs := (procs k)(a \<mapsto> p\<lparr>pending_signals := w\<rparr>)\<rparr>)"
    using check_signals_from_deliver [of k a p "[1..<64]" "unblocked p" kz, OF assms(2)] unfolding D by auto
  have "check_signals kz k = check_signals_from kz a (unblocked p) [1..<64] k"
  proof (cases "unblocked p = 0")
    case True
    then have "find (acted_on p) [1..<64] = None" by (simp add: acted_on_def find_None_iff)
    moreover have "w = pending_signals p" by (rule bit_eqI) (use w(1) True in simp)
    then have "(procs k)(a \<mapsto> p\<lparr>pending_signals := w\<rparr>) = procs k" using assms(2) by (simp add: map_upd_triv)
    ultimately show ?thesis using True assms w(2) by (simp add: check_signals_def deliver_def unblocked_def del: upt_Suc)
  next
    case False
    then show ?thesis using assms by (simp add: check_signals_def unblocked_def)
  qed
  moreover have "bit (unblocked p) j \<and> j \<in> set (up_to (acted_on p) [1..<64]) \<longleftrightarrow>
      bit (unblocked p) j \<and> 1 \<le> j \<and> (\<forall>i. 1 \<le> i \<and> i < j \<longrightarrow> \<not> acted_on p i)" for j
    using bit_imp_le_length [of "unblocked p" j] unfolding up_to_upt by auto
  ultimately show ?thesis using w by (intro exI [of _ w]) (simp only: simp_thms)
qed

text \<open>A process that ignores signal 3, with the signals 3, 17 and 20 pending.\<close>

definition signalled :: process where
  "signalled = blank_process\<lparr>pid := 2, state := PROCESS_STATE_RUNNING, signal_handlers := (replicate 64 0)[3 := 1],
     pending_signals := push_bit 3 1 OR push_bit 17 1 OR push_bit 20 1\<rparr>"

definition signalled_kernel :: kernel where
  "signalled_kernel = \<lparr>procs = [4096 \<mapsto> signalled], process_table = (replicate MAX_PROCESSES None)[2 := Some 4096],
     current = Some 4096, next_pid = 3,
     sched = \<lparr>nodes = Map.empty, root = None, leftmost = None, min_vruntime = 0, clock_ticks = 0,
       sched_nodes = replicate MAX_PROCESSES None, sched_enabled = True\<rparr>\<rparr>"

lemma signalled_bits: "bit (unblocked signalled) j \<longleftrightarrow> j \<in> {3, 17, 20}" "bit (pending_signals signalled) j \<longleftrightarrow> j \<in> {3, 17, 20}"
proof -
  have "bit (push_bit 3 1 OR push_bit 17 1 OR push_bit 20 1 :: u64) j \<longleftrightarrow> j \<in> {3, 17, 20}"
    unfolding bit_or_iff bit_push_bit_iff bit_1_iff possible_bit_word by auto
  moreover have "unblocked signalled = push_bit 3 1 OR push_bit 17 1 OR push_bit 20 1"
    "pending_signals signalled = push_bit 3 1 OR push_bit 17 1 OR push_bit 20 1"
    by (simp_all add: unblocked_def signalled_def blank_process_def)
  ultimately show "bit (unblocked signalled) j \<longleftrightarrow> j \<in> {3, 17, 20}" "bit (pending_signals signalled) j \<longleftrightarrow> j \<in> {3, 17, 20}"
    by (simp_all only:)
qed

lemma signalled_acts: "acted_on signalled j \<longleftrightarrow> j \<in> {17, 20}"
  unfolding acted_on_def signalled_bits by (auto simp: signalled_def)

theorem check_signals_correct_witness:
  "\<exists>w. \<not> bit w 3 \<and> \<not> bit w 17 \<and> bit w 20 \<and>
     check_signals (\<lambda>_. None) signalled_kernel = Some (Returned, signalled_kernel\<lparr>procs := [4096 \<mapsto> signalled\<lparr>pending_signals := w\<rparr>]\<rparr>)"
proof -
  let ?kz = "\<lambda>_. None"
  have k: "current signalled_kernel = Some 4096" "procs signalled_kernel 4096 = Some signalled" by (simp_all add: signalled_kernel_def)
  have f: "find (acted_on signalled) [1..<64] = Some 17" unfolding find_upt_Some_iff signalled_acts by simp
  have d: "deliver ?kz signalled (Some 17) k' = Some (Returned, k')" for k'
    by (simp add: deliver_def default_action_def signalled_def)
  obtain w where w: "\<And>j. bit w j \<longleftrightarrow> j \<in> {3, 17, 20} \<and> \<not> (j \<in> {3, 17, 20} \<and> 1 \<le> j \<and> (\<forall>i. 1 \<le> i \<and> i < j \<longrightarrow> i \<notin> {17, 20}))"
    "check_signals ?kz signalled_kernel = Some (Returned, signalled_kernel\<lparr>procs := (procs signalled_kernel)(4096 \<mapsto> signalled\<lparr>pending_signals := w\<rparr>)\<rparr>)"
    using check_signals_correct [OF k, of ?kz] unfolding f d signalled_bits signalled_acts by blast
  have "\<not> bit w 3" "\<not> bit w 17" "bit w 20" unfolding w(1) by auto
  then show ?thesis using w(2) by (intro exI [of _ w]) (simp add: signalled_kernel_def)
qed

end
