(* ===== verification/Spec2Isabelle.thy ===== *)
theory Spec2Isabelle
  imports Events_Correct Cstring_Correct Phys_Correct Utf8 Path_Correct Resolve_Correct Hvfs_Correct Emu6502_Correct
    A2600_Correct Proc_Correct Sched_Correct Family_Correct Signal_Correct
begin

text \<open>
  A verification development of ModuOS, a 64-bit kernel written in C with its user programs. Paths below are
  relative to the repository.

  \<^bold>\<open>Parts and how they interact.\<close> The kernel's string library is used by everything else. The physical frame
  allocator hands out page frames. Interrupt handlers of the input drivers push events into a ring that user
  programs poll or wait on. A path is normalised and resolved to a device, a user file system or a mount slot;
  files are read through a cache of whole files. The process table owns the processes; the scheduler orders the
  ready ones by virtual runtime; signals, exit and wait change their states, link them into families and put them
  on and off the run queue. The console decodes UTF-8. In user space an Atari 2600 machine drives a 6502 core
  through a bus of callbacks.

  \<^bold>\<open>Theories and code.\<close>
  \<^item> \<^verbatim>\<open>Prelude\<close>: the machine integers as words, ring indices, searches by \<^verbatim>\<open>find\<close> over an interval. \<^verbatim>\<open>Fifo\<close>: the
    interface of a bounded queue (locale \<^verbatim>\<open>bounded_fifo\<close>) and the theorem about all sequences of its operations.
  \<^item> \<^verbatim>\<open>Events\<close>, \<^verbatim>\<open>Events_Correct\<close>: \<^verbatim>\<open>src/kernel/events/events.c\<close>. The queue is a record with the 64-entry ring,
    its two indices and its count; the interpretation of \<^verbatim>\<open>bounded_fifo\<close> is the
    refinement to a list. Waiting is a function of the list of states that interrupts leave.
  \<^item> \<^verbatim>\<open>Cstring\<close>, \<^verbatim>\<open>Cstring_Props\<close>, \<^verbatim>\<open>Cstring_Correct\<close>: \<^verbatim>\<open>src/kernel/memory/string.c\<close>. A written object is the
    list of its characters, a write past its end is None, and a string that is only read is the list before its
    terminator.
  \<^item> \<^verbatim>\<open>Phys\<close>, \<^verbatim>\<open>Phys_Props\<close>, \<^verbatim>\<open>Phys_Correct\<close>: \<^verbatim>\<open>src/kernel/memory/phys.c\<close>. Bitmap, reference counts and regions;
    the properties are over an abstract state per frame (free, held, pinned) and all sequences of calls.
  \<^item> \<^verbatim>\<open>Utf8\<close>: \<^verbatim>\<open>src/drivers/graphics/utf8_decode.c\<close>, against the encoding of the Unicode scalar values.
  \<^item> \<^verbatim>\<open>Path\<close>, \<^verbatim>\<open>Path_Correct\<close>, \<^verbatim>\<open>Resolve_Correct\<close>: \<^verbatim>\<open>src/fs/path_norm.c\<close>, \<^verbatim>\<open>src/fs/path.c\<close> and the mount lookups of
    \<^verbatim>\<open>src/fs/fs.c\<close>. The reference for both normalisers
    cuts a path at the slashes and follows its names in a directory tree.
  \<^item> \<^verbatim>\<open>Hvfs_Cache\<close>, \<^verbatim>\<open>Hvfs_Correct\<close>: \<^verbatim>\<open>src/fs/hvfs_cache.c\<close> and \<^verbatim>\<open>src/fs/hvfs.c\<close>. A step relation adds the buffers
    that clients hold; an invariant ties the reference counts to them.
  \<^item> \<^verbatim>\<open>Proc_Table\<close>, \<^verbatim>\<open>Proc_Table_Props\<close>: \<^verbatim>\<open>src/kernel/process/process_table.c\<close> and the structure of
    \<^verbatim>\<open>include/moduos/kernel/process/process_new.h\<close>. Process structures are a map from addresses; an operation that
    uses a null or dangling pointer is None.
  \<^item> \<^verbatim>\<open>Sched\<close>: \<^verbatim>\<open>src/kernel/process/scheduler.c\<close>, with the run queue's tree as nodes in an address map and every
    pointer assignment of the source. \<^verbatim>\<open>Sched_Tree\<close> says when the nodes form a tree and how a rotation changes it,
    \<^verbatim>\<open>Sched_Insert\<close> that the fixup loop refines rewriting of a tree at a focus, \<^verbatim>\<open>Sched_Rbt\<close> that the rewriting keeps
    order and balance, \<^verbatim>\<open>Sched_Queue\<close> and \<^verbatim>\<open>Sched_Pick\<close> lift this to the queue as a list, \<^verbatim>\<open>Sched_Correct\<close> has the
    properties and the run of five processes that makes the scheduler call itself without end.
  \<^item> \<^verbatim>\<open>Proc_Life\<close>, \<^verbatim>\<open>Proc_Correct\<close>: \<^verbatim>\<open>process_init_new.c\<close>, \<^verbatim>\<open>fd_inject.c\<close>, \<^verbatim>\<open>signals_new.c\<close>, \<^verbatim>\<open>exit_new.c\<close>,
    \<^verbatim>\<open>wait_new.c\<close> and the ends of a process in \<^verbatim>\<open>process.c\<close>, all under \<^verbatim>\<open>src/kernel/process\<close>. \<^verbatim>\<open>Proc_Family\<close>
    describes the children of a process as the list its links lead through, \<^verbatim>\<open>Proc_Sched\<close> says what wakeup and
    the switch away from a process do to the run queue and the processes, \<^verbatim>\<open>Family_Correct\<close> has the properties of
    exit, wait and reparenting and that a wait after an exit gets its status, \<^verbatim>\<open>Signal_Correct\<close> those of signals.
  \<^item> \<^verbatim>\<open>Emu6502\<close>, \<^verbatim>\<open>Emu6502_Props\<close>, \<^verbatim>\<open>Emu6502_Correct\<close>: \<^verbatim>\<open>userland/emu6502.c\<close> in a state monad over an arbitrary bus.
    The locale \<^verbatim>\<open>cpu_relation\<close> lifts a relation on registers and bus through every instruction; it is interpreted
    for the status byte, the cycle count and the Atari machine.
  \<^item> \<^verbatim>\<open>A2600\<close>, \<^verbatim>\<open>A2600_Correct\<close>: \<^verbatim>\<open>userland/lib_a2600.c\<close>; its bus is the one the processor runs on.

  \<^bold>\<open>What the lemmas show.\<close> For each component: the invariant of its state and that every operation keeps it; what each
  operation returns and changes, failures included; and the abstract object it implements: a list queue, frames with
  owners, canonical paths, held buffers, an ordered queue, a sibling list, integer arithmetic. Where the code departs
  from that, the departure is a theorem: the off-by-one of \<^verbatim>\<open>strncmp\<close>, the stack bytes that follow a normalised root
  path, the overflow of \<^verbatim>\<open>rel_path\<close>, the aliases of long cached paths, the Atari stack page, the missing init process,
  the removal that never returns.

  \<^bold>\<open>Bounds and loops.\<close> Words have the width of the C types and wrap. Loops over a range are \<^verbatim>\<open>find\<close>, \<^verbatim>\<open>fold\<close> or
  structural recursion; loops that follow pointers or wait are \<^verbatim>\<open>partial_function\<close> into option, so that a loop
  without an end is None and each claim that it returns is proved. That a removal from the run queue never returns is
  shown on its body, which calls itself with the same argument in the same state, not by the value None alone. The frame
  loop of the Atari machine is shown to
  end within 23718 cycles. Buffers have the sizes of the source: 256 bytes for paths, 64 events, 128 cache entries,
  256 processes. Two counters of the formatter, the characters written and the field width, are natural numbers
  where the source has \<^verbatim>\<open>int\<close>.

  \<^bold>\<open>Parameters.\<close> Code outside the model is an argument: the frames behind the boot memory map, the disk reads of
  the file reader, the bus callbacks, and the addresses that \<^verbatim>\<open>kmalloc\<close> and \<^verbatim>\<open>kzalloc\<close> return to the process
  subsystem.

  \<^bold>\<open>Not modelled.\<close> Drivers, interrupt entry, context switch, page tables, boot and SMP start are processor and
  device state. The on-disk file systems, the descriptor layer, program loading, kernel modules and the system call
  dispatcher connect these with the components above. Locks are left out: the operations are modelled as they run
  when they hold their lock. The serial log is not part of any state. User programs other than the emulator and the
  external projects are not modelled.
\<close>

end
